(* ===== verification/Prelude.thy ===== *)
theory Prelude
  imports Main "HOL-Library.AList" "HOL-Library.Sublist" "HOL-Library.Char_ord"
    "HOL-Library.List_Lexorder"
begin

text \<open>
  What the components share: the fixed-width integers and the parts of Go's standard
  library the sources use (\<^verbatim>\<open>strings\<close>, \<^verbatim>\<open>path\<close>, \<^verbatim>\<open>io\<close>, \<^verbatim>\<open>time\<close>), the error values
  of \<^verbatim>\<open>errors.go\<close> with \<^verbatim>\<open>errors.Is\<close> and \<^verbatim>\<open>errors.As\<close>, and generic lemmas about
  them.  A Go string and a Go byte slice are both a sequence of bytes, hence a
  \<^typ>\<open>string\<close> (a list of 8-bit characters).
\<close>

named_theorems go_defs "definitions of the Go library functions, for unfolding"

type_synonym bytes = string

section \<open>Integers\<close>

text \<open>
  \<^verbatim>\<open>int64\<close> values are integers in the range of 64-bit two's complement; the
  wrap-around of an addition is written out.
\<close>

definition min_int64 :: int where
  "min_int64 = - (2 ^ 63)"

definition max_int64 :: int where
  "max_int64 = 2 ^ 63 - 1"

definition wrap64 :: "int \<Rightarrow> int" where
  "wrap64 x = (x + 2 ^ 63) mod 2 ^ 64 - 2 ^ 63"

definition add64 :: "int \<Rightarrow> int \<Rightarrow> int" where
  "add64 a b = wrap64 (a + b)"

definition is_int64 :: "int \<Rightarrow> bool" where
  "is_int64 x \<longleftrightarrow> min_int64 \<le> x \<and> x \<le> max_int64"

text \<open>\<^verbatim>\<open>Time.Sub\<close>: the difference of two instants in nanoseconds, saturated.\<close>

definition time_Sub :: "int \<Rightarrow> int \<Rightarrow> int" where
  "time_Sub t u = max min_int64 (min max_int64 (t - u))"

section \<open>Errors\<close>

text \<open>
  The sentinels of \<^verbatim>\<open>errors.go\<close>, the two error structs of the package, the errors of
  a context, every other error (of the operating system, of SQLite, of the network, or a
  plain \<^verbatim>\<open>fmt.Errorf\<close>) by its text, and an error wrapped by \<^verbatim>\<open>%w\<close>.
\<close>

datatype err =
    ErrNotFound
  | ErrPreconditionFailed
  | ErrConflict
  | ErrSchemaMismatch
  | ErrSchemaTooNew
  | ErrSeqMismatch
  | errBothConditions
  | errChangesetConflict int
  | ErrUnrecordedChanges int "string list"
  | CtxErr string
  | OtherErr string
  | Wrapped string err

type_synonym 'a result = "err + 'a"

fun errors_Is :: "err \<Rightarrow> err \<Rightarrow> bool" where
  "errors_Is (Wrapped msg e) t = (Wrapped msg e = t \<or> errors_Is e t)"
| "errors_Is e t = (e = t)"

fun errors_As_conflict :: "err \<Rightarrow> bool" where
  "errors_As_conflict (errChangesetConflict k) = True"
| "errors_As_conflict (Wrapped msg e) = errors_As_conflict e"
| "errors_As_conflict e = False"

section \<open>Strings\<close>

definition HasPrefix :: "string \<Rightarrow> string \<Rightarrow> bool" where
  "HasPrefix s p = (take (length p) s = p)"

definition HasSuffix :: "string \<Rightarrow> string \<Rightarrow> bool" where
  "HasSuffix s p = (length p \<le> length s \<and> drop (length s - length p) s = p)"

definition TrimPrefix :: "string \<Rightarrow> string \<Rightarrow> string" where
  "TrimPrefix s p = (if HasPrefix s p then drop (length p) s else s)"

text \<open>\<^verbatim>\<open>strings.Index\<close> and \<^verbatim>\<open>strings.LastIndex\<close> for a one-byte pattern; -1 if absent.\<close>

fun IndexByte :: "string \<Rightarrow> char \<Rightarrow> int" where
  "IndexByte [] c = -1"
| "IndexByte (x # xs) c =
     (if x = c then 0 else let i = IndexByte xs c in if i < 0 then -1 else i + 1)"

fun LastIndexByte :: "string \<Rightarrow> char \<Rightarrow> int" where
  "LastIndexByte [] c = -1"
| "LastIndexByte (x # xs) c =
     (let i = LastIndexByte xs c in if 0 \<le> i then i + 1 else if x = c then 0 else -1)"

text \<open>\<^verbatim>\<open>strings.Trim\<close> for a one-byte cutset.\<close>

definition TrimByte :: "string \<Rightarrow> char \<Rightarrow> string" where
  "TrimByte s c = rev (dropWhile (\<lambda>x. x = c) (rev (dropWhile (\<lambda>x. x = c) s)))"

text \<open>\<^verbatim>\<open>strings.Cut\<close> around the first occurrence of a byte.\<close>

definition CutByte :: "string \<Rightarrow> char \<Rightarrow> string \<times> string \<times> bool" where
  "CutByte s c =
     (let i = IndexByte s c
      in if i < 0 then (s, [], False) else (take (nat i) s, drop (Suc (nat i)) s, True))"

text \<open>\<^verbatim>\<open>strings.Split\<close> on a one-byte separator.\<close>

fun SplitByte :: "string \<Rightarrow> char \<Rightarrow> string list" where
  "SplitByte [] c = [[]]"
| "SplitByte (x # xs) c =
     (if x = c then [] # SplitByte xs c
      else case SplitByte xs c of [] \<Rightarrow> [[x]] | w # ws \<Rightarrow> (x # w) # ws)"

text \<open>\<^verbatim>\<open>path.Base\<close>: the last element of a slash-separated path.\<close>

definition path_Base :: "string \<Rightarrow> string" where
  "path_Base s =
     (if s = [] then ''.''
      else let s1 = rev (dropWhile (\<lambda>c. c = CHR ''/'') (rev s));
               s2 = drop (nat (LastIndexByte s1 CHR ''/'' + 1)) s1
           in if s2 = [] then ''/'' else s2)"

lemmas [go_defs] = HasPrefix_def HasSuffix_def TrimPrefix_def TrimByte_def CutByte_def
  path_Base_def

section \<open>Lemmas\<close>

lemma wrap64_id [simp]: "is_int64 x \<Longrightarrow> wrap64 x = x"
  by (auto simp: is_int64_def wrap64_def min_int64_def max_int64_def)

lemma is_int64_wrap64 [simp]: "is_int64 (wrap64 x)"
proof -
  have "0 \<le> (x + 2 ^ 63) mod (2 ^ 64 :: int)" "(x + 2 ^ 63) mod (2 ^ 64 :: int) < 2 ^ 64"
    by simp_all
  then show ?thesis
    by (simp add: is_int64_def wrap64_def min_int64_def max_int64_def)
qed

lemma add64_eq [simp]: "is_int64 (a + b) \<Longrightarrow> add64 a b = a + b"
  by (simp add: add64_def)

lemma errors_Is_refl [simp]: "errors_Is e e"
  by (cases e) auto

lemma HasPrefix_iff: "HasPrefix s p \<longleftrightarrow> prefix p s"
  by (metis HasPrefix_def append_eq_conv_conj prefix_def)

lemma HasPrefix_append [simp]: "HasPrefix (p @ s) p"
  by (simp add: HasPrefix_def)

lemma HasSuffix_iff: "HasSuffix s p \<longleftrightarrow> suffix p s"
proof
  assume "HasSuffix s p"
  then show "suffix p s"
    by (metis HasSuffix_def suffix_drop)
next
  assume "suffix p s"
  then obtain t where "s = t @ p" by (auto simp: suffix_def)
  then show "HasSuffix s p" by (simp add: HasSuffix_def)
qed

lemma HasSuffix_append [simp]: "HasSuffix (s @ p) p"
  by (simp add: HasSuffix_def)

lemma TrimPrefix_append [simp]: "TrimPrefix (p @ s) p = s"
  by (simp add: TrimPrefix_def)

lemma IndexByte_ge: "-1 \<le> IndexByte s c"
  by (induction s) (auto simp: Let_def)

lemma IndexByte_notin [simp]: "c \<notin> set s \<Longrightarrow> IndexByte s c = -1"
  by (induction s) auto

lemma IndexByte_append: "c \<notin> set s \<Longrightarrow> IndexByte (s @ c # t) c = int (length s)"
  by (induction s) (auto simp: Let_def)

lemma IndexByte_split:
  "0 \<le> IndexByte s c \<Longrightarrow>
     s = take (nat (IndexByte s c)) s @ c # drop (Suc (nat (IndexByte s c))) s \<and>
     c \<notin> set (take (nat (IndexByte s c)) s)"
proof (induction s)
  case Nil
  then show ?case by simp
next
  case (Cons x s)
  show ?case
  proof (cases "x = c")
    case False
    with Cons.prems have i: "0 \<le> IndexByte s c"
      by (auto simp: Let_def split: if_splits)
    then have n: "nat (IndexByte s c + 1) = Suc (nat (IndexByte s c))" by simp
    from Cons.IH [OF i] i False show ?thesis by (simp add: Let_def n)
  qed simp
qed

lemma IndexByte_neg: "IndexByte s c < 0 \<longleftrightarrow> c \<notin> set s"
  by (induction s) (auto simp: Let_def)

lemma LastIndexByte_notin: "c \<notin> set s \<Longrightarrow> LastIndexByte s c = -1"
  by (induction s) auto

lemma LastIndexByte_append:
  "c \<notin> set t \<Longrightarrow> LastIndexByte (s @ c # t) c = int (length s)"
  by (induction s) (auto simp: LastIndexByte_notin Let_def)

lemma CutByte_append: "c \<notin> set s \<Longrightarrow> CutByte (s @ c # t) c = (s, t, True)"
  by (simp add: CutByte_def IndexByte_append)

lemma CutByte_notin: "c \<notin> set s \<Longrightarrow> CutByte s c = (s, [], False)"
  by (simp add: CutByte_def)

lemma SplitByte_nonempty: "SplitByte s c \<noteq> []"
  by (induction s) (auto split: list.splits)

lemma path_Base_set: "set (path_Base s) \<subseteq> insert CHR ''.'' (insert CHR ''/'' (set s))"
  by (auto simp: path_Base_def Let_def dest!: in_set_dropD set_dropWhileD split: if_splits)

lemma takeWhile_before: "c \<notin> set a \<Longrightarrow> takeWhile (\<lambda>x. x \<noteq> c) (a @ c # b) = a"
  by (induction a) auto

lemma path_Base_append:
  assumes "b \<noteq> []" and "CHR ''/'' \<notin> set b"
  shows "path_Base (p @ ''/'' @ b) = b"
proof -
  obtain x r where r: "rev b = x # r" using assms(1) by (cases "rev b") auto
  then have "x \<in> set b" by (metis list.set_intros(1) set_rev)
  with assms(2) have x: "x \<noteq> CHR ''/''" by auto
  have s1: "rev (dropWhile (\<lambda>c. c = CHR ''/'') (rev (p @ ''/'' @ b))) = p @ ''/'' @ b"
    using x by (simp add: r) (metis r rev_rev_ident rev.simps(2))
  have n: "nat (int (length p) + 1) = Suc (length p)" by simp
  show ?thesis
    using assms by (simp add: path_Base_def s1 [simplified] LastIndexByte_append Let_def n)
qed

lemma TrimByte_around:
  assumes "c \<notin> set x"
  shows "TrimByte (c # x @ [c]) c = x"
proof (cases x)
  case (Cons y ys)
  have "dropWhile (\<lambda>z. z = c) (c # x @ [c]) = x @ [c]" using assms Cons by auto
  moreover have "hd (rev x) \<in> set x" using Cons by (metis hd_in_set list.distinct(1) rev_is_Nil_conv set_rev)
  then have "dropWhile (\<lambda>z. z = c) (rev x) = rev x"
    using assms Cons by (metis dropWhile_eq_self_iff)
  ultimately show ?thesis by (simp add: TrimByte_def)
qed (simp add: TrimByte_def)

section \<open>Characters by their bits\<close>

definition nibble_val :: "bool \<Rightarrow> bool \<Rightarrow> bool \<Rightarrow> bool \<Rightarrow> nat" where
  "nibble_val a b c d = of_bool a + 2 * (of_bool b + 2 * (of_bool c + 2 * of_bool d))"

lemma nibble_val_less: "nibble_val a b c d < 16"
  by (auto simp: nibble_val_def)

lemma of_char_nibbles:
  "of_char (Char b0 b1 b2 b3 b4 b5 b6 b7) = nibble_val b0 b1 b2 b3 + 16 * nibble_val b4 b5 b6 b7"
  by (simp add: of_char_def nibble_val_def horner_sum_foldr del: of_bool_eq_0_iff)

end
