(* ===== verification/Etag.thy ===== *)
theory Etag
  imports Prelude
begin

text \<open>
  The package \<^verbatim>\<open>internal/etag\<close>: \<^verbatim>\<open>Normalize\<close> strips the double quotes of RFC 7232,
  \<^verbatim>\<open>Compute\<close> is the lower-case hexadecimal form of a digest of the body.  The digest
  function (\<^verbatim>\<open>crypto/md5\<close>) is an argument of the definitions; what the stores rely on
  is that no two bodies that occur share a digest and that a digest is not empty, which
  is the locale \<open>digest\<close>.
\<close>

definition hex_digit :: "nat \<Rightarrow> char" where
  "hex_digit n = (if n < 10 then char_of (48 + n) else char_of (87 + n))"

definition hex_EncodeToString :: "bytes \<Rightarrow> string" where
  "hex_EncodeToString b =
     concat (map (\<lambda>c. [hex_digit (of_char c div 16), hex_digit (of_char c mod 16)]) b)"

definition Normalize :: "string \<Rightarrow> string" where
  "Normalize s = TrimByte s CHR 0x22"

definition Compute :: "(bytes \<Rightarrow> bytes) \<Rightarrow> bytes \<Rightarrow> string" where
  "Compute md5 body = hex_EncodeToString (md5 body)"

lemma Normalize_trimmed:
  assumes "s = [] \<or> (hd s \<noteq> CHR 0x22 \<and> last s \<noteq> CHR 0x22)"
  shows "Normalize s = s"
proof (cases s)
  case (Cons x xs)
  with assms have "x \<noteq> CHR 0x22" and "last s \<noteq> CHR 0x22" by auto
  then have "dropWhile (\<lambda>x. x = CHR 0x22) s = s"
    and "dropWhile (\<lambda>x. x = CHR 0x22) (rev s) = rev s"
    using Cons by (simp_all only: dropWhile_eq_self_iff hd_rev list.sel, auto)
  then show ?thesis by (simp add: Normalize_def TrimByte_def)
qed (simp add: Normalize_def TrimByte_def)

lemma hd_dropWhile_neq: "dropWhile P xs = [] \<or> \<not> P (hd (dropWhile P xs))"
  by (metis hd_dropWhile)

lemma Normalize_ends:
  "Normalize s = [] \<or> (hd (Normalize s) \<noteq> CHR 0x22 \<and> last (Normalize s) \<noteq> CHR 0x22)"
proof -
  define d where "d = dropWhile (\<lambda>x. x = CHR 0x22) s"
  define r where "r = dropWhile (\<lambda>x. x = CHR 0x22) (rev d)"
  have n: "Normalize s = rev r" by (simp add: Normalize_def TrimByte_def d_def r_def)
  have "suffix r (rev d)" by (simp add: r_def suffix_dropWhile)
  then obtain t where t: "rev d = t @ r" by (auto simp: suffix_def)
  show ?thesis
  proof (cases "r = []")
    case False
    then have "hd r \<noteq> CHR 0x22"
      using hd_dropWhile_neq [of "\<lambda>x. x = CHR 0x22" "rev d"] by (simp only: r_def [symmetric]) simp
    moreover have "d = rev r @ rev t" using t by (metis rev_append rev_rev_ident)
    then have "hd d = hd (rev r)" and "d \<noteq> []" using False by simp_all
    then have "hd (rev r) \<noteq> CHR 0x22"
      using hd_dropWhile_neq [of "\<lambda>x. x = CHR 0x22" s] by (simp only: d_def [symmetric]) simp
    ultimately show ?thesis using False by (simp add: n last_rev)
  qed (simp add: n)
qed

lemma hex_digit_inj: "m < 16 \<Longrightarrow> n < 16 \<Longrightarrow> hex_digit m = hex_digit n \<Longrightarrow> m = n"
proof -
  assume *: "m < 16" "n < 16" "hex_digit m = hex_digit n"
  then have "of_char (hex_digit m) = (of_char (hex_digit n) :: nat)" by simp
  with * show "m = n" by (simp add: hex_digit_def of_char_of split: if_splits)
qed

lemma hex_digit_not_quote: "n < 16 \<Longrightarrow> hex_digit n \<noteq> CHR 0x22"
proof
  assume "n < 16" "hex_digit n = CHR 0x22"
  then have "of_char (hex_digit n) = (34 :: nat)" by simp
  with \<open>n < 16\<close> show False by (simp add: hex_digit_def of_char_of split: if_splits)
qed

lemma of_char_div16: "of_char c div 16 < (16 :: nat)"
proof -
  have "of_char c mod 256 < (256 :: nat)" by (rule mod_less_divisor) simp
  then have "of_char c < (256 :: nat)" by (simp only: of_char_mod_256)
  then show ?thesis by (simp add: less_mult_imp_div_less)
qed

lemma hex_EncodeToString_Cons:
  "hex_EncodeToString (c # b) =
     hex_digit (of_char c div 16) # hex_digit (of_char c mod 16) # hex_EncodeToString b"
  by (simp add: hex_EncodeToString_def)

lemma hex_EncodeToString_Nil [simp]: "hex_EncodeToString b = [] \<longleftrightarrow> b = []"
  by (cases b) (simp_all add: hex_EncodeToString_def)

lemma hex_EncodeToString_inj: "hex_EncodeToString a = hex_EncodeToString b \<Longrightarrow> a = b"
proof (induction a arbitrary: b)
  case Nil
  then show ?case by (metis hex_EncodeToString_Nil)
next
  case (Cons x a)
  then obtain y b' where b: "b = y # b'" by (cases b) (simp_all add: hex_EncodeToString_def)
  with Cons.prems have q: "hex_digit (of_char x div 16) = hex_digit (of_char y div 16)"
    and m: "hex_digit (of_char x mod 16) = hex_digit (of_char y mod 16)"
    and r: "hex_EncodeToString a = hex_EncodeToString b'"
    by (simp_all add: hex_EncodeToString_Cons)
  from q have "of_char x div 16 = (of_char y div 16 :: nat)"
    by (rule hex_digit_inj [OF of_char_div16 of_char_div16])
  moreover from m have "of_char x mod 16 = (of_char y mod 16 :: nat)"
    by (rule hex_digit_inj [rotated 2]) simp_all
  ultimately have "of_char x = (of_char y :: nat)"
    by (metis div_mult_mod_eq)
  then have "x = y" by simp
  with Cons.IH [OF r] b show ?case by simp
qed

lemma hex_EncodeToString_no_quote: "CHR 0x22 \<notin> set (hex_EncodeToString b)"
proof (induction b)
  case (Cons c b)
  have "hex_digit (of_char c div 16) \<noteq> CHR 0x22" by (simp add: hex_digit_not_quote of_char_div16)
  moreover have "hex_digit (of_char c mod 16) \<noteq> CHR 0x22" by (simp add: hex_digit_not_quote)
  ultimately show ?case using Cons by (auto simp: hex_EncodeToString_Cons)
qed (simp add: hex_EncodeToString_def)

lemma Normalize_Compute [simp]: "Normalize (Compute md5 b) = Compute md5 b"
proof (rule Normalize_trimmed)
  have "CHR 0x22 \<notin> set (Compute md5 b)"
    by (simp add: Compute_def hex_EncodeToString_no_quote)
  then show "Compute md5 b = [] \<or>
      (hd (Compute md5 b) \<noteq> CHR 0x22 \<and> last (Compute md5 b) \<noteq> CHR 0x22)"
    by (cases "Compute md5 b = []") (metis hd_in_set last_in_set)+
qed

text \<open>What the stores rely on about the digest.\<close>

locale digest =
  fixes md5 :: "bytes \<Rightarrow> bytes"
  assumes md5_inj: "md5 a = md5 b \<Longrightarrow> a = b"
    and md5_nonempty: "md5 a \<noteq> []"
begin

lemma Compute_inj: "Compute md5 a = Compute md5 b \<Longrightarrow> a = b"
  unfolding Compute_def by (rule md5_inj [OF hex_EncodeToString_inj])

lemma Compute_nonempty: "Compute md5 a \<noteq> []"
  by (simp add: Compute_def md5_nonempty)

end

section \<open>Evaluation\<close>

text \<open>Hexadecimal digits by the bits of a byte, so that ETags can be evaluated by rewriting.\<close>

fun hex_nibble :: "bool \<Rightarrow> bool \<Rightarrow> bool \<Rightarrow> bool \<Rightarrow> char" where
  "hex_nibble a b c d =
     (if d
      then (if c
            then (if b then (if a then CHR ''f'' else CHR ''e'') else (if a then CHR ''d'' else CHR ''c''))
            else (if b then (if a then CHR ''b'' else CHR ''a'') else (if a then CHR ''9'' else CHR ''8'')))
      else (if c
            then (if b then (if a then CHR ''7'' else CHR ''6'') else (if a then CHR ''5'' else CHR ''4''))
            else (if b then (if a then CHR ''3'' else CHR ''2'') else (if a then CHR ''1'' else CHR ''0''))))"

fun hex_byte :: "char \<Rightarrow> string" where
  "hex_byte (Char b0 b1 b2 b3 b4 b5 b6 b7) = [hex_nibble b4 b5 b6 b7, hex_nibble b0 b1 b2 b3]"

lemma hex_digit_nibble: "hex_digit (nibble_val a b c d) = hex_nibble a b c d"
  by (cases a; cases b; cases c; cases d; simp add: hex_digit_def nibble_val_def char_of_def bit_0)

lemma hex_byte_eq: "[hex_digit (of_char c div 16), hex_digit (of_char c mod 16)] = hex_byte c"
  by (cases c) (simp only: of_char_nibbles div_mult_self2 mod_mult_self2 div_less mod_less
      nibble_val_less hex_digit_nibble hex_byte.simps add_0 add_0_right zero_neq_numeral not_False_eq_True)

lemma hex_EncodeToString_code [code]: "hex_EncodeToString b = concat (map hex_byte b)"
  unfolding hex_EncodeToString_def by (simp only: hex_byte_eq)

section \<open>Properties\<close>

text \<open>
  \<^verbatim>\<open>Normalize\<close> removes all quotes at both ends and nothing else: the result neither starts nor
  ends with a quote, normalising again changes nothing, and an ETag made by \<^verbatim>\<open>Compute\<close> is already
  normal.
\<close>

theorem normalize_quotes:
  "(Normalize s = [] \<or> hd (Normalize s) \<noteq> CHR 0x22 \<and> last (Normalize s) \<noteq> CHR 0x22) \<and>
   Normalize (Normalize s) = Normalize s \<and> Normalize (Compute md5 b) = Compute md5 b \<and>
   Normalize (CHR 0x22 # Compute md5 b @ [CHR 0x22]) = Compute md5 b"
proof -
  note n = Normalize_ends [of s]
  have "CHR 0x22 \<notin> set (Compute md5 b)"
    by (simp add: Compute_def hex_EncodeToString_no_quote)
  then have "Normalize (CHR 0x22 # Compute md5 b @ [CHR 0x22]) = Compute md5 b"
    unfolding Normalize_def by (rule TrimByte_around)
  then show ?thesis
    using n Normalize_trimmed [OF n] by simp
qed

end
