(* ===== verification/Blob.thy ===== *)
theory Blob
  imports Etag
begin

text \<open>
  The \<^verbatim>\<open>BlobStore\<close> interface of \<^verbatim>\<open>blob.go\<close>.  An interface value is a record of
  operations over the state \<open>'s\<close> of the store; every operation takes the context
  and returns its results together with the new state.  A body read from the
  store is the outcome of reading it to the end.

  The contract of the interface comment is the locale \<open>cas_store\<close>: what a call may
  observe and change, in terms of a flat view of the objects (key to body and ETag), while
  other clients interfere before the call takes effect according to \<open>env\<close>.  Any call may
  fail with an error of its own; a failed write other than a failed precondition may or may
  not have taken effect.
\<close>

section \<open>Data\<close>

text \<open>A context: \<open>Some msg\<close> once it is cancelled or past its deadline, the text of \<^verbatim>\<open>ctx.Err()\<close>.\<close>

type_synonym ctx = "string option"
type_synonym body = "bytes result"

record PutCondition =
  IfMatch :: string
  IfNoneMatch :: bool

definition NoCondition :: PutCondition where
  "NoCondition = \<lparr>IfMatch = '''', IfNoneMatch = False\<rparr>"

record BlobInfo =
  ETag :: string
  Size :: int
  LastModified :: int

record 's BlobStore =
  Get :: "ctx \<Rightarrow> string \<Rightarrow> 's \<Rightarrow> (body \<times> string) result \<times> 's"
  GetRange :: "ctx \<Rightarrow> string \<Rightarrow> int \<Rightarrow> int \<Rightarrow> 's \<Rightarrow> body result \<times> 's"
  Stat :: "ctx \<Rightarrow> string \<Rightarrow> 's \<Rightarrow> BlobInfo result \<times> 's"
  Put :: "ctx \<Rightarrow> string \<Rightarrow> body \<Rightarrow> PutCondition \<Rightarrow> 's \<Rightarrow> string result \<times> 's"
  ListKeys :: "ctx \<Rightarrow> string \<Rightarrow> 's \<Rightarrow> string list result \<times> 's"
  Delete :: "ctx \<Rightarrow> string \<Rightarrow> 's \<Rightarrow> err option \<times> 's"
  DeletePrefix :: "ctx \<Rightarrow> string \<Rightarrow> 's \<Rightarrow> err option \<times> 's"

text \<open>The objects of a store as its clients see them: the body and the ETag under a key.\<close>

type_synonym objs = "string \<Rightarrow> (bytes \<times> string) option"

text \<open>The precondition of a write, on the object that is under the key.\<close>

definition cond_ok :: "PutCondition \<Rightarrow> (bytes \<times> string) option \<Rightarrow> bool" where
  "cond_ok c x \<longleftrightarrow>
     (IfNoneMatch c \<longrightarrow> x = None) \<and>
     (IfMatch c \<noteq> '''' \<longrightarrow> (\<exists>b. x = Some (b, Normalize (IfMatch c))))"

text \<open>
  What \<^verbatim>\<open>DeletePrefix\<close> may do: remove objects under the prefix, at once or one by one while others
  interfere in between.
\<close>

inductive sweeps :: "(objs \<Rightarrow> objs \<Rightarrow> bool) \<Rightarrow> string \<Rightarrow> objs \<Rightarrow> objs \<Rightarrow> bool"
  for env :: "objs \<Rightarrow> objs \<Rightarrow> bool" and p :: string and u :: objs where
  sweeps_none: "sweeps env p u u"
| sweeps_env: "sweeps env p u v \<Longrightarrow> env v w \<Longrightarrow> sweeps env p u w"
| sweeps_del: "sweeps env p u v \<Longrightarrow> \<forall>k. w k = v k \<or> (HasPrefix k p \<and> w k = None) \<Longrightarrow> sweeps env p u w"

lemma sweeps_alone: "sweeps (=) p u v \<Longrightarrow> v k = u k \<or> (HasPrefix k p \<and> v k = None)"
proof (induction rule: sweeps.induct)
  case (sweeps_del v w)
  then show ?case by (cases "HasPrefix k p") (metis+)
qed simp_all

lemma sweeps_trans: "sweeps env p v w \<Longrightarrow> sweeps env p u v \<Longrightarrow> sweeps env p u w"
  by (induction rule: sweeps.induct) (auto intro: sweeps.intros)

section \<open>The contract\<close>

locale cas_store =
  fixes store :: "'s BlobStore"
    and view :: "'s \<Rightarrow> objs"
    and invar :: "'s \<Rightarrow> bool"
    and env :: "objs \<Rightarrow> objs \<Rightarrow> bool"
  assumes env_refl: "env v v"
    and env_trans: "env u v \<Longrightarrow> env v w \<Longrightarrow> env u w"
    and etag_unique: "invar s \<Longrightarrow> invar t \<Longrightarrow> view s k = Some (b, e) \<Longrightarrow>
      view t l = Some (b', e) \<Longrightarrow> b = b'"
    and etag_normal: "invar s \<Longrightarrow> view s k = Some (b, e) \<Longrightarrow> e \<noteq> '''' \<and> Normalize e = e"
    and Get_step: "invar s \<Longrightarrow> Get store ctx k s = (r, t) \<Longrightarrow> invar t \<and> env (view s) (view t)"
    and Get_some: "invar s \<Longrightarrow> Get store ctx k s = (Inr (rd, e), t) \<Longrightarrow>
      \<exists>b. view t k = Some (b, e) \<and> (\<forall>a. rd = Inr a \<longrightarrow> a = b)"
    and Get_none: "invar s \<Longrightarrow> Get store ctx k s = (Inl x, t) \<Longrightarrow> errors_Is x ErrNotFound \<Longrightarrow>
      view t k = None"
    and GetRange_step: "invar s \<Longrightarrow> GetRange store ctx k i j s = (g, t) \<Longrightarrow>
      invar t \<and> env (view s) (view t)"
    and GetRange_some: "invar s \<Longrightarrow> GetRange store ctx k i j s = (Inr (Inr p), t) \<Longrightarrow>
      0 \<le> i \<Longrightarrow> i \<le> j \<Longrightarrow>
      \<exists>b e. view t k = Some (b, e) \<and> p = take (nat (j + 1 - i)) (drop (nat i) b)"
    and Stat_step: "invar s \<Longrightarrow> Stat store ctx k s = (info, t) \<Longrightarrow> invar t \<and> env (view s) (view t)"
    and List_step: "invar s \<Longrightarrow> ListKeys store ctx p s = (ks, t) \<Longrightarrow>
      invar t \<and> env (view s) (view t)"
    and Put_done: "invar s \<Longrightarrow> Put store ctx k rd c s = (Inr e, t) \<Longrightarrow>
      invar t \<and> (\<exists>u b. invar u \<and> env (view s) (view u) \<and> rd = Inr b \<and>
        cond_ok c (view u k) \<and> view t = (view u)(k \<mapsto> (b, e)))"
    and Put_fail: "invar s \<Longrightarrow> Put store ctx k rd c s = (Inl x, t) \<Longrightarrow>
      invar t \<and> (\<exists>u. invar u \<and> env (view s) (view u) \<and>
        (view t = view u \<or>
         \<not> errors_Is x ErrPreconditionFailed \<and>
         (\<exists>b e. rd = Inr b \<and> cond_ok c (view u k) \<and> view t = (view u)(k \<mapsto> (b, e)))))"
    and Delete_step: "invar s \<Longrightarrow> Delete store ctx k s = (d, t) \<Longrightarrow>
      invar t \<and> (\<exists>u. invar u \<and> env (view s) (view u) \<and>
        (view t = view u \<or> view t = (view u)(k := None)))"
    and DeletePrefix_step: "invar s \<Longrightarrow> DeletePrefix store ctx p s = (d, t) \<Longrightarrow>
      invar t \<and> sweeps env p (view s) (view t)"

text \<open>
  A store that is used by one client and does not fail: the sequential contract.
\<close>

locale exclusive_store = cas_store store view invar "(=)"
  for store :: "'s BlobStore" and view :: "'s \<Rightarrow> objs" and invar :: "'s \<Rightarrow> bool" +
  assumes Get_hit: "invar s \<Longrightarrow> view s k = Some (b, e) \<Longrightarrow>
      \<exists>t. Get store None k s = (Inr (Inr b, e), t)"
    and Get_miss: "invar s \<Longrightarrow> view s k = None \<Longrightarrow> \<exists>t. Get store None k s = (Inl ErrNotFound, t)"
    and GetRange_hit: "invar s \<Longrightarrow> view s k = Some (b, e) \<Longrightarrow> 0 \<le> i \<Longrightarrow> i \<le> j \<Longrightarrow>
      j < int (length b) \<Longrightarrow> \<exists>p t. GetRange store None k i j s = (Inr (Inr p), t)"
    and Put_hit: "invar s \<Longrightarrow> \<not> (IfMatch c \<noteq> '''' \<and> IfNoneMatch c) \<Longrightarrow> cond_ok c (view s k) \<Longrightarrow>
      \<exists>e t. Put store None k (Inr b) c s = (Inr e, t)"
    and Put_miss: "invar s \<Longrightarrow> \<not> (IfMatch c \<noteq> '''' \<and> IfNoneMatch c) \<Longrightarrow> \<not> cond_ok c (view s k) \<Longrightarrow>
      \<exists>t. Put store None k (Inr b) c s = (Inl ErrPreconditionFailed, t)"
    and List_all: "invar s \<Longrightarrow>
      \<exists>ks t. ListKeys store None p s = (Inr ks, t) \<and> sorted ks \<and> distinct ks \<and>
        set ks = {k. HasPrefix k p \<and> view s k \<noteq> None}"
    and Delete_gone: "invar s \<Longrightarrow>
      \<exists>t. Delete store None k s = (None, t) \<and> view t = (view s)(k := None)"
    and DeletePrefix_gone: "invar s \<Longrightarrow>
      \<exists>t. DeletePrefix store None p s = (None, t) \<and>
        view t = (\<lambda>k. if HasPrefix k p then None else view s k)"
    and Stat_hit: "invar s \<Longrightarrow> view s k = Some (b, e) \<Longrightarrow>
      \<exists>info t. Stat store None k s = (Inr info, t) \<and> ETag info = e \<and> Size info = int (length b)"
    and Stat_miss: "invar s \<Longrightarrow> view s k = None \<Longrightarrow> \<exists>t. Stat store None k s = (Inl ErrNotFound, t)"
begin

text \<open>What was written is read back, with the ETag the write returned.\<close>

lemma Get_Put:
  assumes "invar s" and "Put store None k (Inr b) c s = (Inr e, t)"
  shows "\<exists>u. Get store None k t = (Inr (Inr b, e), u) \<and> view u = view t"
proof -
  from Put_done [OF assms] have t: "invar t" "view t k = Some (b, e)" by auto
  from Get_hit [OF t] obtain u where u: "Get store None k t = (Inr (Inr b, e), u)" ..
  with Get_step [OF t(1) u] show ?thesis by auto
qed

text \<open>A compare-and-swap with an outdated ETag fails and changes nothing.\<close>

lemma Put_stale:
  assumes s: "invar s" and v: "view s k = Some (b', e')"
    and e: "e \<noteq> ''''" "Normalize e \<noteq> e'"
  shows "\<exists>t. Put store None k (Inr b) \<lparr>IfMatch = e, IfNoneMatch = False\<rparr> s
           = (Inl ErrPreconditionFailed, t) \<and> view t = view s"
proof -
  have "\<not> cond_ok \<lparr>IfMatch = e, IfNoneMatch = False\<rparr> (view s k)"
    using v e by (simp add: cond_ok_def)
  then obtain t where t: "Put store None k (Inr b) \<lparr>IfMatch = e, IfNoneMatch = False\<rparr> s
      = (Inl ErrPreconditionFailed, t)"
    using Put_miss [OF s] by fastforce
  with Put_fail [OF s t] show ?thesis by auto
qed

end

end
