(* ===== verification/Runtime.thy ===== *)
theory Runtime
  imports Blob
begin

text \<open>
  The code outside the repository that the program calls, as arguments of the model, and
  the world it runs in.

  SQLite (through \<^verbatim>\<open>zombiezen.com/go/sqlite\<close>) is a record of functions over the content
  \<open>'db\<close> of a database: opening a file and the file a content is stored in, the changeset
  a session records between two contents, applying a changeset with the conflict handler of
  \<^verbatim>\<open>apply.go\<close> (which always aborts), \<^verbatim>\<open>VACUUM\<close>, the rows of \<^verbatim>\<open>sqlite_master\<close> joined with
  \<^verbatim>\<open>pragma_table_info\<close>, and \<^verbatim>\<open>PRAGMA quick_check\<close>.  \<^verbatim>\<open>uuid.NewString\<close> is a function
  from a counter to strings.  What the theorems need to know of them are the named
  predicates at the end.

  The world holds the state of the store, the local files, the outcomes of the coming local
  system and library calls (an exhausted list means success), and the number of UUIDs drawn.
\<close>

section \<open>Parameters\<close>

datatype 'db applied = Applied 'db | Conflict int | ApplyErr err

record table_info =
  tbl_type :: string
  tbl_name :: string
  tbl_pks :: "int list"

record 'db ext =
  sq_open :: "bytes \<Rightarrow> 'db result"
  sq_file :: "'db \<Rightarrow> bytes"
  sq_changeset :: "'db \<Rightarrow> 'db \<Rightarrow> bytes"
  sq_apply :: "bytes \<Rightarrow> 'db \<Rightarrow> 'db applied"
  sq_vacuum :: "'db \<Rightarrow> 'db result"
  sq_master :: "'db \<Rightarrow> table_info list"
  sq_quick_check :: "bytes \<Rightarrow> string list result"
  sq_empty :: 'db
  uuid_string :: "nat \<Rightarrow> string"

text \<open>
  A closure passed to \<^verbatim>\<open>Update\<close> or \<^verbatim>\<open>View\<close>, or a migration step: its error, the content
  it leaves, and by how much it advanced \<^verbatim>\<open>total_changes()\<close>.
\<close>

type_synonym 'db txn = "'db \<Rightarrow> err option \<times> 'db \<times> int"

section \<open>Connections and the world\<close>

datatype 'db conn = NilConn | ClosedConn | OpenConn 'db

record 's world =
  w_store :: 's
  w_disk :: "string \<Rightarrow> bytes option"
  w_io :: "string option list"
  w_uuid :: nat

text \<open>The outcome of the next local call.\<close>

definition local_call :: "'s world \<Rightarrow> err option \<times> 's world" where
  "local_call w =
     (case w_io w of [] \<Rightarrow> (None, w)
      | x # xs \<Rightarrow> (map_option OtherErr x, w\<lparr>w_io := xs\<rparr>))"

text \<open>A store call of the world.\<close>

definition on_store :: "('s \<Rightarrow> 'r \<times> 's) \<Rightarrow> 's world \<Rightarrow> 'r \<times> 's world" where
  "on_store f w = (case f (w_store w) of (r, s) \<Rightarrow> (r, w\<lparr>w_store := s\<rparr>))"

definition new_uuid :: "'db ext \<Rightarrow> 's world \<Rightarrow> string \<times> 's world" where
  "new_uuid X w = (uuid_string X (w_uuid w), w\<lparr>w_uuid := Suc (w_uuid w)\<rparr>)"

text \<open>\<^verbatim>\<open>sqlite.OpenConn\<close> on an existing file.\<close>

definition sqlite_OpenConn :: "'db ext \<Rightarrow> string \<Rightarrow> 's world \<Rightarrow> 'db result \<times> 's world" where
  "sqlite_OpenConn X path w =
     (case local_call w of
        (Some e, w) \<Rightarrow> (Inl e, w)
      | (None, w) \<Rightarrow>
          (case w_disk w path of
             None \<Rightarrow> (Inl (OtherErr ''sqlite: open: unable to open database file''), w)
           | Some b \<Rightarrow> (sq_open X b, w)))"

text \<open>\<^verbatim>\<open>Conn.Close\<close> of a connection on \<open>path\<close>: the file holds the content.\<close>

definition conn_Close :: "'db ext \<Rightarrow> string \<Rightarrow> 'db conn \<Rightarrow> 's world \<Rightarrow> err option \<times> 's world" where
  "conn_Close X path c w =
     (case c of
        OpenConn d \<Rightarrow> local_call (w\<lparr>w_disk := (w_disk w)(path \<mapsto> sq_file X d)\<rparr>)
      | _ \<Rightarrow> (Some (OtherErr ''sqlite: close: connection is closed''), w))"

section \<open>What the theorems assume of SQLite\<close>

text \<open>
  Opening the file of a content gives that content; \<^verbatim>\<open>VACUUM\<close> does not change the content.
\<close>

definition file_law :: "'db ext \<Rightarrow> bool" where
  "file_law X \<longleftrightarrow> (\<forall>d. sq_open X (sq_file X d) = Inr d)"

definition vacuum_law :: "'db ext \<Rightarrow> bool" where
  "vacuum_law X \<longleftrightarrow> (\<forall>d d'. sq_vacuum X d = Inr d' \<longrightarrow> d' = d)"

text \<open>What a session can record.\<close>

definition recorded :: "'db ext \<Rightarrow> bytes \<Rightarrow> bool" where
  "recorded X cs \<longleftrightarrow> (\<exists>d d'. cs = sq_changeset X d d')"

text \<open>
  Conflict detection by before-images: if two recorded changesets apply to the same content,
  and the second also applies on top of the first, then the first applies on top of the
  second with the same result.
\<close>

definition rebase_law :: "'db ext \<Rightarrow> bool" where
  "rebase_law X \<longleftrightarrow>
     (\<forall>c t d d1 d2 d3. recorded X c \<longrightarrow> recorded X t \<longrightarrow>
        sq_apply X c d = Applied d1 \<longrightarrow> sq_apply X t d = Applied d2 \<longrightarrow>
        sq_apply X t d1 = Applied d3 \<longrightarrow> sq_apply X c d2 = Applied d3)"

text \<open>
  A closure whose changes the session extension records: the changeset takes the content
  before to the content after, and no changeset means no change.
\<close>

definition recordable :: "'db ext \<Rightarrow> 'db txn \<Rightarrow> bool" where
  "recordable X fn \<longleftrightarrow>
     (\<forall>d d' n. fn d = (None, d', n) \<longrightarrow>
        (if sq_changeset X d d' = [] then d' = d
         else sq_apply X (sq_changeset X d d') d = Applied d'))"

section \<open>Lemmas\<close>

lemma local_call_frame:
  "local_call w = (r, w') \<Longrightarrow>
     w_store w' = w_store w \<and> w_disk w' = w_disk w \<and> w_uuid w' = w_uuid w"
  by (auto simp: local_call_def split: list.splits)

lemma local_call_err: "local_call w = (Some e, w') \<Longrightarrow> \<exists>msg. e = OtherErr msg"
  by (auto simp: local_call_def split: list.splits)

lemma local_call_none [simp]: "w_io w = [] \<Longrightarrow> local_call w = (None, w)"
  by (simp add: local_call_def)

text \<open>The next \<open>n\<close> local calls succeed.\<close>

definition calm :: "nat \<Rightarrow> 's world \<Rightarrow> bool" where
  "calm n w \<longleftrightarrow> list_all (\<lambda>x. x = None) (take n (w_io w))"

lemma calm_call:
  assumes "calm (Suc n) w"
  shows "local_call w = (None, w\<lparr>w_io := tl (w_io w)\<rparr>)" and "calm n (w\<lparr>w_io := tl (w_io w)\<rparr>)"
  using assms by (cases w; cases "w_io w"; simp add: calm_def local_call_def)+

lemma calm_empty [simp]: "w_io w = [] \<Longrightarrow> calm n w"
  by (simp add: calm_def)

lemma sqlite_OpenConn_frame:
  "sqlite_OpenConn X p w = (r, w') \<Longrightarrow>
     w_store w' = w_store w \<and> w_disk w' = w_disk w \<and> w_uuid w' = w_uuid w"
  by (auto simp: sqlite_OpenConn_def dest: local_call_frame split: prod.splits option.splits)

lemma conn_Close_frame:
  "conn_Close X p c w = (r, w') \<Longrightarrow> w_store w' = w_store w \<and> w_uuid w' = w_uuid w"
  by (auto simp: conn_Close_def dest: local_call_frame split: conn.splits)

end
