(* ===== verification/Apply.thy ===== *)
theory Apply
  imports Runtime
begin

text \<open>
  \<^verbatim>\<open>apply.go\<close>: applying a changeset under the only policy there is, \<^verbatim>\<open>conflictAbort\<close>.  A
  conflict leaves the connection as it was and is reported with its type; an empty changeset
  does nothing.
\<close>

datatype conflictPolicy = conflictAbort

definition applyChangeset ::
  "'db ext \<Rightarrow> 'db conn \<Rightarrow> bytes \<Rightarrow> conflictPolicy \<Rightarrow> err option \<times> 'db conn" where
  "applyChangeset X conn cs policy =
     (if cs = [] then (None, conn)
      else case conn of
          OpenConn d \<Rightarrow>
            (case sq_apply X cs d of
               Applied d' \<Rightarrow> (None, OpenConn d')
             | Conflict kind \<Rightarrow> (Some (errChangesetConflict kind), conn)
             | ApplyErr e \<Rightarrow> (Some e, conn))
        | _ \<Rightarrow> (Some (OtherErr ''sqlite: connection is closed''), conn))"

text \<open>A changeset as a partial function on contents.\<close>

definition apply_bytes :: "'db ext \<Rightarrow> bytes \<Rightarrow> 'db \<Rightarrow> 'db option" where
  "apply_bytes X cs d =
     (if cs = [] then Some d
      else case sq_apply X cs d of Applied d' \<Rightarrow> Some d' | _ \<Rightarrow> None)"

lemma applyChangeset_ok:
  "applyChangeset X (OpenConn d) cs p = (None, c) \<longleftrightarrow>
     (\<exists>d'. apply_bytes X cs d = Some d' \<and> c = OpenConn d')"
  by (auto simp: applyChangeset_def apply_bytes_def split: applied.splits)

lemma applyChangeset_fail:
  "applyChangeset X c cs p = (Some e, c') \<Longrightarrow> c' = c"
  by (auto simp: applyChangeset_def split: applied.splits conn.splits if_splits)

lemma applyChangeset_open:
  "applyChangeset X c cs p = (None, c') \<Longrightarrow> cs \<noteq> [] \<Longrightarrow> \<exists>d. c = OpenConn d"
  by (auto simp: applyChangeset_def split: applied.splits conn.splits)

lemma rebase_bytes:
  assumes "rebase_law X" and "recorded X c" and "recorded X t"
    and "apply_bytes X c d = Some d1" and "apply_bytes X t d = Some d2"
    and "apply_bytes X t d1 = Some d3"
  shows "apply_bytes X c d2 = Some d3"
proof -
  have "sq_apply X c d = Applied d1 \<Longrightarrow> sq_apply X t d = Applied d2 \<Longrightarrow>
      sq_apply X t d1 = Applied d3 \<Longrightarrow> sq_apply X c d2 = Applied d3"
    using assms(1-3) unfolding rebase_law_def by blast
  with assms(4-) show ?thesis
    by (auto simp: apply_bytes_def split: if_splits applied.splits)
qed

end
