(* ===== verification/Json.thy ===== *)
theory Json
  imports Strconv
begin

text \<open>
  The part of \<^verbatim>\<open>encoding/json\<close> that \<^verbatim>\<open>manifest.go\<close> relies on: the syntax of JSON
  values, the encoder's string quoting (HTML-escaped, invalid UTF-8 replaced), and the
  decoder's scanner.  The parser spends one unit of fuel per call; \<open>json_fuel\<close> is enough
  for a text of a given length because a call either consumes a character or is the only
  call at its position.  Parsing inverts printing for values whose strings are ASCII and
  whose numbers are integers, which is what a manifest contains.
\<close>

section \<open>Values\<close>

datatype json =
    JNull
  | JBool bool
  | JNum string
  | JStr string
  | JArr "json list"
  | JObj "(string \<times> json) list"

abbreviation quote_char :: char where "quote_char \<equiv> CHR 0x22"
abbreviation backslash :: char where "backslash \<equiv> CHR 0x5C"

section \<open>UTF-8\<close>

definition in_range :: "nat \<Rightarrow> nat \<Rightarrow> char \<Rightarrow> bool" where
  "in_range lo hi c \<longleftrightarrow> lo \<le> of_char c \<and> of_char c \<le> hi"

definition is_ascii :: "char \<Rightarrow> bool" where
  "is_ascii c \<longleftrightarrow> of_char c < (128 :: nat)"

text \<open>The width of the valid multi-byte sequence at the head of a string, 0 if there is none.\<close>

definition utf8_width :: "string \<Rightarrow> nat" where
  "utf8_width s =
     (let at = (\<lambda>i lo hi. i < length s \<and> in_range lo hi (s ! i));
          cont = (\<lambda>i. at i 0x80 0xBF)
      in if at 0 0xC2 0xDF \<and> cont 1 then 2
         else if at 0 0xE0 0xE0 \<and> at 1 0xA0 0xBF \<and> cont 2 then 3
         else if (at 0 0xE1 0xEC \<or> at 0 0xEE 0xEF) \<and> cont 1 \<and> cont 2 then 3
         else if at 0 0xED 0xED \<and> at 1 0x80 0x9F \<and> cont 2 then 3
         else if at 0 0xF0 0xF0 \<and> at 1 0x90 0xBF \<and> cont 2 \<and> cont 3 then 4
         else if at 0 0xF1 0xF3 \<and> cont 1 \<and> cont 2 \<and> cont 3 then 4
         else if at 0 0xF4 0xF4 \<and> at 1 0x80 0x8F \<and> cont 2 \<and> cont 3 then 4
         else 0)"

definition utf8_encode :: "nat \<Rightarrow> string" where
  "utf8_encode n =
     (if n < 0x80 then [char_of n]
      else if n < 0x800 then [char_of (0xC0 + n div 64), char_of (0x80 + n mod 64)]
      else if n < 0x10000 then
        [char_of (0xE0 + n div 4096), char_of (0x80 + n div 64 mod 64), char_of (0x80 + n mod 64)]
      else
        [char_of (0xF0 + n div 262144), char_of (0x80 + n div 4096 mod 64),
         char_of (0x80 + n div 64 mod 64), char_of (0x80 + n mod 64)])"

abbreviation replacement :: string where "replacement \<equiv> utf8_encode 0xFFFD"

section \<open>Printing\<close>

definition hex_lower :: "nat \<Rightarrow> char" where
  "hex_lower n = (if n < 10 then char_of (48 + n) else char_of (87 + n))"

text \<open>The escape of one ASCII character (\<^verbatim>\<open>appendString\<close> with \<^verbatim>\<open>escapeHTML\<close>).\<close>

definition escape_ascii :: "char \<Rightarrow> string" where
  "escape_ascii c =
     (if c = quote_char \<or> c = backslash then [backslash, c]
      else if c = CHR 0x08 then [backslash, CHR ''b'']
      else if c = CHR 0x0C then [backslash, CHR ''f'']
      else if c = CHR 0x0A then [backslash, CHR ''n'']
      else if c = CHR 0x0D then [backslash, CHR ''r'']
      else if c = CHR 0x09 then [backslash, CHR ''t'']
      else if of_char c < (32 :: nat) \<or> c = CHR ''<'' \<or> c = CHR ''>'' \<or> c = CHR ''&''
        then [backslash, CHR ''u'', CHR ''0'', CHR ''0'',
              hex_lower (of_char c div 16), hex_lower (of_char c mod 16)]
      else [c])"

fun escape :: "string \<Rightarrow> string" where
  "escape [] = []"
| "escape (c # s) =
     (if is_ascii c then escape_ascii c @ escape s
      else let w = utf8_width (c # s)
           in if w = 0 then backslash # ''ufffd'' @ escape s
              else if take 3 (c # s) = utf8_encode 0x2028 then backslash # ''u2028'' @ escape (drop 2 s)
              else if take 3 (c # s) = utf8_encode 0x2029 then backslash # ''u2029'' @ escape (drop 2 s)
              else take w (c # s) @ escape (drop (w - 1) s))"

definition print_string :: "string \<Rightarrow> string" where
  "print_string s = quote_char # escape s @ [quote_char]"

fun print_json :: "json \<Rightarrow> string"
and print_elems :: "json list \<Rightarrow> string"
and print_members :: "(string \<times> json) list \<Rightarrow> string" where
  "print_json JNull = ''null''"
| "print_json (JBool b) = (if b then ''true'' else ''false'')"
| "print_json (JNum lit) = lit"
| "print_json (JStr s) = print_string s"
| "print_json (JArr js) = CHR ''['' # print_elems js @ '']''"
| "print_json (JObj ms) = CHR ''{'' # print_members ms @ ''}''"
| "print_elems [] = []"
| "print_elems (j # js) = print_json j @ (if js = [] then [] else CHR '','' # print_elems js)"
| "print_members [] = []"
| "print_members ((k, j) # ms) =
     print_string k @ CHR '':'' # print_json j @ (if ms = [] then [] else CHR '','' # print_members ms)"

section \<open>Parsing\<close>

definition is_space :: "char \<Rightarrow> bool" where
  "is_space c \<longleftrightarrow> c = CHR '' '' \<or> c = CHR 0x09 \<or> c = CHR 0x0A \<or> c = CHR 0x0D"

definition skip_space :: "string \<Rightarrow> string" where
  "skip_space s = dropWhile is_space s"

definition hex_val :: "char \<Rightarrow> nat option" where
  "hex_val c =
     (if in_range 48 57 c then Some (of_char c - 48)
      else if in_range 97 102 c then Some (of_char c - 87)
      else if in_range 65 70 c then Some (of_char c - 55)
      else None)"

fun hex4 :: "string \<Rightarrow> (nat \<times> string) option" where
  "hex4 (a # b # c # d # s) =
     (case (hex_val a, hex_val b, hex_val c, hex_val d) of
        (Some w, Some x, Some y, Some z) \<Rightarrow> Some (4096 * w + 256 * x + 16 * y + z, s)
      | _ \<Rightarrow> None)"
| "hex4 s = None"

definition unescape_char :: "char \<Rightarrow> char option" where
  "unescape_char c =
     (if c = quote_char \<or> c = backslash \<or> c = CHR ''/'' then Some c
      else if c = CHR ''b'' then Some CHR 0x08
      else if c = CHR ''f'' then Some CHR 0x0C
      else if c = CHR ''n'' then Some CHR 0x0A
      else if c = CHR ''r'' then Some CHR 0x0D
      else if c = CHR ''t'' then Some CHR 0x09
      else None)"

text \<open>A UTF-16 escape: a code point, a surrogate pair, or U+FFFD for a lone surrogate.\<close>

definition unescape_u :: "string \<Rightarrow> (string \<times> string) option" where
  "unescape_u s =
     (case hex4 s of None \<Rightarrow> None
      | Some (n, t) \<Rightarrow>
          if n < 0xD800 \<or> 0xDFFF < n then Some (utf8_encode n, t)
          else if take 2 t = [backslash, CHR ''u''] then
            (case hex4 (drop 2 t) of None \<Rightarrow> None
             | Some (n2, t2) \<Rightarrow>
                 if n < 0xDC00 \<and> 0xDC00 \<le> n2 \<and> n2 \<le> 0xDFFF
                 then Some (utf8_encode ((n - 0xD800) * 1024 + (n2 - 0xDC00) + 0x10000), t2)
                 else Some (replacement, t))
          else Some (replacement, t))"

text \<open>The rest of a string literal, after its opening quote.\<close>

fun parse_string :: "nat \<Rightarrow> string \<Rightarrow> (string \<times> string) option" where
  "parse_string 0 s = None"
| "parse_string (Suc n) [] = None"
| "parse_string (Suc n) (c # s) =
     (if c = quote_char then Some ([], s)
      else case
        (if c = backslash then
           (case s of [] \<Rightarrow> None
            | e # t \<Rightarrow> if e = CHR ''u'' then unescape_u t
                else map_option (\<lambda>d. ([d], t)) (unescape_char e))
         else if of_char c < (32 :: nat) then None
         else if is_ascii c then Some ([c], s)
         else let w = utf8_width (c # s)
              in if w = 0 then Some (replacement, s) else Some (take w (c # s), drop (w - 1) s))
      of None \<Rightarrow> None
       | Some (x, t) \<Rightarrow> map_option (\<lambda>(y, u). (x @ y, u)) (parse_string n t))"

definition span_digits :: "string \<Rightarrow> string \<times> string" where
  "span_digits s = (takeWhile is_digit s, dropWhile is_digit s)"

text \<open>A number literal: sign, integer part, fraction, exponent.\<close>

definition parse_number :: "string \<Rightarrow> (string \<times> string) option" where
  "parse_number s =
     (let (sg, s1) = (if s \<noteq> [] \<and> hd s = CHR ''-'' then (''-'', tl s) else ([], s));
          (ip, s2) = (if s1 \<noteq> [] \<and> hd s1 = CHR ''0'' then (''0'', tl s1) else span_digits s1);
          (fp, s3) = (if s2 \<noteq> [] \<and> hd s2 = CHR ''.'' then span_digits (tl s2) else ([], s2));
          hasfrac = (s2 \<noteq> [] \<and> hd s2 = CHR ''.'');
          hasexp = (s3 \<noteq> [] \<and> (hd s3 = CHR ''e'' \<or> hd s3 = CHR ''E''));
          s4 = (if hasexp then tl s3 else s3);
          (es, s5) = (if hasexp \<and> s4 \<noteq> [] \<and> (hd s4 = CHR ''+'' \<or> hd s4 = CHR ''-'')
                      then ([hd s4], tl s4) else ([], s4));
          (ep, s6) = (if hasexp then span_digits s5 else ([], s5))
      in if ip = [] \<or> (hasfrac \<and> fp = []) \<or> (hasexp \<and> ep = []) then None
         else Some (sg @ ip @ (if hasfrac then CHR ''.'' # fp else [])
                      @ (if hasexp then hd s3 # es @ ep else []), s6))"

fun parse_json :: "nat \<Rightarrow> string \<Rightarrow> (json \<times> string) option"
and parse_elems :: "nat \<Rightarrow> string \<Rightarrow> (json list \<times> string) option"
and parse_members :: "nat \<Rightarrow> string \<Rightarrow> ((string \<times> json) list \<times> string) option" where
  "parse_json 0 s = None"
| "parse_json (Suc n) s0 =
     (case skip_space s0 of [] \<Rightarrow> None
      | c # s \<Rightarrow>
          if c = quote_char then map_option (\<lambda>(x, t). (JStr x, t)) (parse_string (Suc (length s)) s)
          else if c = CHR ''['' then
            (case skip_space s of [] \<Rightarrow> None
             | d # t \<Rightarrow> if d = CHR '']'' then Some (JArr [], t)
                 else map_option (\<lambda>(js, t). (JArr js, t)) (parse_elems n s))
          else if c = CHR ''{'' then
            (case skip_space s of [] \<Rightarrow> None
             | d # t \<Rightarrow> if d = CHR ''}'' then Some (JObj [], t)
                 else map_option (\<lambda>(ms, t). (JObj ms, t)) (parse_members n s))
          else if take 4 (c # s) = ''null'' then Some (JNull, drop 3 s)
          else if take 4 (c # s) = ''true'' then Some (JBool True, drop 3 s)
          else if take 5 (c # s) = ''false'' then Some (JBool False, drop 4 s)
          else map_option (\<lambda>(l, t). (JNum l, t)) (parse_number (c # s)))"
| "parse_elems 0 s = None"
| "parse_elems (Suc n) s =
     (case parse_json n s of None \<Rightarrow> None
      | Some (j, t) \<Rightarrow>
          (case skip_space t of [] \<Rightarrow> None
           | d # u \<Rightarrow>
               if d = CHR '','' then map_option (\<lambda>(js, v). (j # js, v)) (parse_elems n u)
               else if d = CHR '']'' then Some ([j], u)
               else None))"
| "parse_members 0 s = None"
| "parse_members (Suc n) s0 =
     (case skip_space s0 of [] \<Rightarrow> None
      | q # s \<Rightarrow>
          if q \<noteq> quote_char then None
          else
            (case parse_string (Suc (length s)) s of None \<Rightarrow> None
             | Some (k, t) \<Rightarrow>
                 (case skip_space t of [] \<Rightarrow> None
                  | d # u \<Rightarrow>
                      if d \<noteq> CHR '':'' then None
                      else
                        (case parse_json n u of None \<Rightarrow> None
                         | Some (j, v) \<Rightarrow>
                             (case skip_space v of [] \<Rightarrow> None
                              | e # w \<Rightarrow>
                                  if e = CHR '','' then
                                    map_option (\<lambda>(ms, x). ((k, j) # ms, x)) (parse_members n w)
                                  else if e = CHR ''}'' then Some ([(k, j)], w)
                                  else None)))))"

definition json_fuel :: "string \<Rightarrow> nat" where
  "json_fuel s = 2 * length s + 2"

text \<open>The first value of a stream (\<^verbatim>\<open>json.Decoder\<close>): what follows it is not read.\<close>

definition decode_json :: "string \<Rightarrow> json result" where
  "decode_json s =
     (case parse_json (json_fuel s) s of
        None \<Rightarrow> Inl (OtherErr ''json: syntax error'')
      | Some (j, t) \<Rightarrow> Inr j)"

declare parse_string.simps [simp del] parse_json.simps [simp del]
  parse_elems.simps [simp del] parse_members.simps [simp del]

section \<open>Parsing inverts printing\<close>

definition follows :: "string \<Rightarrow> bool" where
  "follows r \<longleftrightarrow> r = [] \<or> hd r \<in> {CHR '','', CHR '']'', CHR ''}''}"

fun wf_json :: "json \<Rightarrow> bool"
and wf_elems :: "json list \<Rightarrow> bool"
and wf_members :: "(string \<times> json) list \<Rightarrow> bool" where
  "wf_json JNull = True"
| "wf_json (JBool b) = True"
| "wf_json (JNum lit) = (\<exists>n. lit = FormatInt n)"
| "wf_json (JStr s) = list_all is_ascii s"
| "wf_json (JArr js) = wf_elems js"
| "wf_json (JObj ms) = wf_members ms"
| "wf_elems [] = True"
| "wf_elems (j # js) = (wf_json j \<and> wf_elems js)"
| "wf_members [] = True"
| "wf_members ((k, j) # ms) = (list_all is_ascii k \<and> wf_json j \<and> wf_members ms)"

text \<open>The fuel a value needs.\<close>

fun need_json :: "json \<Rightarrow> nat"
and need_elems :: "json list \<Rightarrow> nat"
and need_members :: "(string \<times> json) list \<Rightarrow> nat" where
  "need_json (JArr js) = Suc (need_elems js)"
| "need_json (JObj ms) = Suc (need_members ms)"
| "need_json j = 1"
| "need_elems [] = 0"
| "need_elems (j # js) = Suc (need_json j + need_elems js)"
| "need_members [] = 0"
| "need_members ((k, j) # ms) = Suc (need_json j + need_members ms)"

subsection \<open>Strings\<close>

lemma hex_val_hex_lower [simp]: "n < 16 \<Longrightarrow> hex_val (hex_lower n) = Some n"
  by (auto simp: hex_val_def hex_lower_def in_range_def)

lemma parse_string_escape_ascii:
  assumes "is_ascii c"
  shows "parse_string (Suc n) (escape_ascii c @ t) =
           map_option (\<lambda>(y, u). (c # y, u)) (parse_string n t)"
proof -
  define k where "k = (of_char c :: nat)"
  have k: "k < 128" using assms by (simp add: is_ascii_def k_def)
  have c: "char_of k = c" by (simp add: k_def)
  have hx: "k div 16 < 16" "k mod 16 < 16" using k by auto
  have dec: "utf8_encode (16 * (k div 16) + k mod 16) = [c]"
    using k c by (simp add: utf8_encode_def)
  have u: "unescape_u (CHR ''0'' # CHR ''0'' # hex_lower (k div 16) # hex_lower (k mod 16) # t)
      = Some ([c], t)"
    using dec k hx hex_val_hex_lower [of 0]
    by (simp add: unescape_u_def hex_val_def [of "CHR ''0''"] in_range_def)
  show ?thesis
    using assms u
    by (auto simp: escape_ascii_def parse_string.simps unescape_char_def k_def [symmetric]
        split: option.splits)
qed

lemma parse_string_escape:
  "list_all is_ascii s \<Longrightarrow> length s < n \<Longrightarrow>
     parse_string n (escape s @ quote_char # r) = Some (s, r)"
proof (induction s arbitrary: n)
  case Nil
  then show ?case by (cases n) (simp_all add: parse_string.simps)
next
  case (Cons c s)
  then obtain m where n: "n = Suc m" by (cases n) auto
  with Cons have "parse_string m (escape s @ quote_char # r) = Some (s, r)" by simp
  with Cons.prems n show ?case by (simp add: parse_string_escape_ascii)
qed

lemma length_escape: "list_all is_ascii s \<Longrightarrow> length s \<le> length (escape s)"
proof (induction s)
  case (Cons c s)
  have "1 \<le> length (escape_ascii c)" by (simp add: escape_ascii_def)
  with Cons show ?case by simp
qed simp

lemma parse_print_string:
  "list_all is_ascii s \<Longrightarrow>
     parse_string (Suc (length (escape s @ quote_char # r))) (escape s @ quote_char # r) = Some (s, r)"
  using length_escape [of s] by (intro parse_string_escape) simp_all

subsection \<open>Numbers\<close>

lemma show_nat_zero: "hd (show_nat n) = CHR ''0'' \<Longrightarrow> n = 0"
proof (induction n rule: show_nat.induct)
  case (1 n)
  show ?case
  proof (cases "n < 10")
    case True
    with "1.prems" have "digit n = CHR ''0''" by (simp add: show_nat.simps [of n])
    then have "of_char (digit n) = (48 :: nat)" by simp
    with True show ?thesis by (simp add: of_char_digit)
  next
    case False
    with "1.prems" have "hd (show_nat (n div 10)) = CHR ''0''"
      by (simp add: show_nat.simps [of n])
    with "1.IH" False have "n div 10 = 0" by simp
    with False show ?thesis by simp
  qed
qed

lemma show_nat_0 [simp]: "show_nat 0 = ''0''"
  by code_simp

lemma span_show_nat: "follows r \<Longrightarrow> span_digits (show_nat n @ r) = (show_nat n, r)"
  using show_nat_digits [of n]
  by (cases r) (auto simp: span_digits_def follows_def list_all_iff takeWhile_append2
      dropWhile_append2)

lemma follows_not:
  "follows r \<Longrightarrow> r \<noteq> [] \<Longrightarrow> hd r \<noteq> CHR ''.'' \<and> hd r \<noteq> CHR ''e'' \<and> hd r \<noteq> CHR ''E''"
  by (auto simp: follows_def)

lemma parse_number_FormatInt:
  assumes "follows r"
  shows "parse_number (FormatInt n @ r) = Some (FormatInt n, r)"
proof -
  have nat_part: "(if show_nat m @ r \<noteq> [] \<and> hd (show_nat m @ r) = CHR ''0''
      then (''0'', tl (show_nat m @ r)) else span_digits (show_nat m @ r)) = (show_nat m, r)" for m
    using show_nat_zero [of m] span_show_nat [OF assms, of m] by auto
  have dash: "hd (show_nat m) \<noteq> CHR ''-''" for m
    using show_nat_hd [of m] by auto
  have nf: "\<not> (r \<noteq> [] \<and> hd r = CHR ''.'')"
    and ne: "\<not> (r \<noteq> [] \<and> (hd r = CHR ''e'' \<or> hd r = CHR ''E''))"
    using follows_not [OF assms] by auto
  show ?thesis
  proof (cases "n < 0")
    case True
    then show ?thesis using nf ne
      by (auto simp: parse_number_def FormatInt_def Let_def nat_part [of "nat (- n)", simplified])
  next
    case False
    then show ?thesis using nf ne
      by (auto simp: parse_number_def FormatInt_def Let_def dash nat_part [of "nat n", simplified])
  qed
qed

lemma FormatInt_Cons:
  "\<exists>c s. FormatInt n = c # s \<and> (c = CHR ''-'' \<or> is_digit c)"
proof (cases "n < 0")
  case False
  then show ?thesis
    using show_nat_hd [of "nat n"] by (cases "show_nat (nat n)") (auto simp: FormatInt_def)
qed (simp add: FormatInt_def)

subsection \<open>Values\<close>

lemma digit_cases:
  "c = CHR ''-'' \<or> is_digit c \<Longrightarrow>
     c \<notin> {quote_char, CHR ''['', CHR ''{'', CHR '']'', CHR ''n'', CHR ''t'', CHR ''f''} \<and> \<not> is_space c"
  by (auto simp: is_digit_def is_space_def)

lemma parse_json_num:
  assumes "follows r"
  shows "parse_json (Suc n) (FormatInt i @ r) = Some (JNum (FormatInt i), r)"
proof -
  obtain c s where cs: "FormatInt i = c # s" "c = CHR ''-'' \<or> is_digit c"
    using FormatInt_Cons by blast
  from digit_cases [OF cs(2)] parse_number_FormatInt [OF assms, of i] cs(1) show ?thesis
    by (simp add: parse_json.simps skip_space_def)
qed

lemma print_json_Cons:
  assumes "wf_json j"
  shows "\<exists>c s. print_json j = c # s \<and> \<not> is_space c \<and> c \<noteq> CHR '']''"
proof (cases j)
  case (JNum lit)
  with assms obtain n where "lit = FormatInt n" by auto
  with JNum FormatInt_Cons [of n] digit_cases show ?thesis by fastforce
qed (auto simp: print_string_def is_space_def)

lemma skip_space_print: "wf_json j \<Longrightarrow> skip_space (print_json j @ r) = print_json j @ r"
  using print_json_Cons [of j] by (auto simp: skip_space_def)

lemma skip_space_Cons [simp]: "\<not> is_space c \<Longrightarrow> skip_space (c # s) = c # s"
  by (simp add: skip_space_def)

lemma is_space_not [simp]:
  "\<not> is_space CHR '',''" "\<not> is_space CHR '']''" "\<not> is_space CHR ''}''" "\<not> is_space CHR '':''"
  "\<not> is_space quote_char" "\<not> is_space CHR ''[''" "\<not> is_space CHR ''{''"
  "\<not> is_space CHR ''n''" "\<not> is_space CHR ''t''" "\<not> is_space CHR ''f''"
  by (simp_all add: is_space_def)

lemma follows_Cons [simp]:
  "follows (CHR '','' # r)" "follows (CHR '']'' # r)" "follows (CHR ''}'' # r)"
  by (simp_all add: follows_def)

lemma parse_json_str:
  "list_all is_ascii s \<Longrightarrow> parse_json (Suc n) (print_string s @ r) = Some (JStr s, r)"
  using parse_print_string [of s r] by (simp add: parse_json.simps print_string_def)

lemma parse_json_lits:
  "parse_json (Suc n) (''null'' @ r) = Some (JNull, r)"
  "parse_json (Suc n) (''true'' @ r) = Some (JBool True, r)"
  "parse_json (Suc n) (''false'' @ r) = Some (JBool False, r)"
  by (simp_all add: parse_json.simps)

lemma parse_json_arr:
  assumes "js = [] \<or> parse_elems n (print_elems js @ CHR '']'' # r) = Some (js, r)"
    and "wf_elems js"
  shows "parse_json (Suc n) (CHR ''['' # print_elems js @ '']'' @ r) = Some (JArr js, r)"
proof (cases js)
  case (Cons j ks)
  with assms(2) print_json_Cons [of j]
  obtain c s where p: "print_json j = c # s" "\<not> is_space c" "c \<noteq> CHR '']''" by auto
  with Cons assms(1) show ?thesis by (simp add: parse_json.simps)
qed (simp add: parse_json.simps)

lemma parse_json_obj:
  assumes "ms = [] \<or> parse_members n (print_members ms @ CHR ''}'' # r) = Some (ms, r)"
  shows "parse_json (Suc n) (CHR ''{'' # print_members ms @ ''}'' @ r) = Some (JObj ms, r)"
proof (cases ms)
  case (Cons m ks)
  with assms show ?thesis
    by (cases m) (simp add: parse_json.simps print_string_def)
qed (simp add: parse_json.simps)

lemma parse_print:
  "wf_json j \<Longrightarrow> follows r \<Longrightarrow> need_json j \<le> n \<Longrightarrow> parse_json n (print_json j @ r) = Some (j, r)"
  "wf_elems js \<Longrightarrow> js \<noteq> [] \<Longrightarrow> need_elems js \<le> n \<Longrightarrow>
     parse_elems n (print_elems js @ CHR '']'' # r) = Some (js, r)"
  "wf_members ms \<Longrightarrow> ms \<noteq> [] \<Longrightarrow> need_members ms \<le> n \<Longrightarrow>
     parse_members n (print_members ms @ CHR ''}'' # r) = Some (ms, r)"
proof (induction j and js and ms arbitrary: n r and n r and n r
    rule: print_json_print_elems_print_members.induct)
  case 1
  then show ?case by (cases n) (use parse_json_lits in simp_all)
next
  case (2 b)
  then show ?case by (cases n; cases b) (use parse_json_lits in simp_all)
next
  case (3 lit)
  then show ?case by (cases n) (auto simp: parse_json_num)
next
  case (4 s)
  then show ?case by (cases n) (simp_all add: parse_json_str)
next
  case (5 js)
  then obtain m where n: "n = Suc m" and m: "need_elems js \<le> m" by (cases n) auto
  with 5 have "js = [] \<or> parse_elems m (print_elems js @ CHR '']'' # r) = Some (js, r)"
    by auto
  from parse_json_arr [OF this] 5 n show ?case by simp
next
  case (6 ms)
  then obtain m where n: "n = Suc m" and m: "need_members ms \<le> m" by (cases n) auto
  with 6 have "ms = [] \<or> parse_members m (print_members ms @ CHR ''}'' # r) = Some (ms, r)"
    by auto
  from parse_json_obj [OF this] n show ?case by simp
next
  case 7
  then show ?case by simp
next
  case (8 j js)
  then obtain m where n: "n = Suc m" by (cases n) auto
  show ?case
  proof (cases "js = []")
    case True
    with 8 n have "parse_json m (print_json j @ CHR '']'' # r) = Some (j, CHR '']'' # r)" by simp
    with n True show ?thesis by (simp add: parse_elems.simps)
  next
    case False
    with 8 n have "parse_json m (print_json j @ CHR '','' # print_elems js @ CHR '']'' # r)
        = Some (j, CHR '','' # print_elems js @ CHR '']'' # r)"
      and "parse_elems m (print_elems js @ CHR '']'' # r) = Some (js, r)" by simp_all
    with n False show ?thesis by (simp add: parse_elems.simps)
  qed
next
  case 9
  then show ?case by simp
next
  case (10 k j ms)
  then obtain m where n: "n = Suc m" by (cases n) auto
  define rest where "rest = (if ms = [] then CHR ''}'' # r else CHR '','' # print_members ms @ CHR ''}'' # r)"
  have j: "parse_json m (print_json j @ rest) = Some (j, rest)"
    using 10 n by (simp add: rest_def)
  have k: "parse_string (Suc (length (escape k @ quote_char # CHR '':'' # print_json j @ rest)))
      (escape k @ quote_char # CHR '':'' # print_json j @ rest) = Some (k, CHR '':'' # print_json j @ rest)"
    using 10 by (intro parse_print_string) simp
  have eq: "print_members ((k, j) # ms) @ CHR ''}'' # r =
      quote_char # escape k @ quote_char # CHR '':'' # print_json j @ rest"
    by (simp add: print_string_def rest_def)
  have tail: "ms \<noteq> [] \<Longrightarrow> parse_members m (print_members ms @ CHR ''}'' # r) = Some (ms, r)"
    using 10 n by simp
  show ?case
    unfolding eq n using k j tail
    by (cases "ms = []") (simp_all add: parse_members.simps rest_def)
qed

lemma need_bound:
  "wf_json j \<Longrightarrow> Suc (need_json j) \<le> 2 * length (print_json j)"
  "wf_elems js \<Longrightarrow> need_elems js \<le> 2 * length (print_elems js)"
  "wf_members ms \<Longrightarrow> need_members ms \<le> 2 * length (print_members ms)"
proof (induction j and js and ms rule: print_json_print_elems_print_members.induct)
  case (3 lit)
  then obtain n where "lit = FormatInt n" by auto
  with FormatInt_Cons [of n] show ?case by auto
qed (auto simp: print_string_def)

theorem decode_print_json:
  assumes "wf_json j"
  shows "decode_json (print_json j) = Inr j"
proof -
  have "need_json j \<le> json_fuel (print_json j)"
    using need_bound(1) [OF assms] by (simp add: json_fuel_def)
  from parse_print(1) [OF assms _ this, of "[]"] show ?thesis
    by (simp add: decode_json_def follows_def)
qed

section \<open>Evaluation\<close>

text \<open>Classes of characters by their bits.\<close>

fun is_control :: "char \<Rightarrow> bool" where
  "is_control (Char b0 b1 b2 b3 b4 b5 b6 b7) \<longleftrightarrow> \<not> b5 \<and> \<not> b6 \<and> \<not> b7"

fun is_upper :: "char \<Rightarrow> bool" where
  "is_upper (Char b0 b1 b2 b3 b4 b5 b6 b7) \<longleftrightarrow>
     b6 \<and> \<not> b5 \<and> \<not> b7 \<and>
     (if b4 then \<not> (b3 \<and> b2) \<and> \<not> (b3 \<and> b1 \<and> b0) else b0 \<or> b1 \<or> b2 \<or> b3)"

lemma is_control_code [code_unfold]: "of_char c < (32 :: nat) \<longleftrightarrow> is_control c"
  by (cases c) (auto simp: of_char_nibbles nibble_val_def)

lemma is_upper_code [code_unfold]: "in_range 65 90 c \<longleftrightarrow> is_upper c"
  by (cases c) (auto simp: in_range_def of_char_nibbles nibble_val_def)

lemma is_ascii_code [code]: "is_ascii (Char b0 b1 b2 b3 b4 b5 b6 b7) \<longleftrightarrow> \<not> b7"
  by (auto simp: is_ascii_def of_char_nibbles nibble_val_def)

end
