(* ===== verification/Manifest.thy ===== *)
theory Manifest
  imports Json Blob
begin

text \<open>
  \<^verbatim>\<open>manifest.go\<close>: the manifest, its invariants (\<^verbatim>\<open>validate\<close>), the two ways to derive a
  new one (\<^verbatim>\<open>appendLog\<close>, \<^verbatim>\<open>withSnapshot\<close>), its JSON form, and loading and storing it.
  A \<^verbatim>\<open>nil\<close> and an empty log are both the empty list; the program only ever stores a
  manifest whose empty log is \<^verbatim>\<open>nil\<close>, so that is what is encoded (as \<^verbatim>\<open>null\<close>).
\<close>

section \<open>Data\<close>

record blobRef =
  bKey :: string
  bSeq :: int
  bSize :: int

record logEntry =
  eKey :: string
  eSeq :: int
  eSize :: int

record manifest =
  FormatVersion :: int
  Seq :: int
  SchemaVersion :: int
  Snapshot :: blobRef
  Log :: "logEntry list"

definition manifestFormatVersion :: int where
  "manifestFormatVersion = 1"

section \<open>Operations\<close>

definition epoch :: "manifest \<Rightarrow> string" where
  "epoch m =
     (let base = path_Base (bKey (Snapshot m)); i = LastIndexByte base CHR ''.''
      in if 0 < i then take (nat i) base else base)"

fun validate_log :: "int \<Rightarrow> logEntry list \<Rightarrow> err option" where
  "validate_log want [] = None"
| "validate_log want (e # es) =
     (if eKey e = '''' then Some (OtherErr ''manifest: log has empty key'')
      else if eSeq e \<noteq> want then Some (OtherErr ''manifest: gap or out of order'')
      else validate_log (add64 want 1) es)"

definition validate :: "manifest \<Rightarrow> err option" where
  "validate m =
     (if bKey (Snapshot m) = '''' then Some (OtherErr ''manifest: snapshot key is empty'')
      else if bSeq (Snapshot m) < 0 then Some (OtherErr ''manifest: snapshot seq is negative'')
      else if manifestFormatVersion < FormatVersion m
        then Some (OtherErr ''manifest: format_version is newer than this client supports'')
      else if SchemaVersion m < 0 then Some (OtherErr ''manifest: schema_version is negative'')
      else case validate_log (add64 (bSeq (Snapshot m)) 1) (Log m) of
          Some e \<Rightarrow> Some e
        | None \<Rightarrow>
            (let expectSeq = (if Log m = [] then bSeq (Snapshot m) else eSeq (last (Log m)))
             in if Seq m \<noteq> expectSeq then Some (OtherErr ''manifest: seq does not match expected'')
                else None))"

definition appendLog :: "manifest \<Rightarrow> logEntry \<Rightarrow> manifest" where
  "appendLog m entry = m\<lparr>Log := Log m @ [entry], Seq := eSeq entry\<rparr>"

definition withSnapshot :: "manifest \<Rightarrow> blobRef \<Rightarrow> manifest" where
  "withSnapshot m snapshot =
     \<lparr>FormatVersion = manifestFormatVersion, Seq = bSeq snapshot,
      SchemaVersion = SchemaVersion m, Snapshot = snapshot, Log = []\<rparr>"

section \<open>Wire format\<close>

definition omit_zero :: "string \<Rightarrow> int \<Rightarrow> (string \<times> json) list" where
  "omit_zero k n = (if n = 0 then [] else [(k, JNum (FormatInt n))])"

definition blobRef_json :: "blobRef \<Rightarrow> json" where
  "blobRef_json r =
     JObj ([(''key'', JStr (bKey r)), (''seq'', JNum (FormatInt (bSeq r)))]
           @ omit_zero ''size'' (bSize r))"

definition logEntry_json :: "logEntry \<Rightarrow> json" where
  "logEntry_json e =
     JObj ([(''key'', JStr (eKey e)), (''seq'', JNum (FormatInt (eSeq e)))]
           @ omit_zero ''size'' (eSize e))"

definition manifest_json :: "manifest \<Rightarrow> json" where
  "manifest_json m =
     JObj (omit_zero ''format_version'' (FormatVersion m) @
           [(''seq'', JNum (FormatInt (Seq m))),
            (''schema_version'', JNum (FormatInt (SchemaVersion m))),
            (''snapshot'', blobRef_json (Snapshot m)),
            (''log'', if Log m = [] then JNull else JArr (map logEntry_json (Log m)))])"

definition encode_manifest :: "manifest \<Rightarrow> bytes" where
  "encode_manifest m = print_json (manifest_json m)"

text \<open>Field names match up to case folding; an unknown field is skipped.\<close>

fun fold_name :: "string \<Rightarrow> string" where
  "fold_name [] = []"
| "fold_name (c # s) =
     (if take 2 (c # s) = [CHR 0xC5, CHR 0xBF] then CHR ''s'' # fold_name (drop 1 s)
      else if take 3 (c # s) = [CHR 0xE2, CHR 0x84, CHR 0xAA] then CHR ''k'' # fold_name (drop 2 s)
      else (if in_range 65 90 c then char_of ((of_char c :: nat) + 32) else c) # fold_name s)"

definition dec_int :: "json \<Rightarrow> int \<Rightarrow> int option" where
  "dec_int j old =
     (case j of JNull \<Rightarrow> Some old
      | JNum lit \<Rightarrow> (case ParseInt lit of Inl e \<Rightarrow> None | Inr n \<Rightarrow> Some n)
      | _ \<Rightarrow> None)"

definition dec_str :: "json \<Rightarrow> string \<Rightarrow> string option" where
  "dec_str j old = (case j of JNull \<Rightarrow> Some old | JStr s \<Rightarrow> Some s | _ \<Rightarrow> None)"

definition set_blobRef :: "string \<Rightarrow> json \<Rightarrow> blobRef \<Rightarrow> blobRef option" where
  "set_blobRef k j r =
     (let f = fold_name k
      in if f = ''key'' then map_option (\<lambda>x. r\<lparr>bKey := x\<rparr>) (dec_str j (bKey r))
         else if f = ''seq'' then map_option (\<lambda>x. r\<lparr>bSeq := x\<rparr>) (dec_int j (bSeq r))
         else if f = ''size'' then map_option (\<lambda>x. r\<lparr>bSize := x\<rparr>) (dec_int j (bSize r))
         else Some r)"

definition set_logEntry :: "string \<Rightarrow> json \<Rightarrow> logEntry \<Rightarrow> logEntry option" where
  "set_logEntry k j r =
     (let f = fold_name k
      in if f = ''key'' then map_option (\<lambda>x. r\<lparr>eKey := x\<rparr>) (dec_str j (eKey r))
         else if f = ''seq'' then map_option (\<lambda>x. r\<lparr>eSeq := x\<rparr>) (dec_int j (eSeq r))
         else if f = ''size'' then map_option (\<lambda>x. r\<lparr>eSize := x\<rparr>) (dec_int j (eSize r))
         else Some r)"

text \<open>The members of an object are assigned in order; \<open>null\<close> leaves a struct unchanged.\<close>

fun dec_members :: "(string \<Rightarrow> json \<Rightarrow> 'a \<Rightarrow> 'a option) \<Rightarrow> (string \<times> json) list \<Rightarrow> 'a \<Rightarrow> 'a option" where
  "dec_members f [] r = Some r"
| "dec_members f ((k, j) # ms) r =
     (case f k j r of None \<Rightarrow> None | Some r' \<Rightarrow> dec_members f ms r')"

definition dec_struct :: "(string \<Rightarrow> json \<Rightarrow> 'a \<Rightarrow> 'a option) \<Rightarrow> json \<Rightarrow> 'a \<Rightarrow> 'a option" where
  "dec_struct f j r = (case j of JNull \<Rightarrow> Some r | JObj ms \<Rightarrow> dec_members f ms r | _ \<Rightarrow> None)"

fun dec_entries :: "json list \<Rightarrow> logEntry list option" where
  "dec_entries [] = Some []"
| "dec_entries (j # js) =
     (case dec_struct set_logEntry j \<lparr>eKey = '''', eSeq = 0, eSize = 0\<rparr> of
        None \<Rightarrow> None
      | Some e \<Rightarrow> map_option (\<lambda>es. e # es) (dec_entries js))"

definition set_manifest :: "string \<Rightarrow> json \<Rightarrow> manifest \<Rightarrow> manifest option" where
  "set_manifest k j m =
     (let f = fold_name k
      in if f = ''format_version''
           then map_option (\<lambda>x. m\<lparr>FormatVersion := x\<rparr>) (dec_int j (FormatVersion m))
         else if f = ''seq'' then map_option (\<lambda>x. m\<lparr>Seq := x\<rparr>) (dec_int j (Seq m))
         else if f = ''schema_version''
           then map_option (\<lambda>x. m\<lparr>SchemaVersion := x\<rparr>) (dec_int j (SchemaVersion m))
         else if f = ''snapshot''
           then map_option (\<lambda>x. m\<lparr>Snapshot := x\<rparr>) (dec_struct set_blobRef j (Snapshot m))
         else if f = ''log'' then
           (case j of JNull \<Rightarrow> Some (m\<lparr>Log := []\<rparr>)
            | JArr js \<Rightarrow> map_option (\<lambda>x. m\<lparr>Log := x\<rparr>) (dec_entries js)
            | _ \<Rightarrow> None)
         else Some m)"

definition zero_manifest :: manifest where
  "zero_manifest =
     \<lparr>FormatVersion = 0, Seq = 0, SchemaVersion = 0,
      Snapshot = \<lparr>bKey = '''', bSeq = 0, bSize = 0\<rparr>, Log = []\<rparr>"

definition decode_manifest :: "body \<Rightarrow> manifest result" where
  "decode_manifest rd =
     (case rd of Inl e \<Rightarrow> Inl e
      | Inr b \<Rightarrow>
          (case decode_json b of Inl e \<Rightarrow> Inl e
           | Inr j \<Rightarrow>
               (case dec_struct set_manifest j zero_manifest of
                  None \<Rightarrow> Inl (OtherErr ''json: cannot unmarshal'')
                | Some m \<Rightarrow> Inr m)))"

section \<open>Loading and storing\<close>

definition loadManifest ::
  "'s BlobStore \<Rightarrow> ctx \<Rightarrow> string \<Rightarrow> 's \<Rightarrow> (manifest \<times> string) result \<times> 's" where
  "loadManifest store ctx key s =
     (case Get store ctx key s of
        (Inl e, t) \<Rightarrow> (Inl e, t)
      | (Inr (rc, etag), t) \<Rightarrow>
          (case decode_manifest rc of
             Inl e \<Rightarrow> (Inl (Wrapped ''manifest: decode'' e), t)
           | Inr m \<Rightarrow>
               (case validate m of
                  Some e \<Rightarrow> (Inl e, t)
                | None \<Rightarrow> (Inr (m, etag), t))))"

text \<open>
  The manifest is passed by pointer and stamped with the format version; the stamped
  manifest is part of the result.
\<close>

definition stamp :: "manifest \<Rightarrow> manifest" where
  "stamp m = m\<lparr>FormatVersion := manifestFormatVersion\<rparr>"

definition putManifest ::
  "'s BlobStore \<Rightarrow> ctx \<Rightarrow> string \<Rightarrow> manifest \<Rightarrow> PutCondition \<Rightarrow> 's \<Rightarrow>
     (string result \<times> manifest) \<times> 's" where
  "putManifest store ctx key m cond s =
     (let m = stamp m
      in case validate m of
           Some e \<Rightarrow> ((Inl e, m), s)
         | None \<Rightarrow>
             (case Put store ctx key (Inr (encode_manifest m)) cond s of
                (r, t) \<Rightarrow> ((r, m), t)))"

section \<open>The invariants of the struct comment\<close>

definition contiguous :: "int \<Rightarrow> logEntry list \<Rightarrow> bool" where
  "contiguous base es \<longleftrightarrow>
     (\<forall>i < length es. eKey (es ! i) \<noteq> '''' \<and> eSeq (es ! i) = base + 1 + int i)"

definition manifest_inv :: "manifest \<Rightarrow> bool" where
  "manifest_inv m \<longleftrightarrow>
     bKey (Snapshot m) \<noteq> '''' \<and> 0 \<le> bSeq (Snapshot m) \<and>
     FormatVersion m \<le> manifestFormatVersion \<and> 0 \<le> SchemaVersion m \<and>
     contiguous (bSeq (Snapshot m)) (Log m) \<and>
     Seq m = bSeq (Snapshot m) + int (length (Log m))"

text \<open>No sequence number of the manifest is at the end of the 64-bit range.\<close>

definition seq_room :: "manifest \<Rightarrow> bool" where
  "seq_room m \<longleftrightarrow> bSeq (Snapshot m) + int (length (Log m)) < max_int64"

text \<open>What survives the wire format: 64-bit integers and ASCII keys.\<close>

definition wire_ok :: "manifest \<Rightarrow> bool" where
  "wire_ok m \<longleftrightarrow>
     is_int64 (FormatVersion m) \<and> is_int64 (Seq m) \<and> is_int64 (SchemaVersion m) \<and>
     list_all is_ascii (bKey (Snapshot m)) \<and> is_int64 (bSeq (Snapshot m)) \<and>
     is_int64 (bSize (Snapshot m)) \<and>
     (\<forall>e \<in> set (Log m). list_all is_ascii (eKey e) \<and> is_int64 (eSeq e) \<and> is_int64 (eSize e))"

section \<open>Lemmas\<close>

lemma contiguous_Nil [simp]: "contiguous b []"
  by (simp add: contiguous_def)

lemma contiguous_Cons [simp]:
  "contiguous b (e # es) \<longleftrightarrow> eKey e \<noteq> '''' \<and> eSeq e = b + 1 \<and> contiguous (b + 1) es"
  unfolding contiguous_def by (auto simp: All_less_Suc2 algebra_simps)

lemma contiguous_append:
  "contiguous b (xs @ ys) \<longleftrightarrow> contiguous b xs \<and> contiguous (b + int (length xs)) ys"
  by (induction xs arbitrary: b) (auto simp: algebra_simps)

lemma contiguous_last: "contiguous b es \<Longrightarrow> es \<noteq> [] \<Longrightarrow> eSeq (last es) = b + int (length es)"
  by (induction es rule: rev_induct) (auto simp: contiguous_append)

lemma contiguous_mem:
  "contiguous b es \<Longrightarrow> e \<in> set es \<Longrightarrow> b < eSeq e \<and> eSeq e \<le> b + int (length es)"
  by (induction es arbitrary: b) fastforce+

text \<open>The entries above a sequence number are a suffix of the log.\<close>

lemma contiguous_filter:
  assumes "contiguous b es" and "b \<le> q" and "q \<le> b + int (length es)"
  shows "filter (\<lambda>e. q < eSeq e) es = drop (nat (q - b)) es"
  using assms
proof (induction es arbitrary: b)
  case (Cons e es)
  show ?case
  proof (cases "q = b")
    case True
    have "\<forall>x \<in> set (e # es). q < eSeq x"
      using contiguous_mem [OF Cons.prems(1)] True by blast
    then have "filter (\<lambda>e. q < eSeq e) (e # es) = e # es" by (simp only: filter_id_conv)
    with True show ?thesis by simp
  next
    case False
    with Cons have "filter (\<lambda>e. q < eSeq e) es = drop (nat (q - (b + 1))) es" by simp
    moreover have "nat (q - b) = Suc (nat (q - (b + 1)))" using False Cons.prems by simp
    ultimately show ?thesis using False Cons.prems by simp
  qed
qed simp

lemma validate_log_contiguous:
  assumes "is_int64 b" and "b + int (length es) \<le> max_int64"
  shows "validate_log (add64 b 1) es = None \<longleftrightarrow> contiguous b es"
  using assms
proof (induction es arbitrary: b)
  case (Cons e es)
  then have b: "is_int64 (b + 1)" by (simp add: is_int64_def)
  with Cons.IH [of "b + 1"] Cons.prems show ?case by auto
qed simp

lemma validate_iff:
  assumes "is_int64 (bSeq (Snapshot m))"
    and "bSeq (Snapshot m) + int (length (Log m)) \<le> max_int64"
  shows "validate m = None \<longleftrightarrow> manifest_inv m"
proof -
  have l: "(validate_log (add64 (bSeq (Snapshot m)) 1) (Log m) = None)
      = contiguous (bSeq (Snapshot m)) (Log m)"
    by (rule validate_log_contiguous [OF assms])
  show ?thesis
    using l contiguous_last [of "bSeq (Snapshot m)" "Log m"]
    by (auto simp: validate_def manifest_inv_def Let_def split: option.splits)
qed

lemma stamp_simps [simp]:
  "Seq (stamp m) = Seq m" "SchemaVersion (stamp m) = SchemaVersion m"
  "Snapshot (stamp m) = Snapshot m" "Log (stamp m) = Log m"
  "FormatVersion (stamp m) = 1" "stamp (stamp m) = stamp m"
  by (simp_all add: stamp_def manifestFormatVersion_def)

lemma manifest_inv_stamp: "manifest_inv m \<Longrightarrow> manifest_inv (stamp m)"
  by (simp add: manifest_inv_def manifestFormatVersion_def)

lemma manifest_inv_appendLog:
  assumes "manifest_inv m" and "seq_room m" and "k \<noteq> ''''"
  shows "manifest_inv (appendLog m \<lparr>eKey = k, eSeq = add64 (Seq m) 1, eSize = z\<rparr>)"
proof -
  from assms(1,2) have "is_int64 (Seq m + 1)"
    by (simp add: is_int64_def min_int64_def manifest_inv_def seq_room_def)
  with assms show ?thesis
    by (simp add: manifest_inv_def appendLog_def contiguous_append)
qed

lemma manifest_inv_withSnapshot:
  "manifest_inv m \<Longrightarrow> k \<noteq> '''' \<Longrightarrow> manifest_inv (withSnapshot m \<lparr>bKey = k, bSeq = Seq m, bSize = z\<rparr>)"
  by (auto simp: manifest_inv_def withSnapshot_def manifestFormatVersion_def)

subsection \<open>Epochs\<close>

lemma epoch_snapshot_key:
  assumes "bKey (Snapshot m) = p @ ''/'' @ n @ ''.sqlite''" and "n \<noteq> []" and "CHR ''/'' \<notin> set n"
  shows "epoch m = n"
proof -
  have b: "path_Base (bKey (Snapshot m)) = n @ ''.sqlite''"
    unfolding assms(1) using assms by (intro path_Base_append) auto
  have "LastIndexByte (n @ CHR ''.'' # ''sqlite'') CHR ''.'' = int (length n)"
    by (rule LastIndexByte_append) simp
  with assms(2) show ?thesis by (simp add: epoch_def b Let_def)
qed

subsection \<open>Round trip through the wire format\<close>

declare fold_name.simps [simp del]

lemma fold_name_fields:
  "fold_name ''key'' = ''key''" "fold_name ''seq'' = ''seq''" "fold_name ''size'' = ''size''"
  "fold_name ''format_version'' = ''format_version''"
  "fold_name ''schema_version'' = ''schema_version''"
  "fold_name ''snapshot'' = ''snapshot''" "fold_name ''log'' = ''log''"
  by (simp_all add: fold_name.simps in_range_def)

lemmas set_field_defs = set_blobRef_def set_logEntry_def set_manifest_def fold_name_fields
  dec_int_def dec_str_def ParseInt_FormatInt

lemma wf_members_append: "wf_members (xs @ ys) \<longleftrightarrow> wf_members xs \<and> wf_members ys"
  by (induction xs) auto

lemma wf_elems_iff: "wf_elems js \<longleftrightarrow> (\<forall>j \<in> set js. wf_json j)"
  by (induction js) auto

lemma wf_omit_zero: "list_all is_ascii k \<Longrightarrow> wf_members (omit_zero k n)"
  by (auto simp: omit_zero_def)

lemma wf_manifest_json:
  assumes "wire_ok m"
  shows "wf_json (manifest_json m)"
proof -
  have "wf_json (blobRef_json (Snapshot m))"
    using assms by (auto simp: blobRef_json_def wire_ok_def wf_members_append wf_omit_zero is_ascii_def)
  moreover have "wf_elems (map logEntry_json (Log m))"
    using assms by (auto simp: logEntry_json_def wire_ok_def wf_elems_iff wf_members_append
        wf_omit_zero is_ascii_def)
  ultimately show ?thesis
    by (auto simp: manifest_json_def wf_members_append wf_omit_zero is_ascii_def)
qed

lemma dec_blobRef_json:
  "is_int64 (bSeq r) \<Longrightarrow> is_int64 (bSize r) \<Longrightarrow>
     dec_struct set_blobRef (blobRef_json r) \<lparr>bKey = '''', bSeq = 0, bSize = 0\<rparr> = Some r"
  by (cases r) (simp add: dec_struct_def blobRef_json_def omit_zero_def set_field_defs)

lemma dec_logEntry_json:
  "is_int64 (eSeq e) \<Longrightarrow> is_int64 (eSize e) \<Longrightarrow>
     dec_struct set_logEntry (logEntry_json e) \<lparr>eKey = '''', eSeq = 0, eSize = 0\<rparr> = Some e"
  by (cases e) (simp add: dec_struct_def logEntry_json_def omit_zero_def set_field_defs)

lemma dec_entries_json:
  "\<forall>e \<in> set es. is_int64 (eSeq e) \<and> is_int64 (eSize e) \<Longrightarrow>
     dec_entries (map logEntry_json es) = Some es"
  by (induction es) (simp_all add: dec_logEntry_json)

lemma dec_manifest_json:
  assumes "wire_ok m"
  shows "dec_struct set_manifest (manifest_json m) zero_manifest = Some m"
proof -
  have r: "dec_struct set_blobRef (blobRef_json (Snapshot m)) \<lparr>bKey = '''', bSeq = 0, bSize = 0\<rparr>
      = Some (Snapshot m)"
    using assms by (simp add: dec_blobRef_json wire_ok_def)
  have es: "dec_entries (map logEntry_json (Log m)) = Some (Log m)"
    using assms by (simp add: dec_entries_json wire_ok_def)
  show ?thesis
    using assms r es unfolding dec_struct_def [of set_manifest]
    by (cases m) (simp add: manifest_json_def omit_zero_def zero_manifest_def wire_ok_def
        set_field_defs)
qed

lemma decode_encode_manifest:
  "wire_ok m \<Longrightarrow> decode_manifest (Inr (encode_manifest m)) = Inr m"
  by (simp add: decode_manifest_def encode_manifest_def decode_print_json wf_manifest_json
      dec_manifest_json)

lemma encode_manifest_inj:
  "wire_ok m \<Longrightarrow> wire_ok n \<Longrightarrow> encode_manifest m = encode_manifest n \<Longrightarrow> m = n"
  by (metis decode_encode_manifest sum.inject(2))

section \<open>Properties\<close>

definition sample_manifest :: manifest where
  "sample_manifest =
     \<lparr>FormatVersion = 1, Seq = 2, SchemaVersion = 3,
      Snapshot = \<lparr>bKey = ''a/s.sqlite'', bSeq = 1, bSize = 9\<rparr>,
      Log = [\<lparr>eKey = ''a/c'', eSeq = 2, eSize = 0\<rparr>]\<rparr>"

text \<open>
  C22: a manifest that is written is read back unchanged: decoding the bytes of the encoder
  gives the manifest, for 64-bit numbers and ASCII keys.
\<close>

theorem manifest_roundtrip:
  assumes "wire_ok m"
  shows "decode_manifest (Inr (encode_manifest m)) = Inr m"
  using assms by (rule decode_encode_manifest)

theorem manifest_roundtrip_witness:
  "wire_ok sample_manifest \<and>
   decode_manifest (Inr (encode_manifest sample_manifest)) = Inr sample_manifest"
proof
  show w: "wire_ok sample_manifest"
    by (simp add: wire_ok_def sample_manifest_def is_int64_def min_int64_def max_int64_def is_ascii_def)
  show "decode_manifest (Inr (encode_manifest sample_manifest)) = Inr sample_manifest"
    by (rule manifest_roundtrip [OF w])
qed

text \<open>
  C23: \<^verbatim>\<open>validate\<close> accepts exactly the manifests with the invariants of the struct comment,
  as long as no sequence number leaves the 64-bit range.
\<close>

theorem validate_correct:
  assumes "is_int64 (bSeq (Snapshot m))"
    and "bSeq (Snapshot m) + int (length (Log m)) \<le> max_int64"
  shows "validate m = None \<longleftrightarrow> manifest_inv m"
  using assms by (rule validate_iff)

theorem validate_correct_witness:
  "validate sample_manifest = None \<and> manifest_inv sample_manifest"
proof -
  have "validate sample_manifest = None \<longleftrightarrow> manifest_inv sample_manifest"
    by (rule validate_correct)
      (simp_all add: sample_manifest_def is_int64_def min_int64_def max_int64_def)
  moreover have "manifest_inv sample_manifest"
    by (simp add: manifest_inv_def sample_manifest_def manifestFormatVersion_def)
  ultimately show ?thesis by simp
qed

lemma ParseInt_int64: "ParseInt s = Inr n \<Longrightarrow> is_int64 n"
  by (auto simp: ParseInt_def Let_def split: if_splits)

lemma dec_int_int64: "dec_int j old = Some n \<Longrightarrow> is_int64 old \<Longrightarrow> is_int64 n"
  by (auto simp: dec_int_def dest: ParseInt_int64 split: json.splits sum.splits)

text \<open>A property of a struct that every member keeps holds of the decoded struct.\<close>

lemma dec_members_keeps:
  assumes "\<And>k j r r'. f k j r = Some r' \<Longrightarrow> P r \<Longrightarrow> P r'" and "dec_members f ms r = Some r'" and "P r"
  shows "P r'"
  using assms(2,3)
proof (induction ms arbitrary: r)
  case (Cons x ms)
  then obtain r1 where "f (fst x) (snd x) r = Some r1" "dec_members f ms r1 = Some r'"
    by (cases x) (auto split: option.splits)
  with Cons assms(1) show ?case by blast
qed simp

lemma dec_struct_keeps:
  assumes "\<And>k j r r'. f k j r = Some r' \<Longrightarrow> P r \<Longrightarrow> P r'" and "dec_struct f j r = Some r'" and "P r"
  shows "P r'"
  using assms(2,3) dec_members_keeps [of f P, OF assms(1)] by (auto simp: dec_struct_def split: json.splits)

definition int64_ref :: "blobRef \<Rightarrow> bool" where
  "int64_ref r \<longleftrightarrow> is_int64 (bSeq r) \<and> is_int64 (bSize r)"

definition int64_entry :: "logEntry \<Rightarrow> bool" where
  "int64_entry e \<longleftrightarrow> is_int64 (eSeq e) \<and> is_int64 (eSize e)"

definition int64_manifest :: "manifest \<Rightarrow> bool" where
  "int64_manifest m \<longleftrightarrow>
     is_int64 (FormatVersion m) \<and> is_int64 (Seq m) \<and> is_int64 (SchemaVersion m) \<and>
     int64_ref (Snapshot m) \<and> list_all int64_entry (Log m)"

lemma is_int64_zero [simp]: "is_int64 0"
  by (simp add: is_int64_def min_int64_def max_int64_def)

lemma set_blobRef_int64: "set_blobRef k j r = Some r' \<Longrightarrow> int64_ref r \<Longrightarrow> int64_ref r'"
  by (auto simp: set_blobRef_def int64_ref_def Let_def dest: dec_int_int64 split: if_splits)

lemma set_logEntry_int64: "set_logEntry k j r = Some r' \<Longrightarrow> int64_entry r \<Longrightarrow> int64_entry r'"
  by (auto simp: set_logEntry_def int64_entry_def Let_def dest: dec_int_int64 split: if_splits)

lemma dec_entries_int64: "dec_entries js = Some es \<Longrightarrow> list_all int64_entry es"
proof (induction js arbitrary: es)
  case (Cons j js)
  then obtain e es' where e: "dec_struct set_logEntry j \<lparr>eKey = '''', eSeq = 0, eSize = 0\<rparr> = Some e"
    "dec_entries js = Some es'" "es = e # es'" by (auto split: option.splits)
  have "int64_entry e"
    by (rule dec_struct_keeps [OF _ e(1)]) (erule (1) set_logEntry_int64, simp add: int64_entry_def)
  with Cons.IH [OF e(2)] e(3) show ?case by simp
qed simp

lemma set_manifest_int64:
  assumes "set_manifest k j m = Some m'" and "int64_manifest m"
  shows "int64_manifest m'"
proof -
  have "int64_ref r" if "dec_struct set_blobRef j (Snapshot m) = Some r" for r
    by (rule dec_struct_keeps [OF _ that]) (erule (1) set_blobRef_int64, use assms(2) in \<open>simp add: int64_manifest_def\<close>)
  with assms show ?thesis
    by (auto simp: set_manifest_def int64_manifest_def Let_def dest: dec_int_int64 dec_entries_int64
        split: if_splits json.splits)
qed

text \<open>The ranges of the number fields hold of every manifest that is decoded, whatever bytes are read.\<close>

lemma decode_int64:
  assumes "decode_manifest rd = Inr m"
  shows "int64_manifest m"
proof -
  from assms obtain j where "dec_struct set_manifest j zero_manifest = Some m"
    by (auto simp: decode_manifest_def split: sum.splits option.splits)
  moreover have "int64_manifest zero_manifest"
    by (simp add: int64_manifest_def zero_manifest_def int64_ref_def)
  ultimately show ?thesis using dec_struct_keeps [where f = set_manifest and P = int64_manifest] set_manifest_int64
    by blast
qed

text \<open>
  C19: the steps that \<^verbatim>\<open>manifest.go\<close> offers keep a valid manifest valid: a new entry at the next
  sequence number, and a new snapshot at the current one, which drops the log and keeps the schema
  version.
\<close>

theorem manifest_steps:
  assumes "validate m = None" and "int64_manifest m" and "bSeq (Snapshot m) + int (length (Log m)) < max_int64"
    and "k \<noteq> ''''"
  shows "validate (appendLog m \<lparr>eKey = k, eSeq = add64 (Seq m) 1, eSize = z\<rparr>) = None \<and>
    Seq (appendLog m \<lparr>eKey = k, eSeq = add64 (Seq m) 1, eSize = z\<rparr>) = Seq m + 1 \<and>
    validate (withSnapshot m \<lparr>bKey = k, bSeq = Seq m, bSize = z\<rparr>) = None \<and>
    Seq (withSnapshot m \<lparr>bKey = k, bSeq = Seq m, bSize = z\<rparr>) = Seq m \<and>
    SchemaVersion (withSnapshot m \<lparr>bKey = k, bSeq = Seq m, bSize = z\<rparr>) = SchemaVersion m"
proof -
  have i: "is_int64 (bSeq (Snapshot m))" "is_int64 (Seq m)" using assms(2) by (simp_all add: int64_manifest_def int64_ref_def)
  have m: "manifest_inv m" using validate_iff [of m] i assms(1,3) by simp
  then have q: "Seq m = bSeq (Snapshot m) + int (length (Log m))" by (simp add: manifest_inv_def)
  with i assms(3) have a: "add64 (Seq m) 1 = Seq m + 1" by (simp add: is_int64_def)
  let ?a = "appendLog m \<lparr>eKey = k, eSeq = add64 (Seq m) 1, eSize = z\<rparr>"
  have "manifest_inv ?a" using m assms(4) a q by (simp add: manifest_inv_def appendLog_def contiguous_append)
  then have "validate ?a = None" using validate_iff [of ?a] i assms(3) by (simp add: appendLog_def)
  moreover let ?s = "withSnapshot m \<lparr>bKey = k, bSeq = Seq m, bSize = z\<rparr>"
  have "validate ?s = None"
    using validate_iff [of ?s] manifest_inv_withSnapshot [OF m assms(4), of z] i by (simp add: withSnapshot_def is_int64_def)
  ultimately show ?thesis using a by (simp add: appendLog_def withSnapshot_def)
qed

theorem manifest_steps_witness:
  "validate (appendLog sample_manifest \<lparr>eKey = ''k'', eSeq = add64 (Seq sample_manifest) 1, eSize = 5\<rparr>) = None \<and>
    Seq (appendLog sample_manifest \<lparr>eKey = ''k'', eSeq = add64 (Seq sample_manifest) 1, eSize = 5\<rparr>) = Seq sample_manifest + 1 \<and>
    validate (withSnapshot sample_manifest \<lparr>bKey = ''k'', bSeq = Seq sample_manifest, bSize = 5\<rparr>) = None \<and>
    Seq (withSnapshot sample_manifest \<lparr>bKey = ''k'', bSeq = Seq sample_manifest, bSize = 5\<rparr>) = Seq sample_manifest \<and>
    SchemaVersion (withSnapshot sample_manifest \<lparr>bKey = ''k'', bSeq = Seq sample_manifest, bSize = 5\<rparr>) =
      SchemaVersion sample_manifest"
proof (rule manifest_steps)
  have i: "manifest_inv sample_manifest" by (simp add: manifest_inv_def sample_manifest_def manifestFormatVersion_def)
  then show "validate sample_manifest = None"
    using validate_iff [of sample_manifest] by (simp add: sample_manifest_def is_int64_def min_int64_def max_int64_def)
qed (simp_all add: int64_manifest_def int64_ref_def int64_entry_def sample_manifest_def is_int64_def min_int64_def max_int64_def)

end
