(* ===== verification/Sync.thy ===== *)
theory Sync
  imports Apply Manifest
begin

text \<open>
  \<^verbatim>\<open>sync.go\<close>: downloading a snapshot to a local file, whole or in ranges, and applying the
  tail of the log.  The concurrent fetches of an \<^verbatim>\<open>errgroup\<close> are performed in index order
  and stop at the first error: they only read, and each writes its own slot or range.
\<close>

section \<open>Downloading a snapshot\<close>

definition parallelDownloadThreshold :: int where
  "parallelDownloadThreshold = 4194304"

definition parallelDownloadParts :: int where
  "parallelDownloadParts = 4"

text \<open>\<^verbatim>\<open>WriteAt\<close> on a file: a gap before the offset is filled with zero bytes.\<close>

definition write_at :: "bytes \<Rightarrow> nat \<Rightarrow> bytes \<Rightarrow> bytes" where
  "write_at f off p =
     take off (f @ replicate (off - length f) CHR 0x00) @ p @ drop (off + length p) f"

definition downloadSingle ::
  "'s BlobStore \<Rightarrow> ctx \<Rightarrow> string \<Rightarrow> 's \<Rightarrow> bytes result \<times> 's" where
  "downloadSingle store ctx key s =
     (case Get store ctx key s of
        (Inl e, t) \<Rightarrow> (Inl e, t)
      | (Inr (rc, etag), t) \<Rightarrow> (case rc of Inl e \<Rightarrow> (Inl e, t) | Inr b \<Rightarrow> (Inr b, t)))"

text \<open>The first and last byte of a part.\<close>

definition part_range :: "int \<Rightarrow> int \<Rightarrow> int \<Rightarrow> int \<Rightarrow> int \<times> int" where
  "part_range sz chunkSize parts i =
     (let start = i * chunkSize
      in (start, if i = parts - 1 then sz - 1 else start + chunkSize - 1))"

fun download_parts ::
  "'s BlobStore \<Rightarrow> ctx \<Rightarrow> string \<Rightarrow> (int \<times> int) list \<Rightarrow> bytes \<Rightarrow> 's \<Rightarrow> bytes result \<times> 's" where
  "download_parts store ctx key [] dst s = (Inr dst, s)"
| "download_parts store ctx key ((start, end) # rs) dst s =
     (case GetRange store ctx key start end s of
        (Inl e, t) \<Rightarrow> (Inl e, t)
      | (Inr (Inl e), t) \<Rightarrow> (Inl e, t)
      | (Inr (Inr b), t) \<Rightarrow> download_parts store ctx key rs (write_at dst (nat start) b) t)"

definition downloadParallel ::
  "'s BlobStore \<Rightarrow> ctx \<Rightarrow> string \<Rightarrow> int \<Rightarrow> int \<Rightarrow> 's \<Rightarrow> bytes result \<times> 's" where
  "downloadParallel store ctx key sz parts0 s =
     (let chunk0 = sz div parts0;
          chunkSize = (if chunk0 = 0 then sz else chunk0);
          parts = (if chunk0 = 0 then 1 else parts0)
      in download_parts store ctx key (map (part_range sz chunkSize parts) [0..parts - 1]) [] s)"

text \<open>
  \<^verbatim>\<open>downloadSnapshot\<close>: the local calls are, in order, \<^verbatim>\<open>CreateTemp\<close>, \<^verbatim>\<open>Sync\<close>, \<^verbatim>\<open>Close\<close>
  and \<^verbatim>\<open>Rename\<close>; the destination is replaced only by the last.
\<close>

definition downloadSnapshot ::
  "'s BlobStore \<Rightarrow> ctx \<Rightarrow> string \<Rightarrow> int \<Rightarrow> string \<Rightarrow> 's world \<Rightarrow> err option \<times> 's world" where
  "downloadSnapshot store ctx key sz destPath w =
     (case local_call w of
        (Some e, w) \<Rightarrow> (Some e, w)
      | (None, w) \<Rightarrow>
          (case on_store
                  (if parallelDownloadThreshold \<le> sz
                   then downloadParallel store ctx key sz parallelDownloadParts
                   else downloadSingle store ctx key) w of
             (Inl e, w) \<Rightarrow> (Some (Wrapped ''download snapshot'' e), w)
           | (Inr content, w) \<Rightarrow>
               (case local_call w of
                  (Some e, w) \<Rightarrow> (Some e, w)
                | (None, w) \<Rightarrow>
                    (case local_call w of
                       (Some e, w) \<Rightarrow> (Some e, w)
                     | (None, w) \<Rightarrow>
                         (case local_call w of
                            (Some e, w) \<Rightarrow> (Some e, w)
                          | (None, w) \<Rightarrow>
                              (None, w\<lparr>w_disk := (w_disk w)(destPath \<mapsto> content)\<rparr>))))))"

section \<open>Applying the log\<close>

fun fetch_all ::
  "'s BlobStore \<Rightarrow> ctx \<Rightarrow> logEntry list \<Rightarrow> 's \<Rightarrow> bytes list result \<times> 's" where
  "fetch_all store ctx [] s = (Inr [], s)"
| "fetch_all store ctx (e # es) s =
     (case Get store ctx (eKey e) s of
        (Inl x, t) \<Rightarrow> (Inl (Wrapped ''fetch changeset'' x), t)
      | (Inr (Inl x, etag), t) \<Rightarrow> (Inl (Wrapped ''read changeset'' x), t)
      | (Inr (Inr b, etag), t) \<Rightarrow>
          (case fetch_all store ctx es t of
             (Inl x, u) \<Rightarrow> (Inl x, u)
           | (Inr bs, u) \<Rightarrow> (Inr (b # bs), u)))"

text \<open>The sequential phase: the sequence number reached, also on error.\<close>

fun apply_all ::
  "'db ext \<Rightarrow> (logEntry \<times> bytes) list \<Rightarrow> int \<Rightarrow> 'db conn \<Rightarrow> (int \<times> err option) \<times> 'db conn" where
  "apply_all X [] seq conn = ((seq, None), conn)"
| "apply_all X ((e, cs) # rest) seq conn =
     (case applyChangeset X conn cs conflictAbort of
        (Some x, c) \<Rightarrow> ((seq, Some (Wrapped ''apply changeset'' x)), c)
      | (None, c) \<Rightarrow> apply_all X rest (eSeq e) c)"

definition applyLog ::
  "'db ext \<Rightarrow> 's BlobStore \<Rightarrow> ctx \<Rightarrow> logEntry list \<Rightarrow> int \<Rightarrow> 'db conn \<Rightarrow> 's \<Rightarrow>
     (int \<times> err option) \<times> 'db conn \<times> 's" where
  "applyLog X store ctx log fromSeq conn s =
     (let need = filter (\<lambda>e. fromSeq < eSeq e) log
      in if need = [] then ((fromSeq, None), conn, s)
         else case fetch_all store ctx need s of
             (Inl e, t) \<Rightarrow> ((fromSeq, Some e), conn, t)
           | (Inr bodies, t) \<Rightarrow>
               (case apply_all X (zip need bodies) fromSeq conn of (r, c) \<Rightarrow> (r, c, t)))"

section \<open>The reference definition of a replay\<close>

text \<open>
  The state a manifest describes: the content of the snapshot with the changesets of the
  log applied in order (the pseudo-code of \<^verbatim>\<open>DESIGN.md\<close>).
\<close>

definition body_at :: "objs \<Rightarrow> string \<Rightarrow> bytes option" where
  "body_at v k = map_option fst (v k)"

fun apply_entries :: "'db ext \<Rightarrow> objs \<Rightarrow> logEntry list \<Rightarrow> 'db \<Rightarrow> 'db option" where
  "apply_entries X v [] d = Some d"
| "apply_entries X v (e # es) d =
     (case body_at v (eKey e) of None \<Rightarrow> None
      | Some b \<Rightarrow> (case apply_bytes X b d of None \<Rightarrow> None | Some d' \<Rightarrow> apply_entries X v es d'))"

definition base_of :: "'db ext \<Rightarrow> objs \<Rightarrow> blobRef \<Rightarrow> 'db option" where
  "base_of X v r =
     (case body_at v (bKey r) of None \<Rightarrow> None
      | Some b \<Rightarrow> (case sq_open X b of Inl e \<Rightarrow> None | Inr d \<Rightarrow> Some d))"

definition replay :: "'db ext \<Rightarrow> objs \<Rightarrow> manifest \<Rightarrow> 'db option" where
  "replay X v m =
     (case base_of X v (Snapshot m) of None \<Rightarrow> None | Some d \<Rightarrow> apply_entries X v (Log m) d)"

section \<open>Lemmas\<close>

lemma downloadSnapshot_frame:
  assumes "downloadSnapshot store ctx key sz path w = (e, w')"
    and "(if parallelDownloadThreshold \<le> sz
          then downloadParallel store ctx key sz parallelDownloadParts
          else downloadSingle store ctx key) (w_store w) = (g, t)"
  shows "w_store w' = w_store w \<and> w_uuid w' = w_uuid w \<and> e \<noteq> None \<or>
    w_store w' = t \<and> w_uuid w' = w_uuid w \<and>
    (e = None \<longrightarrow> (\<exists>c. g = Inr c \<and> w_disk w' path = Some c))"
proof -
  obtain x1 w1 where l1: "local_call w = (x1, w1)" by fastforce
  note f1 = local_call_frame [OF l1]
  show ?thesis
  proof (cases "x1 = None \<and> (\<exists>c. g = Inr c)")
    case False
    then show ?thesis using assms l1 f1
      by (cases x1; cases g) (auto simp: downloadSnapshot_def on_store_def)
  next
    case True
    then obtain c where c: "g = Inr c" by auto
    define w2 where "w2 = w1\<lparr>w_store := t\<rparr>"
    obtain x3 w3 where l3: "local_call w2 = (x3, w3)" by fastforce
    obtain x4 w4 where l4: "local_call w3 = (x4, w4)" by fastforce
    obtain x5 w5 where l5: "local_call w4 = (x5, w5)" by fastforce
    have o: "on_store (if parallelDownloadThreshold \<le> sz
          then downloadParallel store ctx key sz parallelDownloadParts
          else downloadSingle store ctx key) w1 = (Inr c, w2)"
      using assms(2) f1 c by (simp add: on_store_def w2_def)
    have w2: "w_store w2 = t" "w_uuid w2 = w_uuid w" using f1 by (simp_all add: w2_def)
    show ?thesis
      using assms(1) True l1 o l3 l4 l5 w2 c
        local_call_frame [OF l3] local_call_frame [OF l4] local_call_frame [OF l5]
      by (cases x3; cases x4; cases x5) (auto simp: downloadSnapshot_def)
  qed
qed

subsection \<open>Replays\<close>

lemma apply_entries_append:
  "apply_entries X v (xs @ ys) d =
     (case apply_entries X v xs d of None \<Rightarrow> None | Some d' \<Rightarrow> apply_entries X v ys d')"
  by (induction xs arbitrary: d) (auto split: option.splits)

lemma apply_entries_cong:
  "(\<And>e. e \<in> set es \<Longrightarrow> body_at v (eKey e) = body_at u (eKey e)) \<Longrightarrow>
     apply_entries X v es d = apply_entries X u es d"
  by (induction es arbitrary: d) (auto split: option.splits)

lemma base_of_cong: "body_at v (bKey r) = body_at u (bKey r) \<Longrightarrow> base_of X v r = base_of X u r"
  by (simp add: base_of_def)

lemma body_at_upd [simp]:
  "body_at (v(k \<mapsto> (b, e))) k' = (if k' = k then Some b else body_at v k')"
  by (simp add: body_at_def)

lemma body_at_del [simp]:
  "body_at (v(k := None)) k' = (if k' = k then None else body_at v k')"
  by (simp add: body_at_def)

subsection \<open>The apply phase\<close>

lemma apply_all_seq:
  assumes "length bs = length es"
    and "apply_all X (zip es bs) q c = ((q', r), c')"
  shows "\<exists>n \<le> length es. q' = (if n = 0 then q else eSeq (es ! (n - 1))) \<and>
           apply_all X (zip (take n es) (take n bs)) q c = ((q', None), c') \<and>
           (r = None \<longrightarrow> n = length es)"
  using assms
proof (induction es arbitrary: bs q c)
  case Nil
  then show ?case by simp
next
  case (Cons e es)
  then obtain b bs' where bs: "bs = b # bs'" by (cases bs) auto
  obtain x c1 where a: "applyChangeset X c b conflictAbort = (x, c1)" by fastforce
  show ?case
  proof (cases x)
    case None
    with Cons.prems bs a have "apply_all X (zip es bs') (eSeq e) c1 = ((q', r), c')" by simp
    with Cons.IH [of bs' "eSeq e" c1] Cons.prems bs obtain n where n: "n \<le> length es"
      "q' = (if n = 0 then eSeq e else eSeq (es ! (n - 1)))"
      "apply_all X (zip (take n es) (take n bs')) (eSeq e) c1 = ((q', None), c')"
      "r = None \<longrightarrow> n = length es" by auto
    with bs a None show ?thesis by (intro exI [of _ "Suc n"]) (auto simp: nth_Cons')
  next
    case (Some y)
    with Cons.prems bs a applyChangeset_fail [of X c b conflictAbort y c1]
    show ?thesis by (intro exI [of _ 0]) auto
  qed
qed

lemma apply_all_reference:
  assumes "length bs = length es"
    and "\<And>i. i < length es \<Longrightarrow> body_at v (eKey (es ! i)) = Some (bs ! i)"
    and "apply_all X (zip es bs) q (OpenConn d) = ((q', None), c)"
  shows "\<exists>d'. apply_entries X v es d = Some d' \<and> c = OpenConn d'"
  using assms
proof (induction es arbitrary: bs q d)
  case Nil
  then show ?case by simp
next
  case (Cons e es)
  then obtain b bs' where bs: "bs = b # bs'" by (cases bs) auto
  from Cons.prems bs obtain d1 where d1: "apply_bytes X b d = Some d1"
    and rest: "apply_all X (zip es bs') (eSeq e) (OpenConn d1) = ((q', None), c)"
    by (auto simp: applyChangeset_ok split: prod.splits option.splits)
  have "\<exists>d'. apply_entries X v es d1 = Some d' \<and> c = OpenConn d'"
  proof (rule Cons.IH [OF _ _ rest])
    show "length bs' = length es" using Cons.prems(1) bs by simp
    fix i assume "i < length es"
    then show "body_at v (eKey (es ! i)) = Some (bs' ! i)"
      using Cons.prems(2) [of "Suc i"] bs by simp
  qed
  moreover have "body_at v (eKey e) = Some b" using Cons.prems(2) [of 0] bs by simp
  ultimately show ?case using d1 by simp
qed

lemma apply_all_open: "apply_all X zs q (OpenConn d) = (r, c) \<Longrightarrow> \<exists>d'. c = OpenConn d'"
proof (induction zs arbitrary: q d)
  case (Cons z zs)
  obtain e cs where z: "z = (e, cs)" by (cases z)
  obtain x c1 where a: "applyChangeset X (OpenConn d) cs conflictAbort = (x, c1)" by fastforce
  then obtain d1 where "c1 = OpenConn d1"
    by (auto simp: applyChangeset_def split: applied.splits if_splits)
  with Cons a z show ?case by (cases x) auto
qed auto

lemma apply_all_closed: "(\<And>d. c \<noteq> OpenConn d) \<Longrightarrow> snd (apply_all X zs q c) = c"
proof (induction zs arbitrary: q)
  case (Cons z zs)
  obtain e cs where z: "z = (e, cs)" by (cases z)
  have "\<exists>x. applyChangeset X c cs conflictAbort = (x, c)"
    using Cons.prems by (cases c) (auto simp: applyChangeset_def)
  then obtain x where "applyChangeset X c cs conflictAbort = (x, c)" ..
  with Cons z show ?case by (cases x) auto
qed simp

subsection \<open>Downloads in ranges\<close>

text \<open>What the parts write, given the body each of them saw.\<close>

fun part_writes :: "(int \<times> int) list \<Rightarrow> bytes list \<Rightarrow> bytes \<Rightarrow> bytes" where
  "part_writes ((i, j) # rs) (b # bs) dst =
     part_writes rs bs (write_at dst (nat i) (take (nat (j + 1 - i)) (drop (nat i) b)))"
| "part_writes rs bs dst = dst"

text \<open>Ranges that follow each other without gap, up to (excluding) \<open>z\<close>.\<close>

fun chained :: "int \<Rightarrow> (int \<times> int) list \<Rightarrow> int \<Rightarrow> bool" where
  "chained a [] z \<longleftrightarrow> a = z"
| "chained a ((i, j) # rs) z \<longleftrightarrow> i = a \<and> a \<le> j \<and> j + 1 \<le> z \<and> chained (j + 1) rs z"

lemma write_at_end [simp]: "write_at dst (length dst) p = dst @ p"
  by (simp add: write_at_def)

lemma chained_le: "chained a rs z \<Longrightarrow> a \<le> z"
  by (induction rs arbitrary: a) fastforce+

lemma part_writes_chained:
  assumes "chained (int (length dst)) rs z" and "z \<le> int (length b)"
    and "bs = replicate (length rs) b"
  shows "part_writes rs bs dst = dst @ take (nat z - length dst) (drop (length dst) b)"
  using assms
proof (induction rs arbitrary: dst bs)
  case Nil
  then show ?case by auto
next
  case (Cons r rs)
  obtain i j where r: "r = (i, j)" by (cases r)
  define p where "p = take (nat (j + 1 - i)) (drop (nat i) b)"
  from Cons.prems r have i: "i = int (length dst)" "i \<le> j + 1" and rest: "chained (j + 1) rs z"
    and jz: "j + 1 \<le> z" by auto
  have z: "j + 1 \<le> int (length b)" using jz Cons.prems(2) by linarith
  then have lp: "int (length (dst @ p)) = j + 1" using i by (simp add: p_def)
  have "part_writes rs (replicate (length rs) b) (dst @ p) =
      (dst @ p) @ take (nat z - length (dst @ p)) (drop (length (dst @ p)) b)"
    using Cons.IH [of "dst @ p" "replicate (length rs) b"] rest lp Cons.prems(2) by simp
  moreover have "p @ take (nat z - length (dst @ p)) (drop (length (dst @ p)) b)
      = take (nat z - length dst) (drop (length dst) b)"
  proof -
    have l: "length p = nat (j + 1) - length dst" and le: "length dst \<le> nat (j + 1)"
      using lp by auto
    have nz: "nat (j + 1) \<le> nat z" using jz by simp
    let ?a = "nat (j + 1) - length dst" and ?c = "nat z - nat (j + 1)"
    have "p = take ?a (drop (length dst) b)"
      using i by (simp add: p_def nat_diff_distrib')
    moreover have "take (nat z - length (dst @ p)) (drop (length (dst @ p)) b) =
        take ?c (drop ?a (drop (length dst) b))"
      using l le by simp
    moreover have "take (?a + ?c) (drop (length dst) b) =
        take ?a (drop (length dst) b) @ take ?c (drop ?a (drop (length dst) b))"
      by (rule take_add)
    moreover have "?a + ?c = nat z - length dst" using le nz by simp
    ultimately show ?thesis by metis
  qed
  ultimately show ?case using Cons.prems(3) r i by (simp add: p_def)
qed

text \<open>The ranges of \<^verbatim>\<open>downloadParallel\<close> cover the object exactly once.\<close>

lemma chained_append: "chained a (xs @ ys) z \<longleftrightarrow> (\<exists>y \<le> z. chained a xs y \<and> chained y ys z)"
proof (induction xs arbitrary: a)
  case Nil
  then show ?case using chained_le by auto
next
  case (Cons r xs)
  then show ?case using chained_le by (cases r) fastforce
qed

lemma chained_parts:
  assumes "0 < c" and "0 < p" and "p * c \<le> n"
  shows "chained 0 (map (part_range n c p) [0..p - 1]) n"
proof -
  have pre: "chained 0 (map (part_range n c p) [0..int k - 1]) (int k * c)" if "int k < p" for k
    using that
  proof (induction k)
    case (Suc k)
    then have "[0..int (Suc k) - 1] = [0..int k - 1] @ [int k]"
      by (simp add: upto_rec2)
    moreover have "chained (int k * c) [part_range n c p (int k)] (int (Suc k) * c)"
      using Suc.prems assms(1) by (simp add: part_range_def Let_def algebra_simps)
    ultimately show ?case
      using Suc assms(1) by (auto simp: chained_append algebra_simps intro!: exI [of _ "int k * c"])
  qed simp
  define k where "k = nat (p - 1)"
  have k: "int k = p - 1" using assms(2) by (simp add: k_def)
  have "[0..p - 1] = [0..int k - 1] @ [int k]"
    using assms(2) k by (simp add: upto_rec2)
  moreover have kn: "int k * c < n"
  proof -
    have "int k * c = p * c - c" unfolding k by (simp add: algebra_simps)
    then show ?thesis using assms by linarith
  qed
  moreover have "chained (int k * c) [part_range n c p (int k)] n"
    using kn k by (simp add: part_range_def)
  ultimately show ?thesis using pre [of k] k
    by (auto simp: chained_append intro!: exI [of _ "int k * c"])
qed

lemma chained_downloadParallel:
  assumes "0 < p" and "0 < n"
  shows "chained 0 (map (part_range n (if n div p = 0 then n else n div p)
           (if n div p = 0 then 1 else p)) [0..(if n div p = 0 then 1 else p) - 1]) n"
proof (cases "n div p = 0")
  case True
  then show ?thesis using chained_parts [of n 1 n] assms by simp
next
  case False
  then have "0 < n div p" using assms by (simp add: order_less_le pos_imp_zdiv_nonneg_iff)
  moreover have "p * (n div p) \<le> n" by (metis assms(1) div_mult_mod_eq le_add_same_cancel1
        mult.commute pos_mod_sign)
  ultimately show ?thesis using chained_parts [of "n div p" p n] assms False by simp
qed

lemma chained_ranges: "chained a rs z \<Longrightarrow> 0 \<le> a \<Longrightarrow> \<forall>(i, j) \<in> set rs. 0 \<le> i \<and> i \<le> j"
  by (induction rs arbitrary: a) fastforce+

lemma chained_bounds: "chained a rs z \<Longrightarrow> 0 \<le> a \<Longrightarrow> \<forall>(i, j) \<in> set rs. 0 \<le> i \<and> i \<le> j \<and> j < z"
  by (induction rs arbitrary: a) fastforce+

context cas_store
begin

lemma download_parts_frame:
  "invar s \<Longrightarrow> download_parts store ctx k rs dst s = (r, t) \<Longrightarrow> invar t \<and> env (view s) (view t)"
proof (induction rs arbitrary: dst s)
  case (Cons x rs)
  obtain i j where x: "x = (i, j)" by (cases x)
  obtain g u where g: "GetRange store ctx k i j s = (g, u)" by fastforce
  from GetRange_step [OF Cons.prems(1) g] have u: "invar u" "env (view s) (view u)" by auto
  show ?case
  proof (cases "u = t")
    case False
    with Cons.prems g x obtain d where "download_parts store ctx k rs d u = (r, t)"
      by (auto split: prod.splits sum.splits)
    from Cons.IH [OF u(1) this] show ?thesis using env_trans [OF u(2)] by auto
  qed (use u in simp)
qed (simp add: env_refl)

lemma download_parts_spec:
  assumes "invar s" and "download_parts store ctx k rs dst s = (Inr c, t)"
    and "\<forall>(i, j) \<in> set rs. 0 \<le> i \<and> i \<le> j"
  shows "invar t \<and> env (view s) (view t) \<and>
    (\<exists>bs. length bs = length rs \<and> c = part_writes rs bs dst \<and>
       (\<forall>b \<in> set bs. \<exists>u. invar u \<and> env (view s) (view u) \<and> env (view u) (view t) \<and>
          body_at (view u) k = Some b))"
  using assms
proof (induction rs arbitrary: dst s)
  case Nil
  then show ?case by (simp add: env_refl)
next
  case (Cons r rs)
  obtain i j where r: "r = (i, j)" by (cases r)
  from Cons.prems(2) r obtain p u where g: "GetRange store ctx k i j s = (Inr (Inr p), u)"
    and rest: "download_parts store ctx k rs (write_at dst (nat i) p) u = (Inr c, t)"
    by (auto split: prod.splits sum.splits)
  from GetRange_step [OF Cons.prems(1) g] have u: "invar u" "env (view s) (view u)" by auto
  from GetRange_some [OF Cons.prems(1) g] Cons.prems(3) r obtain b e
    where b: "view u k = Some (b, e)" "p = take (nat (j + 1 - i)) (drop (nat i) b)" by auto
  from Cons.IH [OF u(1) rest] Cons.prems(3) obtain bs where t: "invar t" "env (view u) (view t)"
    and bs: "length bs = length rs" "c = part_writes rs bs (write_at dst (nat i) p)"
      "\<forall>b \<in> set bs. \<exists>x. invar x \<and> env (view u) (view x) \<and> env (view x) (view t) \<and>
         body_at (view x) k = Some b" by auto
  have "body_at (view u) k = Some b" using b by (simp add: body_at_def)
  then have "\<forall>b' \<in> set (b # bs). \<exists>x. invar x \<and> env (view s) (view x) \<and> env (view x) (view t) \<and>
      body_at (view x) k = Some b'"
    using bs(3) u t env_trans [OF u(2)] by auto
  moreover have "c = part_writes (r # rs) (b # bs) dst" using bs(2) b(2) r by simp
  ultimately show ?case using t bs(1) env_trans [OF u(2) t(2)] by (metis length_Cons)
qed

lemma downloadSingle_frame:
  assumes "invar s" and "downloadSingle store ctx k s = (r, t)"
  shows "invar t \<and> env (view s) (view t)"
proof -
  obtain g u where g: "Get store ctx k s = (g, u)" by fastforce
  with assms(2) have "u = t" by (auto simp: downloadSingle_def split: sum.splits)
  with Get_step [OF assms(1) g] show ?thesis by simp
qed

lemma downloadSingle_spec:
  assumes "invar s" and "downloadSingle store ctx k s = (Inr c, t)"
  shows "invar t \<and> env (view s) (view t) \<and> body_at (view t) k = Some c"
  using assms Get_step [of s ctx k] Get_some [of s ctx k]
  by (fastforce simp: downloadSingle_def body_at_def split: prod.splits sum.splits)

lemma fetch_all_spec:
  assumes "invar s" and "fetch_all store ctx es s = (Inr bs, t)"
  shows "invar t \<and> env (view s) (view t) \<and> length bs = length es \<and>
    (\<forall>i < length es. \<exists>u. invar u \<and> env (view s) (view u) \<and> env (view u) (view t) \<and>
       body_at (view u) (eKey (es ! i)) = Some (bs ! i))"
  using assms
proof (induction es arbitrary: s bs)
  case Nil
  then show ?case by (simp add: env_refl)
next
  case (Cons e es)
  from Cons.prems(2) obtain b x u bs' where g: "Get store ctx (eKey e) s = (Inr (Inr b, x), u)"
    and f: "fetch_all store ctx es u = (Inr bs', t)" and bs: "bs = b # bs'"
    by (auto split: prod.splits sum.splits)
  from Get_step [OF Cons.prems(1) g] have u: "invar u" "env (view s) (view u)" by auto
  from Get_some [OF Cons.prems(1) g] have b: "body_at (view u) (eKey e) = Some b"
    by (auto simp: body_at_def)
  from Cons.IH [OF u(1) f] have t: "invar t" "env (view u) (view t)" "length bs' = length es"
    and rd: "\<And>i. i < length es \<Longrightarrow> \<exists>x. invar x \<and> env (view u) (view x) \<and> env (view x) (view t) \<and>
      body_at (view x) (eKey (es ! i)) = Some (bs' ! i)" by auto
  have "\<exists>x. invar x \<and> env (view s) (view x) \<and> env (view x) (view t) \<and>
      body_at (view x) (eKey ((e # es) ! i)) = Some (bs ! i)" if "i < length (e # es)" for i
  proof (cases i)
    case 0
    then show ?thesis using u t b bs by auto
  next
    case (Suc n)
    then have "n < length es" using that by simp
    from rd [OF this] obtain x where "invar x" "env (view u) (view x)" "env (view x) (view t)"
      "body_at (view x) (eKey (es ! n)) = Some (bs' ! n)" by blast
    then show ?thesis using env_trans [OF u(2)] Suc bs by auto
  qed
  then show ?case using t bs env_trans [OF u(2) t(2)] by simp
qed

lemma fetch_all_fail:
  "invar s \<Longrightarrow> fetch_all store ctx es s = (Inl x, t) \<Longrightarrow> invar t \<and> env (view s) (view t)"
proof (induction es arbitrary: s)
  case (Cons e es)
  obtain r u where g: "Get store ctx (eKey e) s = (r, u)" by fastforce
  from Get_step [OF Cons.prems(1) g] have u: "invar u" "env (view s) (view u)" by auto
  show ?case
  proof (cases "u = t")
    case False
    with Cons.prems g have "fetch_all store ctx es u = (Inl x, t)"
      by (auto split: prod.splits sum.splits)
    from Cons.IH [OF u(1) this] show ?thesis using env_trans [OF u(2)] by auto
  qed (use u in simp)
qed simp

end

end
