(* ===== verification/Coherence.thy ===== *)
theory Coherence
  imports Sync
begin

text \<open>
  What it means for the objects under a prefix to be a database, and how other clients may
  change them.  A store is coherent when its manifest is valid and every state it describes
  can be replayed.  Other clients either extend the log of the current snapshot and leave
  what it references alone, or move on to a younger snapshot, after which anything the old
  one referenced may be gone.  Both are relations on the flat view of the store, so they
  hold of any store that keeps the contract of \<^verbatim>\<open>BlobStore\<close>.
\<close>

section \<open>Coherent stores\<close>

text \<open>The manifest as every client reads it.\<close>

definition man :: "string \<Rightarrow> objs \<Rightarrow> manifest option" where
  "man mk v =
     (case v mk of None \<Rightarrow> None
      | Some (b, e) \<Rightarrow>
          (case decode_manifest (Inr b) of Inl x \<Rightarrow> None
           | Inr m \<Rightarrow> (case validate m of None \<Rightarrow> Some m | Some x \<Rightarrow> None)))"

definition refs :: "manifest \<Rightarrow> string set" where
  "refs m = insert (bKey (Snapshot m)) (eKey ` set (Log m))"

text \<open>The size a manifest records is the size of the object, where a download relies on it.\<close>

definition size_ok :: "objs \<Rightarrow> blobRef \<Rightarrow> bool" where
  "size_ok v r \<longleftrightarrow>
     (parallelDownloadThreshold \<le> bSize r \<longrightarrow>
        map_option (\<lambda>b. int (length b)) (body_at v (bKey r)) = Some (bSize r))"

text \<open>The changesets of the log were recorded by sessions.\<close>

definition log_recorded :: "'db ext \<Rightarrow> objs \<Rightarrow> logEntry list \<Rightarrow> bool" where
  "log_recorded X v es \<longleftrightarrow> (\<forall>e \<in> set es. \<forall>b. body_at v (eKey e) = Some b \<longrightarrow> recorded X b)"

definition coherent :: "'db ext \<Rightarrow> string \<Rightarrow> objs \<Rightarrow> bool" where
  "coherent X mk v =
     (case man mk v of None \<Rightarrow> False
      | Some m \<Rightarrow> manifest_inv m \<and> wire_ok m \<and> mk \<notin> refs m \<and> replay X v m \<noteq> None \<and>
          size_ok v (Snapshot m) \<and> log_recorded X v (Log m))"

text \<open>The sequence number can still be advanced.\<close>

definition room :: "string \<Rightarrow> objs \<Rightarrow> bool" where
  "room mk v = (case man mk v of None \<Rightarrow> True | Some m \<Rightarrow> Seq m < max_int64)"

section \<open>Evolution\<close>

definition extends :: "manifest \<Rightarrow> manifest \<Rightarrow> bool" where
  "extends m m' \<longleftrightarrow> Snapshot m' = Snapshot m \<and> (\<exists>es. Log m' = Log m @ es)"

text \<open>
  \<open>gen\<close> is the order in which snapshots were created; \<open>K\<close> gives, for an epoch, the keys
  another client uses for changesets it has uploaded but not yet committed.
\<close>

definition evolves :: "(string \<Rightarrow> nat) \<Rightarrow> string \<Rightarrow> (string \<Rightarrow> string set) \<Rightarrow> objs \<Rightarrow> objs \<Rightarrow> bool" where
  "evolves gen mk K u v \<longleftrightarrow>
     (\<forall>m. man mk u = Some m \<longrightarrow>
        (\<exists>m'. man mk v = Some m' \<and> refs m' \<inter> (\<Union>ep. K ep) \<subseteq> refs m \<and>
           (extends m m' \<and> (\<forall>k \<in> refs m \<union> K (epoch m). body_at v k = body_at u k) \<or>
            gen (bKey (Snapshot m)) < gen (bKey (Snapshot m')))))"

text \<open>A manifest seen earlier is an initial part of the current one, or of an older snapshot.\<close>

definition tracks :: "string \<Rightarrow> objs \<Rightarrow> manifest \<Rightarrow> bool" where
  "tracks mk v m = (case man mk v of None \<Rightarrow> False | Some m' \<Rightarrow> extends m m')"

definition stale :: "(string \<Rightarrow> nat) \<Rightarrow> string \<Rightarrow> objs \<Rightarrow> manifest \<Rightarrow> bool" where
  "stale gen mk v m =
     (case man mk v of None \<Rightarrow> False
      | Some m' \<Rightarrow> gen (bKey (Snapshot m)) < gen (bKey (Snapshot m')))"

definition sees :: "(string \<Rightarrow> nat) \<Rightarrow> string \<Rightarrow> objs \<Rightarrow> manifest \<Rightarrow> bool" where
  "sees gen mk v m \<longleftrightarrow> tracks mk v m \<or> stale gen mk v m"

text \<open>The content at a sequence number of the log.\<close>

definition replay_to :: "'db ext \<Rightarrow> objs \<Rightarrow> manifest \<Rightarrow> int \<Rightarrow> 'db option" where
  "replay_to X v m q =
     (case base_of X v (Snapshot m) of None \<Rightarrow> None
      | Some d \<Rightarrow> apply_entries X v (take (nat (q - bSeq (Snapshot m))) (Log m)) d)"

section \<open>Lemmas\<close>

subsection \<open>Manifests in a view\<close>

lemma man_eq:
  "man mk v = Some m \<longleftrightarrow>
     (\<exists>b e. v mk = Some (b, e) \<and> decode_manifest (Inr b) = Inr m \<and> validate m = None)"
  by (auto simp: man_def split: option.splits sum.splits)

lemma man_cong: "v mk = u mk \<Longrightarrow> man mk v = man mk u"
  by (simp add: man_def)

lemma man_upd [simp]: "k \<noteq> mk \<Longrightarrow> man mk (v(k := x)) = man mk v"
  by (simp add: man_def)

lemma man_put:
  assumes "wire_ok m" and "validate m = None"
  shows "man mk (v(mk \<mapsto> (encode_manifest m, e))) = Some m"
  using assms by (simp add: man_eq decode_encode_manifest)

lemma coherent_man:
  assumes "coherent X mk v"
  obtains m where "man mk v = Some m" "manifest_inv m" "wire_ok m" "mk \<notin> refs m"
    "size_ok v (Snapshot m)" "replay X v m \<noteq> None" "log_recorded X v (Log m)"
  using assms by (auto simp: coherent_def split: option.splits)

lemma epoch_cong: "Snapshot m = Snapshot m' \<Longrightarrow> epoch m = epoch m'"
  by (simp add: epoch_def)

subsection \<open>Extension\<close>

lemma extends_refl [simp]: "extends m m"
  by (simp add: extends_def)

lemma extends_trans: "extends m m' \<Longrightarrow> extends m' m'' \<Longrightarrow> extends m m''"
  by (auto simp: extends_def)

lemma extends_refs: "extends m m' \<Longrightarrow> refs m \<subseteq> refs m'"
  by (auto simp: extends_def refs_def)

lemma extends_appendLog [simp]: "extends m (stamp (appendLog m e))"
  by (simp add: extends_def appendLog_def)

subsection \<open>Replays\<close>

lemma replay_cong:
  "(\<And>k. k \<in> refs m \<Longrightarrow> body_at v k = body_at u k) \<Longrightarrow> replay X v m = replay X u m"
  unfolding replay_def using base_of_cong [of v "Snapshot m" u X] apply_entries_cong [of "Log m" v u X]
  by (auto simp: refs_def split: option.splits)

lemma replay_to_cong:
  assumes "\<And>k. k \<in> refs m \<Longrightarrow> body_at v k = body_at u k"
  shows "replay_to X v m q = replay_to X u m q"
proof -
  have "base_of X v (Snapshot m) = base_of X u (Snapshot m)"
    using assms by (intro base_of_cong) (simp add: refs_def)
  moreover have "apply_entries X v (take n (Log m)) d = apply_entries X u (take n (Log m)) d" for n d
    using assms by (intro apply_entries_cong) (auto simp: refs_def dest: in_set_takeD)
  ultimately show ?thesis by (simp add: replay_to_def split: option.splits)
qed

lemma replay_to_Seq: "manifest_inv m \<Longrightarrow> replay_to X v m (Seq m) = replay X v m"
  by (simp add: replay_to_def replay_def manifest_inv_def split: option.splits)

lemma replay_to_extends:
  assumes "extends m m'" and "manifest_inv m" and "q \<le> Seq m"
  shows "replay_to X v m' q = replay_to X v m q"
proof -
  from assms(1) obtain es where "Snapshot m' = Snapshot m" "Log m' = Log m @ es"
    by (auto simp: extends_def)
  moreover have "nat (q - bSeq (Snapshot m)) \<le> length (Log m)"
    using assms(2,3) by (simp add: manifest_inv_def)
  ultimately show ?thesis by (simp add: replay_to_def split: option.splits)
qed

lemma replay_to_some:
  assumes "replay X v m \<noteq> None"
  shows "\<exists>d. replay_to X v m q = Some d"
proof -
  from assms obtain d0 where "base_of X v (Snapshot m) = Some d0" and "apply_entries X v (Log m) d0 \<noteq> None"
    by (auto simp: replay_def split: option.splits)
  then show ?thesis
    using apply_entries_append [of X v "take (nat (q - bSeq (Snapshot m))) (Log m)"
        "drop (nat (q - bSeq (Snapshot m))) (Log m)" d0]
    by (auto simp: replay_to_def split: option.splits)
qed

text \<open>Going on from one sequence number to a later one applies the entries between.\<close>

lemma replay_to_step:
  assumes "bSeq (Snapshot m) \<le> q" and "q \<le> q'"
  shows "replay_to X v m q' =
    (case replay_to X v m q of None \<Rightarrow> None
     | Some d \<Rightarrow> apply_entries X v
         (take (nat (q' - q)) (drop (nat (q - bSeq (Snapshot m))) (Log m))) d)"
proof -
  have "nat (q' - bSeq (Snapshot m)) = nat (q - bSeq (Snapshot m)) + nat (q' - q)"
    using assms by simp
  then show ?thesis
    by (simp add: replay_to_def take_add apply_entries_append split: option.splits)
qed

lemma coherent_replay_to:
  assumes "coherent X mk v" and "tracks mk v m" and "manifest_inv m" and "q \<le> Seq m"
  shows "\<exists>d. replay_to X v m q = Some d"
proof -
  from assms(1) obtain m' where m': "man mk v = Some m'" "replay X v m' \<noteq> None"
    by (rule coherent_man)
  with assms(2) have "extends m m'" by (simp add: tracks_def)
  with replay_to_some [OF m'(2), of q] replay_to_extends [OF _ assms(3,4)] show ?thesis by metis
qed

subsection \<open>Evolution\<close>

lemma evolves_man:
  assumes "evolves gen mk K u v" and "man mk u = Some m"
  obtains m' where "man mk v = Some m'" "refs m' \<inter> (\<Union>ep. K ep) \<subseteq> refs m"
    "extends m m' \<and> (\<forall>k \<in> refs m \<union> K (epoch m). body_at v k = body_at u k) \<or>
     gen (bKey (Snapshot m)) < gen (bKey (Snapshot m'))"
  using assms by (auto simp: evolves_def)

lemma evolves_refl: "evolves gen mk K v v"
  by (auto simp: evolves_def)

lemma evolves_trans:
  assumes uv: "evolves gen mk K u v" and vw: "evolves gen mk K v w"
  shows "evolves gen mk K u w"
  unfolding evolves_def
proof (intro allI impI)
  fix m assume m: "man mk u = Some m"
  from uv m obtain m1 where m1: "man mk v = Some m1" "refs m1 \<inter> (\<Union>ep. K ep) \<subseteq> refs m"
    and b1: "extends m m1 \<and> (\<forall>k \<in> refs m \<union> K (epoch m). body_at v k = body_at u k) \<or>
       gen (bKey (Snapshot m)) < gen (bKey (Snapshot m1))"
    by (rule evolves_man)
  from vw m1(1) obtain m2 where m2: "man mk w = Some m2" "refs m2 \<inter> (\<Union>ep. K ep) \<subseteq> refs m1"
    and b2: "extends m1 m2 \<and> (\<forall>k \<in> refs m1 \<union> K (epoch m1). body_at w k = body_at v k) \<or>
       gen (bKey (Snapshot m1)) < gen (bKey (Snapshot m2))"
    by (rule evolves_man)
  have K: "refs m2 \<inter> (\<Union>ep. K ep) \<subseteq> refs m" using m1(2) m2(2) by blast
  have "extends m m2 \<and> (\<forall>k \<in> refs m \<union> K (epoch m). body_at w k = body_at u k) \<or>
      gen (bKey (Snapshot m)) < gen (bKey (Snapshot m2))"
  proof (cases "gen (bKey (Snapshot m)) < gen (bKey (Snapshot m2))")
    case False
    with b1 b2 have e: "extends m m1" "extends m1 m2"
      by (auto simp: extends_def)
    from b1 b2 e False have b: "\<forall>k \<in> refs m \<union> K (epoch m). body_at v k = body_at u k"
      "\<forall>k \<in> refs m1 \<union> K (epoch m1). body_at w k = body_at v k"
      by (auto simp: extends_def)
    have "epoch m1 = epoch m" using e by (intro epoch_cong) (simp add: extends_def)
    with b extends_refs [OF e(1)] have "\<forall>k \<in> refs m \<union> K (epoch m). body_at w k = body_at u k"
      by auto
    with extends_trans [OF e] show ?thesis by simp
  qed simp
  with m2(1) K show "\<exists>m'. man mk w = Some m' \<and> refs m' \<inter> (\<Union>ep. K ep) \<subseteq> refs m \<and>
      (extends m m' \<and> (\<forall>k \<in> refs m \<union> K (epoch m). body_at w k = body_at u k) \<or>
       gen (bKey (Snapshot m)) < gen (bKey (Snapshot m')))" by blast
qed

lemma tracks_current: "man mk v = Some m \<Longrightarrow> tracks mk v m"
  by (simp add: tracks_def)

lemma sees_current: "man mk v = Some m \<Longrightarrow> sees gen mk v m"
  by (simp add: sees_def tracks_current)

lemma sees_evolves:
  assumes "evolves gen mk K u v" and "sees gen mk u m"
  shows "sees gen mk v m"
proof -
  from assms(2) obtain m1 where m1: "man mk u = Some m1"
    "extends m m1 \<or> gen (bKey (Snapshot m)) < gen (bKey (Snapshot m1))"
    by (auto simp: sees_def tracks_def stale_def split: option.splits)
  from evolves_man [OF assms(1) m1(1)] obtain m2 where m2: "man mk v = Some m2"
    "extends m1 m2 \<or> gen (bKey (Snapshot m1)) < gen (bKey (Snapshot m2))" by metis
  have "extends m m2 \<or> gen (bKey (Snapshot m)) < gen (bKey (Snapshot m2))"
    using m1(2) m2(2) extends_trans by (auto simp: extends_def)
  with m2(1) show ?thesis by (auto simp: sees_def tracks_def stale_def)
qed

text \<open>What a manifest references is fixed for as long as its snapshot is the current one.\<close>

lemma stable:
  assumes "evolves gen mk K u v" and "sees gen mk u m" and "tracks mk v m"
  shows "tracks mk u m" and "\<And>k. k \<in> refs m \<union> K (epoch m) \<Longrightarrow> body_at v k = body_at u k"
proof -
  from assms(2) obtain m1 where m1: "man mk u = Some m1"
    "extends m m1 \<or> gen (bKey (Snapshot m)) < gen (bKey (Snapshot m1))"
    by (auto simp: sees_def tracks_def stale_def split: option.splits)
  from evolves_man [OF assms(1) m1(1)] obtain m2 where m2: "man mk v = Some m2"
    and b: "extends m1 m2 \<and> (\<forall>k \<in> refs m1 \<union> K (epoch m1). body_at v k = body_at u k) \<or>
      gen (bKey (Snapshot m1)) < gen (bKey (Snapshot m2))" by metis
  from assms(3) m2 have "Snapshot m2 = Snapshot m" by (simp add: tracks_def extends_def)
  with m1(2) b have e: "extends m m1" "extends m1 m2"
    "\<forall>k \<in> refs m1 \<union> K (epoch m1). body_at v k = body_at u k"
    by (auto simp: extends_def)
  from e(1) m1(1) show "tracks mk u m" by (simp add: tracks_def)
  have "epoch m1 = epoch m" using e(1) by (intro epoch_cong) (simp add: extends_def)
  with e(3) extends_refs [OF e(1)] show "\<And>k. k \<in> refs m \<union> K (epoch m) \<Longrightarrow> body_at v k = body_at u k"
    by auto
qed

lemma sees_not_stale:
  assumes "sees gen mk v m" and "man mk v = Some m'" and "bKey (Snapshot m') = bKey (Snapshot m)"
  shows "extends m m'"
  using assms by (auto simp: sees_def tracks_def stale_def)

subsection \<open>Writes beside the database\<close>

text \<open>A change of one object that no manifest references.\<close>

lemma unref_write:
  assumes "man mk v = Some m" and "k \<noteq> mk" and "k \<notin> refs m"
  shows "coherent X mk (v(k := x)) = coherent X mk v" and "room mk (v(k := x)) = room mk v"
    and "(\<And>ep. k \<notin> K ep) \<Longrightarrow> evolves gen mk K v (v(k := x))"
proof -
  have b: "body_at (v(k := x)) k' = body_at v k'" if "k' \<noteq> k" for k'
    using that by (simp add: body_at_def)
  have "replay X (v(k := x)) m = replay X v m"
    using assms(3) by (intro replay_cong b) auto
  moreover have "size_ok (v(k := x)) (Snapshot m) = size_ok v (Snapshot m)"
    using b assms(3) by (auto simp: size_ok_def refs_def)
  moreover have "log_recorded X (v(k := x)) (Log m) = log_recorded X v (Log m)"
  proof -
    have "body_at (v(k := x)) (eKey e) = body_at v (eKey e)" if "e \<in> set (Log m)" for e
      using that assms(3) by (intro b) (auto simp: refs_def)
    then show ?thesis by (simp add: log_recorded_def)
  qed
  ultimately show "coherent X mk (v(k := x)) = coherent X mk v"
    using assms by (simp add: coherent_def)
  show "room mk (v(k := x)) = room mk v" using assms(2) by (simp add: room_def)
  show "evolves gen mk K v (v(k := x))" if "\<And>ep. k \<notin> K ep"
    using that assms b by (fastforce simp: evolves_def)
qed

end
