(* ===== verification/Session.thy ===== *)
theory Session
  imports Runtime Strconv
begin

text \<open>
  \<^verbatim>\<open>session.go\<close>: running a closure under a session and reading the changeset off.  The
  query of \<^verbatim>\<open>findPKlessTables\<close> is translated over the rows of \<^verbatim>\<open>sqlite_master\<close> joined with
  \<^verbatim>\<open>pragma_table_info\<close>.
\<close>

definition lower :: "char \<Rightarrow> char" where
  "lower c = (if 65 \<le> (of_char c :: nat) \<and> (of_char c :: nat) \<le> 90
              then char_of ((of_char c :: nat) + 32) else c)"

text \<open>SQL's \<^verbatim>\<open>name LIKE 'sqlite_%'\<close>: \<^verbatim>\<open>_\<close> stands for any one character.\<close>

definition like_sqlite :: "string \<Rightarrow> bool" where
  "like_sqlite n \<longleftrightarrow> 7 \<le> length n \<and> map lower (take 6 n) = ''sqlite''"

definition findPKlessTables :: "table_info list \<Rightarrow> string list" where
  "findPKlessTables rows =
     (let tables = filter (\<lambda>t. tbl_type t = ''table'') rows;
          withPK = map tbl_name (filter (\<lambda>t. \<exists>p \<in> set (tbl_pks t). 0 < p) tables)
      in sort (map tbl_name
           (filter (\<lambda>t. \<not> like_sqlite (tbl_name t) \<and> tbl_name t \<notin> set withPK) tables)))"

text \<open>
  \<^verbatim>\<open>capture\<close>: the changeset (\<open>None\<close> for an empty one) or an error, and the connection with
  the effects of the closure on it.
\<close>

definition capture ::
  "'db ext \<Rightarrow> 'db conn \<Rightarrow> 'db txn \<Rightarrow> 's world \<Rightarrow> bytes option result \<times> 'db conn \<times> 's world" where
  "capture X conn fn w =
     (case conn of
        OpenConn d \<Rightarrow>
          (case local_call w of
             (Some e, w) \<Rightarrow> (Inl (Wrapped ''capture: create session'' e), conn, w)
           | (None, w) \<Rightarrow>
               (case local_call w of
                  (Some e, w) \<Rightarrow> (Inl (Wrapped ''capture: attach'' e), conn, w)
                | (None, w) \<Rightarrow>
                    (case fn d of
                       (Some e, d', n) \<Rightarrow> (Inl e, OpenConn d', w)
                     | (None, d', delta) \<Rightarrow>
                         (case local_call w of
                            (Some e, w) \<Rightarrow>
                              (Inl (Wrapped ''capture: write changeset'' e), OpenConn d', w)
                          | (None, w) \<Rightarrow>
                              (let buf = sq_changeset X d d'; pkless = findPKlessTables (sq_master X d')
                               in if buf = [] then
                                    (if 0 < delta \<and> pkless \<noteq> []
                                     then (Inl (ErrUnrecordedChanges delta pkless), OpenConn d', w)
                                     else (Inr None, OpenConn d', w))
                                  else (Inr (Some buf), OpenConn d', w))))))
      | _ \<Rightarrow> (Inl (Wrapped ''capture: create session'' (OtherErr ''sqlite: connection is closed'')), conn, w))"

lemma capture_frame:
  "capture X c fn w = (r, c', w') \<Longrightarrow>
     w_store w' = w_store w \<and> w_disk w' = w_disk w \<and> w_uuid w' = w_uuid w"
  by (auto simp: capture_def Let_def dest!: local_call_frame
      split: conn.splits prod.splits option.splits if_splits)

lemma capture_changeset:
  assumes "capture X c fn w = (Inr (Some cs), c', w')"
  obtains d d' n where "c = OpenConn d" "c' = OpenConn d'" "fn d = (None, d', n)"
    "cs = sq_changeset X d d'" "cs \<noteq> []"
  using assms that
  by (auto simp: capture_def Let_def split: conn.splits prod.splits option.splits if_splits)

lemma capture_empty:
  assumes "capture X c fn w = (Inr None, c', w')"
  obtains d d' n where "c = OpenConn d" "c' = OpenConn d'" "fn d = (None, d', n)"
    "sq_changeset X d d' = []"
  using assms that
  by (auto simp: capture_def Let_def split: conn.splits prod.splits option.splits if_splits)

lemma capture_conn_open:
  "capture X (OpenConn d) fn w = (r, c', w') \<Longrightarrow> \<exists>d'. c' = OpenConn d'"
  by (auto simp: capture_def Let_def split: prod.splits option.splits if_splits)

text \<open>\<^verbatim>\<open>ErrUnrecordedChanges.Error\<close>; the dash is U+2014 in UTF-8.\<close>

fun strings_Join :: "string list \<Rightarrow> string \<Rightarrow> string" where
  "strings_Join [] sep = ''''"
| "strings_Join [x] sep = x"
| "strings_Join (x # y # xs) sep = x @ sep @ strings_Join (y # xs) sep"

definition ErrUnrecordedChanges_Error :: "int \<Rightarrow> string list \<Rightarrow> string" where
  "ErrUnrecordedChanges_Error rows tables =
     ''s3db: '' @ FormatInt rows @ '' row(s) modified but not captured '' @ [CHR 0xE2, CHR 0x80, CHR 0x94] @ '' '' @
     ''SQLite sessions skip tables without a PRIMARY KEY. '' @
     ''Tables missing a PK: '' @ strings_Join tables '', '' @ ''. '' @
     ''Fix: ALTER TABLE or add 'id INTEGER PRIMARY KEY'.''"

section \<open>What a session misses\<close>












end
