(* ===== verification/Commit.thy ===== *)
theory Commit
  imports Sync Session
begin

text \<open>
  \<^verbatim>\<open>commit.go\<close>: synchronising the local database to a manifest, refreshing the manifest, and
  the commit loop \<^verbatim>\<open>doUpdate\<close>.  A \<^verbatim>\<open>SAVEPOINT\<close> is the content to roll back to, kept in the
  loop state's \<open>release\<close> as long as it is open.  The \<^verbatim>\<open>select\<close> of the backoff, the
  \<^verbatim>\<open>SAVEPOINT\<close> and \<^verbatim>\<open>RELEASE\<close> statements and the other local calls take their outcome from the
  world.  So a context that is cancelled at some moment of a call is the failure of the local
  and store calls that come after that moment: the connection carries the context's interrupt
  during \<^verbatim>\<open>doUpdate\<close>, and a cancelled statement fails.
\<close>

section \<open>State\<close>

record 's commitConfig =
  cfg_store :: "'s BlobStore"
  cfg_prefix :: string
  manifestKey :: string
  maxRetries :: int
  schemaVer :: int

record 'db commitState =
  st_conn :: "'db conn"
  localSeq :: int
  snapshotKey :: string
  st_manifest :: manifest
  st_etag :: string

section \<open>Synchronising\<close>

definition openLocalConn :: "'db ext \<Rightarrow> string \<Rightarrow> 's world \<Rightarrow> 'db result \<times> 's world" where
  "openLocalConn X path w = sqlite_OpenConn X path w"

definition needRefresh :: "'db commitState \<Rightarrow> bool" where
  "needRefresh st \<longleftrightarrow>
     (case st_conn st of NilConn \<Rightarrow> True | _ \<Rightarrow> False) \<or>
     localSeq st < bSeq (Snapshot (st_manifest st)) \<or>
     snapshotKey st \<noteq> bKey (Snapshot (st_manifest st))"

text \<open>The \<^verbatim>\<open>if needRefresh\<close> block of \<^verbatim>\<open>syncToManifest\<close>.\<close>

definition fullRefresh ::
  "'db ext \<Rightarrow> 's commitConfig \<Rightarrow> ctx \<Rightarrow> string \<Rightarrow> 'db commitState \<Rightarrow> 's world \<Rightarrow>
     err option \<times> 'db commitState \<times> 's world" where
  "fullRefresh X cfg ctx localPath st w =
     (let snap = Snapshot (st_manifest st)
      in case (case st_conn st of NilConn \<Rightarrow> (None, w) | c \<Rightarrow> conn_Close X localPath c w) of
           (Some e, w) \<Rightarrow>
             (Some (Wrapped ''sync: close for refresh'' e), st\<lparr>st_conn := ClosedConn\<rparr>, w)
         | (None, w) \<Rightarrow>
             (let st = st\<lparr>st_conn := NilConn\<rparr>
              in case downloadSnapshot (cfg_store cfg) ctx (bKey snap) (bSize snap) localPath w of
                   (Some e, w) \<Rightarrow> (Some e, st, w)
                 | (None, w) \<Rightarrow>
                     (case openLocalConn X localPath w of
                        (Inl e, w) \<Rightarrow> (Some (Wrapped ''sync: reopen after refresh'' e), st, w)
                      | (Inr d, w) \<Rightarrow>
                          (None, st\<lparr>st_conn := OpenConn d, localSeq := bSeq snap,
                                    snapshotKey := bKey snap\<rparr>, w))))"

definition syncToManifest ::
  "'db ext \<Rightarrow> 's commitConfig \<Rightarrow> ctx \<Rightarrow> string \<Rightarrow> 'db commitState \<Rightarrow> 's world \<Rightarrow>
     err option \<times> 'db commitState \<times> 's world" where
  "syncToManifest X cfg ctx localPath st w =
     (case (if needRefresh st then fullRefresh X cfg ctx localPath st w else (None, st, w)) of
        (Some e, st, w) \<Rightarrow> (Some e, st, w)
      | (None, st, w) \<Rightarrow>
          (case applyLog X (cfg_store cfg) ctx (Log (st_manifest st)) (localSeq st) (st_conn st)
                  (w_store w) of
             ((seq, r), c, s) \<Rightarrow>
               (r, st\<lparr>localSeq := seq, st_conn := c\<rparr>, w\<lparr>w_store := s\<rparr>)))"

definition schemaCheck :: "int \<Rightarrow> manifest \<Rightarrow> err option" where
  "schemaCheck ver m =
     (if SchemaVersion m \<noteq> ver then
        (if ver < SchemaVersion m then Some (Wrapped ''database at schema'' ErrSchemaTooNew)
         else Some (Wrapped ''database at schema'' ErrSchemaMismatch))
      else None)"

definition refreshManifest ::
  "'db ext \<Rightarrow> 's commitConfig \<Rightarrow> ctx \<Rightarrow> string \<Rightarrow> 'db commitState \<Rightarrow> 's world \<Rightarrow>
     err option \<times> 'db commitState \<times> 's world" where
  "refreshManifest X cfg ctx localPath st w =
     (case on_store (loadManifest (cfg_store cfg) ctx (manifestKey cfg)) w of
        (Inl e, w) \<Rightarrow> (Some e, st, w)
      | (Inr (m, etag), w) \<Rightarrow>
          (case schemaCheck (schemaVer cfg) m of
             Some e \<Rightarrow> (Some e, st, w)
           | None \<Rightarrow>
               syncToManifest X cfg ctx localPath (st\<lparr>st_manifest := m, st_etag := etag\<rparr>) w))"

section \<open>The commit loop\<close>

record 'db loopState =
  needCapture :: bool
  ls_cs :: bytes
  csKey :: string
  release :: "'db option"
  orphan :: string

definition initLoop :: "'db loopState" where
  "initLoop = \<lparr>needCapture = True, ls_cs = [], csKey = '''', release = None, orphan = ''''\<rparr>"

text \<open>The delay before retry \<open>attempt\<close>, in nanoseconds; \<open>jitter\<close> is drawn below the base.\<close>

definition backoff_base :: "nat \<Rightarrow> int" where
  "backoff_base attempt = 2 ^ min (attempt - 1) 6 * 10 * 1000000"

definition backoff_delay :: "nat \<Rightarrow> int \<Rightarrow> int" where
  "backoff_delay attempt jitter = backoff_base attempt div 2 + jitter"

text \<open>Waiting ends with the timer or with the error of the context.\<close>

definition backoff_wait :: "nat \<Rightarrow> 's world \<Rightarrow> err option \<times> 's world" where
  "backoff_wait attempt w =
     (if attempt = 0 then (None, w)
      else case w_io w of [] \<Rightarrow> (None, w) | x # xs \<Rightarrow> (map_option CtxErr x, w\<lparr>w_io := xs\<rparr>))"

text \<open>Rolling back to the savepoint.\<close>

definition rollback :: "'db option \<Rightarrow> 'db commitState \<Rightarrow> 'db commitState" where
  "rollback saved st = (case saved of None \<Rightarrow> st | Some d \<Rightarrow> st\<lparr>st_conn := OpenConn d\<rparr>)"

text \<open>
  The function that \<^verbatim>\<open>sqlitex.Save\<close> returns, called with a nil error: it runs \<^verbatim>\<open>RELEASE\<close>, and
  if that statement is interrupted it stores the error and rolls back.  The rollback itself runs
  with the interrupt taken off; a rollback that fails panics, which is not modelled.
\<close>

definition releaseSave ::
  "'db option \<Rightarrow> 'db commitState \<Rightarrow> 's world \<Rightarrow> err option \<times> 'db commitState \<times> 's world" where
  "releaseSave saved st w =
     (case local_call w of
        (None, w) \<Rightarrow> (None, st, w)
      | (Some e, w) \<Rightarrow> (Some e, rollback saved st, w))"

definition applyMissingEntry ::
  "'db ext \<Rightarrow> 's BlobStore \<Rightarrow> ctx \<Rightarrow> logEntry \<Rightarrow> 'db conn \<Rightarrow> 's \<Rightarrow>
     err option \<times> 'db conn \<times> 's" where
  "applyMissingEntry X store ctx e conn s =
     (case Get store ctx (eKey e) s of
        (Inl x, t) \<Rightarrow> (Some (Wrapped ''fetch changeset'' x), conn, t)
      | (Inr (Inl x, etag), t) \<Rightarrow> (Some (Wrapped ''read changeset'' x), conn, t)
      | (Inr (Inr b, etag), t) \<Rightarrow>
          (case applyChangeset X conn b conflictAbort of (r, c) \<Rightarrow> (r, c, t)))"

text \<open>The rebase: \<open>Inr True\<close> if clean, \<open>Inr False\<close> on a conflict, \<open>Inl\<close> another error.\<close>

fun rebase ::
  "'db ext \<Rightarrow> 's BlobStore \<Rightarrow> ctx \<Rightarrow> int \<Rightarrow> logEntry list \<Rightarrow> 'db conn \<Rightarrow> 's \<Rightarrow>
     bool result \<times> 'db conn \<times> 's" where
  "rebase X store ctx seq [] conn s = (Inr True, conn, s)"
| "rebase X store ctx seq (e # es) conn s =
     (if eSeq e \<le> seq then rebase X store ctx seq es conn s
      else case applyMissingEntry X store ctx e conn s of
          (Some x, c, t) \<Rightarrow> (if errors_As_conflict x then (Inr False, c, t) else (Inl x, c, t))
        | (None, c, t) \<Rightarrow> rebase X store ctx seq es c t)"

definition rollbackAndResync ::
  "'db ext \<Rightarrow> 's commitConfig \<Rightarrow> ctx \<Rightarrow> string \<Rightarrow> 'db option \<Rightarrow> manifest \<Rightarrow> string \<Rightarrow>
     'db commitState \<Rightarrow> 's world \<Rightarrow> err option \<times> 'db commitState \<times> 's world" where
  "rollbackAndResync X cfg ctx localPath saved m etag st w =
     syncToManifest X cfg ctx localPath
       ((rollback saved st)\<lparr>st_manifest := m, st_etag := etag\<rparr>) w"

text \<open>The outcome of one iteration: return, or go round again.\<close>

datatype loopStep = Return "err option" | Again

text \<open>The upload of phase 1: drop the previous orphan, write the changeset under a new key.\<close>

definition uploadChangeset ::
  "'db ext \<Rightarrow> 's commitConfig \<Rightarrow> ctx \<Rightarrow> bytes \<Rightarrow> 'db loopState \<Rightarrow> 'db commitState \<Rightarrow> 's world \<Rightarrow>
     loopStep \<times> 'db loopState \<times> 's world" where
  "uploadChangeset X cfg ctx cs ls st w =
     (let w = (if orphan ls = '''' then w
               else snd (on_store (Delete (cfg_store cfg) ctx (orphan ls)) w));
          (u, w) = new_uuid X w;
          key = cfg_prefix cfg @ ''changesets/'' @ epoch (st_manifest st) @ ''/cs-'' @ u @ ''.bin'';
          ls = ls\<lparr>ls_cs := cs, csKey := key, orphan := ''''\<rparr>
      in case on_store (Put (cfg_store cfg) ctx key (Inr cs) NoCondition) w of
           (Inl e, w) \<Rightarrow> (Return (Some (Wrapped ''upload changeset'' e)), ls, w)
         | (Inr _, w) \<Rightarrow> (Again, ls\<lparr>needCapture := False\<rparr>, w))"

text \<open>
  Phase 1: open the savepoint, run the closure, capture and upload its changeset.  When the
  \<^verbatim>\<open>SAVEPOINT\<close> statement is interrupted, nothing is open and the call ends with the error of the
  interrupt; the code still calls the closure, all of whose statements are interrupted too.
\<close>

definition phaseCapture ::
  "'db ext \<Rightarrow> 's commitConfig \<Rightarrow> ctx \<Rightarrow> 'db txn \<Rightarrow> 'db loopState \<Rightarrow> 'db commitState \<Rightarrow> 's world \<Rightarrow>
     loopStep \<times> 'db loopState \<times> 'db commitState \<times> 's world" where
  "phaseCapture X cfg ctx fn ls st w =
     (case st_conn st of
        OpenConn d \<Rightarrow>
          (case local_call w of
             (Some e, w) \<Rightarrow> (Return (Some e), ls, st, w)
           | (None, w) \<Rightarrow>
               (let ls = ls\<lparr>release := Some d\<rparr>
                in case capture X (st_conn st) fn w of
                     (Inl e, c, w) \<Rightarrow> (Return (Some e), ls, st\<lparr>st_conn := c\<rparr>, w)
                   | (Inr None, c, w) \<Rightarrow> (Return None, ls, st\<lparr>st_conn := c\<rparr>, w)
                   | (Inr (Some cs), c, w) \<Rightarrow>
                       (case uploadChangeset X cfg ctx cs ls (st\<lparr>st_conn := c\<rparr>) w of
                          (step, ls, w) \<Rightarrow> (step, ls, st\<lparr>st_conn := c\<rparr>, w))))
      | _ \<Rightarrow> (Return (Some (OtherErr ''panic: savepoint on a closed connection'')), ls, st, w))"

text \<open>Phase 3: another client committed; rebase on its manifest, or roll back and start over.\<close>

definition phaseRebase ::
  "'db ext \<Rightarrow> 's commitConfig \<Rightarrow> ctx \<Rightarrow> string \<Rightarrow> 'db loopState \<Rightarrow> 'db commitState \<Rightarrow> 's world \<Rightarrow>
     loopStep \<times> 'db loopState \<times> 'db commitState \<times> 's world" where
  "phaseRebase X cfg ctx localPath ls st w =
     (case on_store (loadManifest (cfg_store cfg) ctx (manifestKey cfg)) w of
        (Inl e, w) \<Rightarrow> (Return (Some e), ls, st, w)
      | (Inr (m2, etag2), w) \<Rightarrow>
          (let restart = (\<lambda>st w.
                 case rollbackAndResync X cfg ctx localPath (release ls) m2 etag2 st w of
                   (Some e, st, w) \<Rightarrow> (Return (Some e), ls\<lparr>release := None\<rparr>, st, w)
                 | (None, st, w) \<Rightarrow>
                     (Again, ls\<lparr>release := None, orphan := csKey ls, needCapture := True\<rparr>, st, w))
           in if localSeq st < bSeq (Snapshot m2) \<or> bKey (Snapshot m2) \<noteq> snapshotKey st
              then restart st w
              else case rebase X (cfg_store cfg) ctx (localSeq st) (Log m2) (st_conn st) (w_store w) of
                  (Inl e, c, s) \<Rightarrow>
                    (Return (Some e), ls, st\<lparr>st_conn := c\<rparr>, w\<lparr>w_store := s\<rparr>)
                | (Inr True, c, s) \<Rightarrow>
                    (Again, ls,
                     st\<lparr>st_conn := c, st_manifest := m2, st_etag := etag2, localSeq := Seq m2\<rparr>,
                     w\<lparr>w_store := s\<rparr>)
                | (Inr False, c, s) \<Rightarrow> restart (st\<lparr>st_conn := c\<rparr>) (w\<lparr>w_store := s\<rparr>)))"

text \<open>
  Phase 2: compare-and-swap of the manifest, then commit, fail or go to phase 3.  After the
  compare-and-swap the state is advanced before the savepoint is released, and nil is returned
  whatever the release reports: an interrupted \<^verbatim>\<open>RELEASE\<close> takes the connection back to the
  savepoint under the new sequence number.
\<close>

definition casManifest ::
  "'s commitConfig \<Rightarrow> ctx \<Rightarrow> 'db loopState \<Rightarrow> 'db commitState \<Rightarrow> 's world \<Rightarrow>
     (string result \<times> manifest) \<times> 's world" where
  "casManifest cfg ctx ls st w =
     on_store (putManifest (cfg_store cfg) ctx (manifestKey cfg)
                 (appendLog (st_manifest st)
                    \<lparr>eKey = csKey ls, eSeq = add64 (Seq (st_manifest st)) 1,
                     eSize = int (length (ls_cs ls))\<rparr>)
                 \<lparr>IfMatch = st_etag st, IfNoneMatch = False\<rparr>) w"

definition phaseCommit ::
  "'db ext \<Rightarrow> 's commitConfig \<Rightarrow> ctx \<Rightarrow> string \<Rightarrow> 'db loopState \<Rightarrow> 'db commitState \<Rightarrow> 's world \<Rightarrow>
     loopStep \<times> 'db loopState \<times> 'db commitState \<times> 's world" where
  "phaseCommit X cfg ctx localPath ls st w =
     (case casManifest cfg ctx ls st w of
        ((Inr newEtag, newManifest), w) \<Rightarrow>
          (case releaseSave (release ls)
                  (st\<lparr>st_manifest := newManifest, st_etag := newEtag,
                      localSeq := add64 (Seq (st_manifest st)) 1\<rparr>) w of
             (_, st, w) \<Rightarrow> (Return None, ls\<lparr>release := None\<rparr>, st, w))
      | ((Inl perr, _), w) \<Rightarrow>
          if \<not> errors_Is perr ErrPreconditionFailed
          then (Return (Some (Wrapped ''put manifest'' perr)), ls, st, w)
          else phaseRebase X cfg ctx localPath ls st w)"

text \<open>The backoff and phase 1 of an attempt, then the attempt.\<close>

definition beginAttempt ::
  "'db ext \<Rightarrow> 's commitConfig \<Rightarrow> ctx \<Rightarrow> 'db txn \<Rightarrow> nat \<Rightarrow>
     'db loopState \<Rightarrow> 'db commitState \<Rightarrow> 's world \<Rightarrow>
     loopStep \<times> 'db loopState \<times> 'db commitState \<times> 's world" where
  "beginAttempt X cfg ctx fn attempt ls st w =
     (case backoff_wait attempt w of
        (Some e, w) \<Rightarrow> (Return (Some e), ls, st, w)
      | (None, w) \<Rightarrow>
          (if needCapture ls then phaseCapture X cfg ctx fn ls st w else (Again, ls, st, w)))"

definition updateAttempt ::
  "'db ext \<Rightarrow> 's commitConfig \<Rightarrow> ctx \<Rightarrow> string \<Rightarrow> 'db txn \<Rightarrow> nat \<Rightarrow>
     'db loopState \<Rightarrow> 'db commitState \<Rightarrow> 's world \<Rightarrow>
     loopStep \<times> 'db loopState \<times> 'db commitState \<times> 's world" where
  "updateAttempt X cfg ctx localPath fn attempt ls st w =
     (case beginAttempt X cfg ctx fn attempt ls st w of
        (Return r, ls, st, w) \<Rightarrow> (Return r, ls, st, w)
      | (Again, ls, st, w) \<Rightarrow> phaseCommit X cfg ctx localPath ls st w)"

text \<open>The loop, by the number of attempts left.\<close>

fun updateLoop ::
  "'db ext \<Rightarrow> 's commitConfig \<Rightarrow> ctx \<Rightarrow> string \<Rightarrow> 'db txn \<Rightarrow> nat \<Rightarrow> nat \<Rightarrow>
     'db loopState \<Rightarrow> 'db commitState \<Rightarrow> 's world \<Rightarrow>
     err option \<times> 'db loopState \<times> 'db commitState \<times> 's world" where
  "updateLoop X cfg ctx localPath fn 0 attempt ls st w =
     (Some ErrConflict, ls, st,
      if orphan ls = '''' then w else snd (on_store (Delete (cfg_store cfg) ctx (orphan ls)) w))"
| "updateLoop X cfg ctx localPath fn (Suc n) attempt ls st w =
     (case updateAttempt X cfg ctx localPath fn attempt ls st w of
        (Return r, ls, st, w) \<Rightarrow> (r, ls, st, w)
      | (Again, ls, st, w) \<Rightarrow> updateLoop X cfg ctx localPath fn n (Suc attempt) ls st w)"

text \<open>\<^verbatim>\<open>doUpdate\<close>, with the deferred release of a savepoint that is still open.\<close>

definition doUpdate ::
  "'db ext \<Rightarrow> 's commitConfig \<Rightarrow> ctx \<Rightarrow> string \<Rightarrow> 'db txn \<Rightarrow> 'db commitState \<Rightarrow> 's world \<Rightarrow>
     err option \<times> 'db commitState \<times> 's world" where
  "doUpdate X cfg ctx localPath fn st w =
     (case updateLoop X cfg ctx localPath fn (nat (maxRetries cfg)) 0 initLoop st w of
        (r, ls, st, w) \<Rightarrow>
          (if release ls = None then (r, st, w)
           else if r = None then releaseSave (release ls) st w
           else (r, rollback (release ls) st, w)))"

section \<open>Bounds of the backoff\<close>

lemma backoff_base_bounds: "10000000 \<le> backoff_base n \<and> backoff_base n \<le> 640000000"
proof -
  have "(2::int) ^ min (n - 1) 6 \<le> 2 ^ 6" by (rule power_increasing) simp_all
  moreover have "(1::int) \<le> 2 ^ min (n - 1) 6" by simp
  ultimately show ?thesis unfolding backoff_base_def by simp
qed

text \<open>
  C20: the wait before a retry is between half the base delay and one and a half times it, hence
  between 5 and 960 milliseconds, for whatever the random generator draws; and the nine waits of the
  ten attempts that are the default stay below 3.825 seconds together.
\<close>

theorem backoff_bounds:
  assumes "\<And>n. 0 \<le> jitter n" and "\<And>n. jitter n < backoff_base n"
  shows "5000000 \<le> backoff_delay n (jitter n) \<and> backoff_delay n (jitter n) < 960000000 \<and>
    1275000000 \<le> (\<Sum>a \<leftarrow> [1..<10]. backoff_delay a (jitter a)) \<and>
    (\<Sum>a \<leftarrow> [1..<10]. backoff_delay a (jitter a)) < 3825000000"
proof -
  have b: "even (backoff_base a)" for a by (simp add: backoff_base_def)
  have d: "backoff_base a \<le> 2 * backoff_delay a (jitter a) \<and> 2 * backoff_delay a (jitter a) < 3 * backoff_base a" for a
    using assms(1) [of a] assms(2) [of a] b [of a] by (auto simp: backoff_delay_def elim!: evenE)
  have v: "backoff_base 1 = 10000000" "backoff_base 2 = 20000000" "backoff_base 3 = 40000000"
    "backoff_base 4 = 80000000" "backoff_base 5 = 160000000" "backoff_base 6 = 320000000"
    "backoff_base 7 = 640000000" "backoff_base 8 = 640000000" "backoff_base 9 = 640000000"
    by (simp_all add: backoff_base_def)
  have u: "[1..<10] = [1, 2, 3, 4, 5, 6, 7, 8, 9 :: nat]" by code_simp
  show ?thesis
    using d [of n] backoff_base_bounds [of n] d [of 1] d [of 2] d [of 3] d [of 4] d [of 5] d [of 6] d [of 7] d [of 8] d [of 9]
    unfolding u v by simp
qed

theorem backoff_bounds_witness:
  "5000000 \<le> backoff_delay 3 1000 \<and> backoff_delay 3 1000 < 960000000 \<and>
    1275000000 \<le> (\<Sum>a \<leftarrow> [1..<10]. backoff_delay a 1000) \<and>
    (\<Sum>a \<leftarrow> [1..<10]. backoff_delay a 1000) < 3825000000"
  by (rule backoff_bounds [of "\<lambda>_. 1000"]) (use backoff_base_bounds in \<open>simp_all add: order_less_le_trans [of 1000 10000000]\<close>)

end
