(* ===== verification/Compact.thy ===== *)
theory Compact
  imports Commit
begin

text \<open>
  \<^verbatim>\<open>compact.go\<close>: building a snapshot from the local database and swapping it into the
  manifest.  The loop is by the number of attempts left, as in \<^verbatim>\<open>doUpdate\<close>.
\<close>

section \<open>Files\<close>

text \<open>
  \<^verbatim>\<open>uploadFile\<close>: the local calls are \<^verbatim>\<open>os.Open\<close>, \<^verbatim>\<open>Stat\<close> and the reads of the upload; the
  size is the size of the file.
\<close>

definition uploadFile ::
  "'s BlobStore \<Rightarrow> ctx \<Rightarrow> string \<Rightarrow> string \<Rightarrow> 's world \<Rightarrow> int result \<times> 's world" where
  "uploadFile store ctx key path w =
     (case local_call w of
        (Some e, w) \<Rightarrow> (Inl e, w)
      | (None, w) \<Rightarrow>
          (case w_disk w path of
             None \<Rightarrow> (Inl (OtherErr ''open: no such file or directory''), w)
           | Some b \<Rightarrow>
               (case local_call w of
                  (Some e, w) \<Rightarrow> (Inl e, w)
                | (None, w) \<Rightarrow>
                    (case local_call w of
                       (r, w) \<Rightarrow>
                         (case on_store (Put store ctx key
                                  (case r of None \<Rightarrow> Inr b | Some e \<Rightarrow> Inl e) NoCondition) w of
                            (Inl e, w) \<Rightarrow> (Inl e, w)
                          | (Inr _, w) \<Rightarrow> (Inr (int (length b)), w))))))"

text \<open>\<^verbatim>\<open>reopenConn\<close>: on failure the closed connection stays in the handle.\<close>

definition reopenConn ::
  "'db ext \<Rightarrow> string \<Rightarrow> 'db commitState \<Rightarrow> 's world \<Rightarrow> err option \<times> 'db commitState \<times> 's world" where
  "reopenConn X localPath st w =
     (case openLocalConn X localPath w of
        (Inl e, w) \<Rightarrow> (Some e, st, w)
      | (Inr d, w) \<Rightarrow> (None, st\<lparr>st_conn := OpenConn d\<rparr>, w))"

text \<open>\<^verbatim>\<open>VACUUM\<close> on the connection.\<close>

definition vacuum ::
  "'db ext \<Rightarrow> 'db commitState \<Rightarrow> 's world \<Rightarrow> err option \<times> 'db commitState \<times> 's world" where
  "vacuum X st w =
     (case st_conn st of
        OpenConn d \<Rightarrow>
          (case local_call w of
             (Some e, w) \<Rightarrow> (Some e, st, w)
           | (None, w) \<Rightarrow>
               (case sq_vacuum X d of
                  Inl e \<Rightarrow> (Some e, st, w)
                | Inr d' \<Rightarrow> (None, st\<lparr>st_conn := OpenConn d'\<rparr>, w)))
      | _ \<Rightarrow> (Some (OtherErr ''sqlite: connection is closed''), st, w))"

text \<open>
  From the vacuumed database to an uploaded snapshot: close, upload under the new key, reopen;
  the size on success.  Shared with migrations, which differ in the key and the messages.
\<close>

definition uploadSnapshot ::
  "'db ext \<Rightarrow> 's BlobStore \<Rightarrow> ctx \<Rightarrow> string \<Rightarrow> string \<Rightarrow> string \<Rightarrow> 'db commitState \<Rightarrow> 's world \<Rightarrow>
     int result \<times> 'db commitState \<times> 's world" where
  "uploadSnapshot X store ctx what snapKey localPath st w =
     (case conn_Close X localPath (st_conn st) w of
        (Some e, w) \<Rightarrow>
          (Inl (Wrapped (what @ '': close for upload'') e), st\<lparr>st_conn := ClosedConn\<rparr>, w)
      | (None, w) \<Rightarrow>
          (let st = st\<lparr>st_conn := ClosedConn\<rparr>
           in case uploadFile store ctx snapKey localPath w of
                (Inl e, w) \<Rightarrow>
                  (case reopenConn X localPath st w of
                     (_, st, w) \<Rightarrow> (Inl (Wrapped (what @ '': upload snapshot'') e), st, w))
              | (Inr snapSize, w) \<Rightarrow>
                  (case reopenConn X localPath st w of
                     (Some e, st, w) \<Rightarrow> (Inl (Wrapped (what @ '': reopen'') e), st, w)
                   | (None, st, w) \<Rightarrow> (Inr snapSize, st, w))))"

section \<open>Compaction\<close>

definition compactKey :: "'s commitConfig \<Rightarrow> string \<Rightarrow> string" where
  "compactKey cfg u = cfg_prefix cfg @ ''snapshots/snap-'' @ u @ ''.sqlite''"

text \<open>The compare-and-swap that installs an uploaded snapshot.\<close>

definition installSnapshot ::
  "'s commitConfig \<Rightarrow> ctx \<Rightarrow> blobRef \<Rightarrow> 'db commitState \<Rightarrow> 's world \<Rightarrow>
     loopStep \<times> 'db commitState \<times> 's world" where
  "installSnapshot cfg ctx newSnap st w =
     (case on_store (putManifest (cfg_store cfg) ctx (manifestKey cfg)
                       (withSnapshot (st_manifest st) newSnap)
                       \<lparr>IfMatch = st_etag st, IfNoneMatch = False\<rparr>) w of
        ((Inr newEtag, newManifest), w) \<Rightarrow>
          (Return None,
           st\<lparr>st_manifest := newManifest, st_etag := newEtag, snapshotKey := bKey newSnap\<rparr>, w)
      | ((Inl e, _), w) \<Rightarrow>
          if \<not> errors_Is e ErrPreconditionFailed
          then (Return (Some (Wrapped ''compact: put manifest'' e)), st, w)
          else (Again, st, w))"

definition compactAttempt ::
  "'db ext \<Rightarrow> 's commitConfig \<Rightarrow> ctx \<Rightarrow> string \<Rightarrow> 'db commitState \<Rightarrow> 's world \<Rightarrow>
     loopStep \<times> 'db commitState \<times> 's world" where
  "compactAttempt X cfg ctx localPath st w =
     (case refreshManifest X cfg ctx localPath st w of
        (Some e, st, w) \<Rightarrow> (Return (Some e), st, w)
      | (None, st, w) \<Rightarrow>
          if Log (st_manifest st) = [] then (Return None, st, w)
          else case vacuum X st w of
              (Some e, st, w) \<Rightarrow> (Return (Some (Wrapped ''compact: vacuum'' e)), st, w)
            | (None, st, w) \<Rightarrow>
                (case new_uuid X w of
                   (u, w) \<Rightarrow>
                     (case uploadSnapshot X (cfg_store cfg) ctx ''compact'' (compactKey cfg u)
                             localPath st w of
                        (Inl e, st, w) \<Rightarrow> (Return (Some e), st, w)
                      | (Inr snapSize, st, w) \<Rightarrow>
                          installSnapshot cfg ctx
                            \<lparr>bKey = compactKey cfg u, bSeq = Seq (st_manifest st), bSize = snapSize\<rparr>
                            st w)))"

fun compactLoop ::
  "'db ext \<Rightarrow> 's commitConfig \<Rightarrow> ctx \<Rightarrow> string \<Rightarrow> nat \<Rightarrow> 'db commitState \<Rightarrow> 's world \<Rightarrow>
     err option \<times> 'db commitState \<times> 's world" where
  "compactLoop X cfg ctx localPath 0 st w = (Some (Wrapped ''compact'' ErrConflict), st, w)"
| "compactLoop X cfg ctx localPath (Suc n) st w =
     (case compactAttempt X cfg ctx localPath st w of
        (Return r, st, w) \<Rightarrow> (r, st, w)
      | (Again, st, w) \<Rightarrow> compactLoop X cfg ctx localPath n st w)"

definition compactLocked ::
  "'db ext \<Rightarrow> 's commitConfig \<Rightarrow> ctx \<Rightarrow> string \<Rightarrow> 'db commitState \<Rightarrow> 's world \<Rightarrow>
     err option \<times> 'db commitState \<times> 's world" where
  "compactLocked X cfg ctx localPath st w =
     compactLoop X cfg ctx localPath (nat (maxRetries cfg)) st w"

end
