(* ===== verification/Migrate.thy ===== *)
theory Migrate
  imports Compact
begin

text \<open>
  \<^verbatim>\<open>migrate.go\<close>: schema migrations as forced compactions.  The loop of \<^verbatim>\<open>runMigrations\<close> has no
  bound of its own (a compare-and-swap may be lost for ever), so it is a partial function:
  not returning is \<open>None\<close>.
\<close>

section \<open>Data\<close>

record 'db Migration =
  mig_Version :: int
  mig_Name :: string
  mig_Up :: "'db txn"

section \<open>One migration\<close>

definition migrationKey :: "'s commitConfig \<Rightarrow> int \<Rightarrow> string \<Rightarrow> string" where
  "migrationKey cfg ver u =
     cfg_prefix cfg @ ''snapshots/snap-mig-'' @ FormatInt ver @ ''-'' @ u @ ''.sqlite''"

text \<open>\<^verbatim>\<open>mig.Up\<close> on the connection, with whatever it changed also when it fails.\<close>

definition runUp :: "'db Migration \<Rightarrow> 'db commitState \<Rightarrow> err option \<times> 'db commitState" where
  "runUp mig st =
     (case st_conn st of
        OpenConn d \<Rightarrow> (case mig_Up mig d of (r, d', n) \<Rightarrow> (r, st\<lparr>st_conn := OpenConn d'\<rparr>))
      | _ \<Rightarrow> (Some (OtherErr ''sqlite: connection is closed''), st))"

definition migrationManifest :: "manifest \<Rightarrow> int \<Rightarrow> string \<Rightarrow> int \<Rightarrow> manifest" where
  "migrationManifest m ver snapKey snapSize =
     \<lparr>FormatVersion = 0, Seq = Seq m, SchemaVersion = ver,
      Snapshot = \<lparr>bKey = snapKey, bSeq = Seq m, bSize = snapSize\<rparr>, Log = []\<rparr>"

definition applyMigration ::
  "'db ext \<Rightarrow> 's commitConfig \<Rightarrow> ctx \<Rightarrow> string \<Rightarrow> manifest \<Rightarrow> string \<Rightarrow> 'db Migration \<Rightarrow> bool \<Rightarrow>
     'db commitState \<Rightarrow> 's world \<Rightarrow> err option \<times> 'db commitState \<times> 's world" where
  "applyMigration X cfg ctx localPath m etag mig forceRefresh st w =
     (let st = st\<lparr>st_manifest := m, st_etag := etag\<rparr>;
          st = (if forceRefresh then st\<lparr>snapshotKey := ''''\<rparr> else st)
      in case syncToManifest X cfg ctx localPath st w of
           (Some e, st, w) \<Rightarrow> (Some e, st, w)
         | (None, st, w) \<Rightarrow>
             (case runUp mig st of
                (Some e, st) \<Rightarrow> (Some (Wrapped ''migration'' e), st, w)
              | (None, st) \<Rightarrow>
                  (case vacuum X st w of
                     (Some e, st, w) \<Rightarrow> (Some (Wrapped ''migration: vacuum'' e), st, w)
                   | (None, st, w) \<Rightarrow>
                       (case new_uuid X w of
                          (u, w) \<Rightarrow>
                            (let snapKey = migrationKey cfg (mig_Version mig) u
                             in case uploadSnapshot X (cfg_store cfg) ctx ''migration'' snapKey
                                       localPath st w of
                                  (Inl e, st, w) \<Rightarrow> (Some e, st, w)
                                | (Inr snapSize, st, w) \<Rightarrow>
                                    (case on_store (putManifest (cfg_store cfg) ctx (manifestKey cfg)
                                            (migrationManifest m (mig_Version mig) snapKey snapSize)
                                            \<lparr>IfMatch = etag, IfNoneMatch = False\<rparr>) w of
                                       ((Inl e, _), w) \<Rightarrow> (Some e, st, w)
                                     | ((Inr newEtag, newManifest), w) \<Rightarrow>
                                         (None,
                                          st\<lparr>st_manifest := newManifest, st_etag := newEtag,
                                             localSeq := Seq m, snapshotKey := snapKey\<rparr>, w)))))))"

section \<open>The loop\<close>

fun checkOrder :: "int \<Rightarrow> 'db Migration list \<Rightarrow> err option" where
  "checkOrder prev [] = None"
| "checkOrder prev (m # ms) =
     (if mig_Version m \<le> prev
      then Some (OtherErr ''s3db: migrations must have strictly increasing versions'')
      else checkOrder (mig_Version m) ms)"

definition maxVersion :: "'db Migration list \<Rightarrow> int" where
  "maxVersion migs = (if migs = [] then 0 else mig_Version (last migs))"

fun nextMigration :: "int \<Rightarrow> 'db Migration list \<Rightarrow> 'db Migration option" where
  "nextMigration ver [] = None"
| "nextMigration ver (m # ms) = (if ver < mig_Version m then Some m else nextMigration ver ms)"

text \<open>One turn of the loop: return, or go round with the version last attempted.\<close>

definition migrateTurn ::
  "'db ext \<Rightarrow> 's commitConfig \<Rightarrow> ctx \<Rightarrow> string \<Rightarrow> 'db Migration list \<Rightarrow> int \<Rightarrow>
     'db commitState \<Rightarrow> 's world \<Rightarrow> (err option + int) \<times> 'db commitState \<times> 's world" where
  "migrateTurn X cfg ctx localPath migs lastAttemptedVer st w =
     (let maxVer = maxVersion migs
      in case on_store (loadManifest (cfg_store cfg) ctx (manifestKey cfg)) w of
           (Inl e, w) \<Rightarrow> (Inl (Some e), st, w)
         | (Inr (m, etag), w) \<Rightarrow>
             if maxVer < SchemaVersion m
             then (Inl (Some (Wrapped ''database at schema'' ErrSchemaTooNew)), st, w)
             else if SchemaVersion m = maxVer
             then (case syncToManifest X cfg ctx localPath (st\<lparr>st_manifest := m, st_etag := etag\<rparr>) w of
                     (r, st, w) \<Rightarrow> (Inl r, st, w))
             else case nextMigration (SchemaVersion m) migs of
                 None \<Rightarrow> (Inl (Some (OtherErr ''s3db: internal error: no migration found'')), st, w)
               | Some mig \<Rightarrow>
                   (case applyMigration X cfg ctx localPath m etag mig
                           (mig_Version mig = lastAttemptedVer) st w of
                      (None, st, w) \<Rightarrow> (Inr (mig_Version mig), st, w)
                    | (Some e, st, w) \<Rightarrow>
                        if errors_Is e ErrPreconditionFailed then (Inr (mig_Version mig), st, w)
                        else (Inl (Some e), st, w)))"

partial_function (option) migrateLoop ::
  "'db ext \<Rightarrow> 's commitConfig \<Rightarrow> ctx \<Rightarrow> string \<Rightarrow> 'db Migration list \<Rightarrow> int \<Rightarrow>
     'db commitState \<Rightarrow> 's world \<Rightarrow> (err option \<times> 'db commitState \<times> 's world) option" where
  "migrateLoop X cfg ctx localPath migs lastAttemptedVer st w =
     (case migrateTurn X cfg ctx localPath migs lastAttemptedVer st w of
        (Inl r, st, w) \<Rightarrow> Some (r, st, w)
      | (Inr ver, st, w) \<Rightarrow> migrateLoop X cfg ctx localPath migs ver st w)"

declare migrateLoop.simps [code]

definition runMigrations ::
  "'db ext \<Rightarrow> 's commitConfig \<Rightarrow> ctx \<Rightarrow> string \<Rightarrow> 'db Migration list \<Rightarrow>
     'db commitState \<Rightarrow> 's world \<Rightarrow> (err option \<times> 'db commitState \<times> 's world) option" where
  "runMigrations X cfg ctx localPath migs st w =
     (case checkOrder 0 migs of
        Some e \<Rightarrow> Some (Some e, st, w)
      | None \<Rightarrow> migrateLoop X cfg ctx localPath migs (-1) st w)"

end
