(* ===== verification/Handle.thy ===== *)
theory Handle
  imports Coherence Migrate
begin

text \<open>
  A client of a shared store: what its handle (\<^verbatim>\<open>commitState\<close>) knows of the database while
  other clients interfere, and that loading, downloading, replaying and refreshing keep it.
\<close>

section \<open>What a client is\<close>

text \<open>The keys a client gives its changesets.\<close>

definition own_key :: "'db ext \<Rightarrow> 's commitConfig \<Rightarrow> string \<Rightarrow> nat \<Rightarrow> string" where
  "own_key X cfg ep n =
     cfg_prefix cfg @ ''changesets/'' @ ep @ ''/cs-'' @ uuid_string X n @ ''.bin''"

text \<open>The keys it gives its snapshots, by compaction or by a migration.\<close>

definition snap_keys :: "'db ext \<Rightarrow> 's commitConfig \<Rightarrow> nat \<Rightarrow> string set" where
  "snap_keys X cfg n =
     insert (compactKey cfg (uuid_string X n))
       {migrationKey cfg ver (uuid_string X n) | ver. 0 \<le> ver}"

definition own :: "'db ext \<Rightarrow> 's commitConfig \<Rightarrow> string \<Rightarrow> string set" where
  "own X cfg ep = range (own_key X cfg ep) \<union> (\<Union>n. snap_keys X cfg n)"

text \<open>The keys \<^verbatim>\<open>Open\<close> derives from the prefix.\<close>

definition wf_cfg :: "'s commitConfig \<Rightarrow> bool" where
  "wf_cfg cfg \<longleftrightarrow>
     manifestKey cfg = cfg_prefix cfg @ ''manifest.json'' \<and> list_all is_ascii (cfg_prefix cfg)"

text \<open>UUIDs do not repeat and are made of hexadecimal digits and dashes.\<close>

definition uuid_law :: "'db ext \<Rightarrow> bool" where
  "uuid_law X \<longleftrightarrow>
     inj (uuid_string X) \<and> (\<forall>n. set (uuid_string X n) \<subseteq> set ''0123456789abcdef-'')"

text \<open>The length of a changeset is a Go \<^verbatim>\<open>int\<close>, the size of a file an \<^verbatim>\<open>int64\<close>.\<close>

definition size_law :: "'db ext \<Rightarrow> bool" where
  "size_law X \<longleftrightarrow>
     (\<forall>d d'. int (length (sq_changeset X d d')) \<le> max_int64) \<and>
     (\<forall>d. int (length (sq_file X d)) \<le> max_int64)"

section \<open>What a handle knows\<close>

definition good :: "'db ext \<Rightarrow> string \<Rightarrow> objs \<Rightarrow> bool" where
  "good X mk v \<longleftrightarrow> coherent X mk v \<and> room mk v"

text \<open>
  The connection holds the content at \<^verbatim>\<open>localSeq\<close> of the handle's manifest, for as long as
  its snapshot is the current one.
\<close>

definition conn_ok :: "'db ext \<Rightarrow> string \<Rightarrow> objs \<Rightarrow> 'db commitState \<Rightarrow> 'db \<Rightarrow> bool" where
  "conn_ok X mk v st d \<longleftrightarrow>
     (let m = st_manifest st
      in snapshotKey st = bKey (Snapshot m) \<and> bSeq (Snapshot m) \<le> localSeq st \<and>
         localSeq st \<le> Seq m \<and>
         (tracks mk v m \<longrightarrow> replay_to X v m (localSeq st) = Some d))"

definition handle_ok :: "'db ext \<Rightarrow> (string \<Rightarrow> nat) \<Rightarrow> string \<Rightarrow> objs \<Rightarrow> 'db commitState \<Rightarrow> bool" where
  "handle_ok X gen mk v st \<longleftrightarrow>
     manifest_inv (st_manifest st) \<and> wire_ok (st_manifest st) \<and> sees gen mk v (st_manifest st) \<and>
     (case st_conn st of OpenConn d \<Rightarrow> conn_ok X mk v st d | _ \<Rightarrow> True)"

text \<open>After a refresh the connection is also at the end of the log.\<close>

definition synced :: "'db commitState \<Rightarrow> bool" where
  "synced st \<longleftrightarrow>
     (case st_conn st of OpenConn d \<Rightarrow> localSeq st = Seq (st_manifest st) | _ \<Rightarrow> True)"

text \<open>A manifest together with the ETag it was read or written under.\<close>

definition linked_to ::
  "string \<Rightarrow> ('s \<Rightarrow> objs) \<Rightarrow> ('s \<Rightarrow> bool) \<Rightarrow> manifest \<Rightarrow> string \<Rightarrow> bool" where
  "linked_to mk view invar m e \<longleftrightarrow>
     (\<exists>u b. invar u \<and> view u mk = Some (b, e) \<and> decode_manifest (Inr b) = Inr m \<and> validate m = None)"

text \<open>
  The keys not yet given out are not referenced, and a snapshot created from now on will be
  younger than the current one.
\<close>

definition fresh_keys :: "'db ext \<Rightarrow> 's commitConfig \<Rightarrow> (string \<Rightarrow> nat) \<Rightarrow> objs \<Rightarrow> nat \<Rightarrow> bool" where
  "fresh_keys X cfg gen v n \<longleftrightarrow>
     (\<forall>m i. man (manifestKey cfg) v = Some m \<longrightarrow> n \<le> i \<longrightarrow>
        (\<forall>ep. own_key X cfg ep i \<notin> refs m) \<and>
        (\<forall>k \<in> snap_keys X cfg i. k \<notin> refs m \<and> gen (bKey (Snapshot m)) < gen k))"

text \<open>The order of creation follows the order in which a client draws its UUIDs.\<close>

definition gen_law :: "'db ext \<Rightarrow> 's commitConfig \<Rightarrow> (string \<Rightarrow> nat) \<Rightarrow> bool" where
  "gen_law X cfg gen \<longleftrightarrow>
     (\<forall>i j. i < j \<longrightarrow> (\<forall>k \<in> snap_keys X cfg i. \<forall>k' \<in> snap_keys X cfg j. gen k < gen k'))"

text \<open>What a client relies on: interference that keeps the database and its own keys.\<close>

definition rely ::
  "'db ext \<Rightarrow> 's commitConfig \<Rightarrow> (string \<Rightarrow> nat) \<Rightarrow> (string \<Rightarrow> string set) \<Rightarrow> objs \<Rightarrow> objs \<Rightarrow> bool" where
  "rely X cfg gen others u v \<longleftrightarrow>
     (good X (manifestKey cfg) u \<longrightarrow>
        good X (manifestKey cfg) v \<and>
        evolves gen (manifestKey cfg) (own X cfg) u v \<and>
        evolves gen (manifestKey cfg) others u v \<and>
        (\<forall>n. fresh_keys X cfg gen u n \<longrightarrow> fresh_keys X cfg gen v n))"

lemma rely_refl: "rely X cfg gen others v v"
  by (simp add: rely_def evolves_refl)

lemma rely_trans: "rely X cfg gen others u v \<Longrightarrow> rely X cfg gen others v w \<Longrightarrow> rely X cfg gen others u w"
  by (auto simp: rely_def intro: evolves_trans)

section \<open>Lemmas on views\<close>

lemma conn_ok_evolves:
  assumes "evolves gen mk K u v" and "sees gen mk u (st_manifest st)" and "conn_ok X mk u st d"
  shows "conn_ok X mk v st d"
proof -
  let ?m = "st_manifest st"
  have "replay_to X v ?m (localSeq st) = Some d" if t: "tracks mk v ?m"
  proof -
    have "replay_to X v ?m (localSeq st) = replay_to X u ?m (localSeq st)"
      using stable(2) [OF assms(1,2) t] by (intro replay_to_cong) auto
    with stable(1) [OF assms(1,2) t] assms(3) show ?thesis by (simp add: conn_ok_def Let_def)
  qed
  with assms(3) show ?thesis by (simp add: conn_ok_def Let_def)
qed

lemma handle_ok_evolves:
  "evolves gen mk K u v \<Longrightarrow> handle_ok X gen mk u st \<Longrightarrow> handle_ok X gen mk v st"
  by (auto simp: handle_ok_def intro: sees_evolves conn_ok_evolves split: conn.splits)

text \<open>A newer manifest of the same snapshot can be taken over without touching the connection.\<close>

lemma conn_ok_adopt:
  assumes "handle_ok X gen mk v st" and "st_conn st = OpenConn d"
    and "man mk v = Some m" and "manifest_inv m" and "snapshotKey st = bKey (Snapshot m)"
  shows "extends (st_manifest st) m"
    and "conn_ok X mk v (st\<lparr>st_manifest := m, st_etag := e\<rparr>) d"
proof -
  let ?o = "st_manifest st"
  from assms(1,2) have c: "conn_ok X mk v st d" and o: "manifest_inv ?o" "sees gen mk v ?o"
    by (auto simp: handle_ok_def)
  from c assms(5) have "bKey (Snapshot m) = bKey (Snapshot ?o)" by (simp add: conn_ok_def Let_def)
  with o assms(3) show x: "extends ?o m" by (blast intro: sees_not_stale)
  from c have q: "bSeq (Snapshot ?o) \<le> localSeq st" "localSeq st \<le> Seq ?o"
    by (simp_all add: conn_ok_def Let_def)
  have "tracks mk v ?o" using x assms(3) by (simp add: tracks_def)
  with c have "replay_to X v ?o (localSeq st) = Some d" by (simp add: conn_ok_def Let_def)
  then have "replay_to X v m (localSeq st) = Some d"
    using replay_to_extends [OF x o(1) q(2), of X v] by simp
  moreover have "Seq ?o \<le> Seq m" "Snapshot m = Snapshot ?o"
    using x o(1) assms(4) by (auto simp: extends_def manifest_inv_def)
  ultimately show "conn_ok X mk v (st\<lparr>st_manifest := m, st_etag := e\<rparr>) d"
    using q assms(5) by (simp add: conn_ok_def Let_def)
qed

lemma handle_ok_no_conn:
  "handle_ok X gen mk v st \<Longrightarrow> (\<And>d. c \<noteq> OpenConn d) \<Longrightarrow> handle_ok X gen mk v (st\<lparr>st_conn := c\<rparr>)"
  by (auto simp: handle_ok_def split: conn.splits)

section \<open>The client in its environment\<close>

locale client = cas_store "cfg_store cfg" view invar env
  for cfg :: "'s commitConfig" and view :: "'s \<Rightarrow> objs" and invar :: "'s \<Rightarrow> bool"
    and env :: "objs \<Rightarrow> objs \<Rightarrow> bool" +
  fixes X :: "'db ext" and gen :: "string \<Rightarrow> nat" and others :: "string \<Rightarrow> string set"
  assumes env_rely: "env u v \<Longrightarrow> rely X cfg gen others u v"
    and others_own: "others ep \<inter> own X cfg ep' = {}"
    and others_mk: "manifestKey cfg \<notin> others ep"
    and order: "gen_law X cfg gen"
    and cfg_law: "wf_cfg cfg"
    and uuids: "uuid_law X"
    and sizes: "size_law X"
    and rebases: "rebase_law X"
    and files: "file_law X"
    and vacuums: "vacuum_law X"
begin

abbreviation "mk \<equiv> manifestKey cfg"
abbreviation "store \<equiv> cfg_store cfg"

abbreviation "linked \<equiv> linked_to mk view invar"
abbreviation "fresh \<equiv> fresh_keys X cfg gen"

lemma rely_good: "env u v \<Longrightarrow> good X mk u \<Longrightarrow> good X mk v"
  and rely_own: "env u v \<Longrightarrow> good X mk u \<Longrightarrow> evolves gen mk (own X cfg) u v"
  and rely_others: "env u v \<Longrightarrow> good X mk u \<Longrightarrow> evolves gen mk others u v"
  and fresh_env: "env u v \<Longrightarrow> good X mk u \<Longrightarrow> fresh u n \<Longrightarrow> fresh v n"
  using env_rely by (auto simp: rely_def)

text \<open>The ETag identifies the manifest: a store that still has it still has the manifest.\<close>

lemma linked_cas:
  assumes "linked m e" and "invar s" and "cond_ok \<lparr>IfMatch = e, IfNoneMatch = False\<rparr> (view s mk)"
  shows "man mk (view s) = Some m"
proof -
  from assms(1) obtain u b where u: "invar u" "view u mk = Some (b, e)"
    "decode_manifest (Inr b) = Inr m" "validate m = None" by (auto simp: linked_to_def)
  from etag_normal [OF u(1,2)] have e: "e \<noteq> ''''" "Normalize e = e" by auto
  with assms(3) obtain b' where b': "view s mk = Some (b', e)" by (auto simp: cond_ok_def)
  from etag_unique [OF u(1) assms(2) u(2) b'] have "b' = b" by simp
  with b' u show ?thesis by (simp add: man_eq)
qed

lemma load_spec:
  assumes "invar s" and "loadManifest store ctx mk s = (r, t)"
  shows "invar t \<and> env (view s) (view t)"
    and "r = Inr (m, e) \<Longrightarrow> man mk (view t) = Some m \<and> linked m e"
proof -
  obtain g u where g: "Get store ctx mk s = (g, u)" by fastforce
  with assms(2) have "u = t"
    by (auto simp: loadManifest_def split: sum.splits prod.splits option.splits)
  with Get_step [OF assms(1) g] show t: "invar t \<and> env (view s) (view t)" by simp
  show "man mk (view t) = Some m \<and> linked m e" if "r = Inr (m, e)"
  proof -
    from that assms(2) g obtain b where b: "g = Inr (Inr b, e)" "decode_manifest (Inr b) = Inr m"
      "validate m = None"
      by (auto simp: loadManifest_def decode_manifest_def split: sum.splits prod.splits option.splits)
    have "Get store ctx mk s = (Inr (Inr b, e), t)" using g b \<open>u = t\<close> by simp
    from Get_some [OF assms(1) this] have "view t mk = Some (b, e)" by auto
    with b t show ?thesis by (auto simp: man_eq linked_to_def)
  qed
qed

lemma sees_env: "env u v \<Longrightarrow> good X mk u \<Longrightarrow> sees gen mk u m \<Longrightarrow> sees gen mk v m"
  by (rule sees_evolves [OF rely_own])

lemma stable_env:
  assumes "env u v" and "good X mk u" and "sees gen mk u m" and "tracks mk v m" and "k \<in> refs m"
  shows "body_at u k = body_at v k"
  using stable(2) [OF rely_own, of u v m k] assms by simp

lemma handle_ok_env:
  "env u v \<Longrightarrow> good X mk u \<Longrightarrow> handle_ok X gen mk u st \<Longrightarrow> handle_ok X gen mk v st"
  by (rule handle_ok_evolves [OF rely_own])

subsection \<open>Fetching and applying\<close>

lemma fetch_tracked:
  assumes s: "invar s" "good X mk (view s)" "sees gen mk (view s) m"
    and f: "fetch_all store ctx es s = (Inr bs, t)" and es: "eKey ` set es \<subseteq> refs m"
    and t: "tracks mk (view t) m" and i: "i < length es"
  shows "body_at (view t) (eKey (es ! i)) = Some (bs ! i)"
proof -
  from fetch_all_spec [OF s(1) f] i obtain u where u: "env (view s) (view u)" "env (view u) (view t)"
    "body_at (view u) (eKey (es ! i)) = Some (bs ! i)" by auto
  have "eKey (es ! i) \<in> refs m" using es i by auto
  with stable_env [OF u(2) rely_good [OF u(1) s(2)] sees_env [OF u(1) s(2,3)] t] u(3)
  show ?thesis by simp
qed

text \<open>The replay of a log tail, completed or not.\<close>

lemma apply_tail:
  assumes m: "manifest_inv m" and q: "bSeq (Snapshot m) \<le> q" "q \<le> Seq m"
    and es: "es = drop (nat (q - bSeq (Snapshot m))) (Log m)" and bs: "length bs = length es"
    and a: "apply_all X (zip es bs) q (OpenConn d) = ((q', r), c)"
  obtains d' where "c = OpenConn d'" "q \<le> q'" "q' \<le> Seq m" "r = None \<longrightarrow> q' = Seq m"
    "(\<And>i. i < length es \<Longrightarrow> body_at v (eKey (es ! i)) = Some (bs ! i)) \<Longrightarrow>
       replay_to X v m q = Some d \<Longrightarrow> replay_to X v m q' = Some d'"
proof -
  let ?b = "bSeq (Snapshot m)"
  from m have cont: "contiguous ?b (Log m)" and seq: "Seq m = ?b + int (length (Log m))"
    by (simp_all add: manifest_inv_def)
  have len: "int (length es) = Seq m - q" using q seq es by simp
  from apply_all_seq [OF bs a] obtain n where n: "n \<le> length es"
    "q' = (if n = 0 then q else eSeq (es ! (n - 1)))"
    "apply_all X (zip (take n es) (take n bs)) q (OpenConn d) = ((q', None), c)"
    "r = None \<longrightarrow> n = length es" by auto
  have "eSeq (es ! (n - 1)) = q + int n" if "n \<noteq> 0"
  proof -
    let ?j = "nat (q - ?b) + (n - 1)"
    have "?j < length (Log m)" using n(1) that len q seq by linarith
    moreover have "es ! (n - 1) = Log m ! ?j" using es q seq by (simp add: nth_drop)
    ultimately have "eSeq (es ! (n - 1)) = ?b + 1 + int ?j" using cont by (simp add: contiguous_def)
    then show ?thesis using q that by simp
  qed
  with n(2) have q': "q' = q + int n" by auto
  have l: "length (take n bs) = length (take n es)" using bs by simp
  obtain d' where c: "c = OpenConn d'"
    using apply_all_open [OF n(3)] by blast
  show ?thesis
  proof (rule that [OF c])
    show "q \<le> q'" "q' \<le> Seq m" "r = None \<longrightarrow> q' = Seq m" using q' n(1,4) len by auto
    assume body: "\<And>i. i < length es \<Longrightarrow> body_at v (eKey (es ! i)) = Some (bs ! i)"
      and d: "replay_to X v m q = Some d"
    have "apply_entries X v (take n es) d = Some d'"
      using apply_all_reference [OF l _ n(3), of v] body n(1) c by auto
    then show "replay_to X v m q' = Some d'"
      using replay_to_step [OF q(1), of q' X v] q' d es by simp
  qed
qed

text \<open>\<^verbatim>\<open>applyLog\<close> on the log of a manifest.\<close>

lemma applyLog_spec:
  assumes s: "invar s" "good X mk (view s)" "sees gen mk (view s) m" and m: "manifest_inv m"
    and a: "applyLog X store ctx (Log m) q c s = ((q', r), c', t)"
  shows "invar t \<and> env (view s) (view t)"
    and "(\<And>d. c \<noteq> OpenConn d) \<Longrightarrow> c' = c"
    and "c = OpenConn d \<Longrightarrow> bSeq (Snapshot m) \<le> q \<Longrightarrow> q \<le> Seq m \<Longrightarrow>
      (tracks mk (view s) m \<longrightarrow> replay_to X (view s) m q = Some d) \<Longrightarrow>
      \<exists>d'. c' = OpenConn d' \<and> bSeq (Snapshot m) \<le> q' \<and> q' \<le> Seq m \<and> (r = None \<longrightarrow> q' = Seq m) \<and>
        (tracks mk (view t) m \<longrightarrow> replay_to X (view t) m q' = Some d')"
proof -
  let ?es = "filter (\<lambda>e. q < eSeq e) (Log m)"
  have refs: "eKey ` set ?es \<subseteq> refs m" by (auto simp: refs_def)
  consider (none) "?es = []" "t = s" "c' = c" "q' = q" "r = None"
    | (failed) x where "fetch_all store ctx ?es s = (Inl x, t)" "c' = c" "q' = q" "r \<noteq> None"
    | (fetched) bs where "fetch_all store ctx ?es s = (Inr bs, t)"
        "apply_all X (zip ?es bs) q c = ((q', r), c')"
    using a by (auto simp: applyLog_def Let_def split: if_splits prod.splits sum.splits)
  note cases = this
  show step: "invar t \<and> env (view s) (view t)"
    by (cases rule: cases)
      (use s(1) env_refl fetch_all_fail fetch_all_spec in blast)+
  show "c' = c" if "\<And>d. c \<noteq> OpenConn d"
    using apply_all_closed [OF that] by (cases rule: cases) (simp, simp, metis snd_conv)
  assume c: "c = OpenConn d" and q: "bSeq (Snapshot m) \<le> q" "q \<le> Seq m"
    and d: "tracks mk (view s) m \<longrightarrow> replay_to X (view s) m q = Some d"
  have es: "?es = drop (nat (q - bSeq (Snapshot m))) (Log m)"
    using m q by (intro contiguous_filter) (auto simp: manifest_inv_def)
  have d': "replay_to X (view t) m q = Some d" if "tracks mk (view t) m"
  proof -
    have "replay_to X (view t) m q = replay_to X (view s) m q"
      using stable_env [OF conjunct2 [OF step] s(2,3) that] by (intro replay_to_cong) simp
    with d stable(1) [OF rely_own s(3) that] step s(2) show ?thesis by simp
  qed
  show "\<exists>d'. c' = OpenConn d' \<and> bSeq (Snapshot m) \<le> q' \<and> q' \<le> Seq m \<and> (r = None \<longrightarrow> q' = Seq m) \<and>
        (tracks mk (view t) m \<longrightarrow> replay_to X (view t) m q' = Some d')"
  proof (cases rule: cases)
    case none
    then have "Seq m \<le> q" using es m q by (simp add: manifest_inv_def)
    with none c q d' show ?thesis by auto
  next
    case failed
    with c q d' show ?thesis by auto
  next
    case (fetched bs)
    have len: "length bs = length ?es" using fetch_all_spec [OF s(1) fetched(1)] by simp
    obtain e where "c' = OpenConn e" "q \<le> q'" "q' \<le> Seq m" "r = None \<longrightarrow> q' = Seq m"
      "(\<And>i. i < length ?es \<Longrightarrow> body_at (view t) (eKey (?es ! i)) = Some (bs ! i)) \<Longrightarrow>
         replay_to X (view t) m q = Some d \<Longrightarrow> replay_to X (view t) m q' = Some e"
      by (rule apply_tail [OF m q es len fetched(2) [unfolded c]]) blast
    with d' q fetch_tracked [OF s fetched(1) refs] show ?thesis by auto
  qed
qed

subsection \<open>Downloading\<close>

lemma downloadParallel_spec:
  assumes s: "invar s" "good X mk (view s)" "sees gen mk (view s) m" and n: "0 < n" "0 < p"
    and r: "downloadParallel store ctx (bKey (Snapshot m)) n p s = (Inr c, t)"
  shows "invar t \<and> env (view s) (view t)"
    and "tracks mk (view t) m \<Longrightarrow> body_at (view t) (bKey (Snapshot m)) = Some b \<Longrightarrow>
      int (length b) = n \<Longrightarrow> c = b"
proof -
  let ?c = "if n div p = 0 then n else n div p" and ?p = "if n div p = 0 then 1 else p"
  let ?rs = "map (part_range n ?c ?p) [0..?p - 1]" and ?k = "bKey (Snapshot m)"
  have ch: "chained 0 ?rs n" by (rule chained_downloadParallel [OF n(2,1)])
  have rs: "download_parts store ctx ?k ?rs [] s = (Inr c, t)"
    using r by (simp add: downloadParallel_def Let_def)
  have ok: "\<forall>(i, j) \<in> set ?rs. 0 \<le> i \<and> i \<le> j" using chained_ranges [OF ch] by simp
  from download_parts_spec [OF s(1) rs ok] obtain bs where
    t: "invar t" "env (view s) (view t)" and bs: "length bs = length ?rs" "c = part_writes ?rs bs []"
    and seen: "\<And>x. x \<in> set bs \<Longrightarrow> \<exists>u. invar u \<and> env (view s) (view u) \<and> env (view u) (view t) \<and>
      body_at (view u) ?k = Some x" by blast
  from t show "invar t \<and> env (view s) (view t)" by simp
  assume tr: "tracks mk (view t) m" and b: "body_at (view t) ?k = Some b" "int (length b) = n"
  have "x = b" if "x \<in> set bs" for x
  proof -
    from seen [OF that] obtain u where u: "env (view s) (view u)" "env (view u) (view t)"
      "body_at (view u) ?k = Some x" by blast
    have "body_at (view u) ?k = body_at (view t) ?k"
      by (rule stable_env [OF u(2) rely_good [OF u(1) s(2)] sees_env [OF u(1) s(2,3)] tr])
        (simp add: refs_def)
    with u b show ?thesis by simp
  qed
  then have "bs = replicate (length ?rs) b" using bs(1) by (intro replicate_eqI) auto
  with part_writes_chained [of "[]" ?rs n b bs] ch b bs(2) show "c = b" by auto
qed

lemma downloadSnapshot_spec:
  assumes s: "invar (w_store w)" "good X mk (view (w_store w))" "sees gen mk (view (w_store w)) m"
    and r: "downloadSnapshot store ctx (bKey (Snapshot m)) (bSize (Snapshot m)) path w = (e, w')"
  shows "invar (w_store w') \<and> env (view (w_store w)) (view (w_store w')) \<and> w_uuid w' = w_uuid w"
    and "e = None \<Longrightarrow> tracks mk (view (w_store w')) m \<Longrightarrow>
      \<exists>c. w_disk w' path = Some c \<and> body_at (view (w_store w')) (bKey (Snapshot m)) = Some c"
proof -
  let ?z = "bSize (Snapshot m)" and ?k = "bKey (Snapshot m)"
  let ?f = "if parallelDownloadThreshold \<le> ?z
            then downloadParallel store ctx ?k ?z parallelDownloadParts else downloadSingle store ctx ?k"
  obtain g t where g: "?f (w_store w) = (g, t)" by fastforce
  note w' = downloadSnapshot_frame [OF r g]
  have t: "invar t \<and> env (view (w_store w)) (view t)"
  proof (cases "parallelDownloadThreshold \<le> ?z")
    case True
    with g have "downloadParallel store ctx ?k ?z parallelDownloadParts (w_store w) = (g, t)" by simp
    then show ?thesis unfolding downloadParallel_def Let_def by (rule download_parts_frame [OF s(1)])
  next
    case False
    with g have "downloadSingle store ctx ?k (w_store w) = (g, t)" by simp
    then show ?thesis by (rule downloadSingle_frame [OF s(1)])
  qed
  with w' s(1) env_refl
  show "invar (w_store w') \<and> env (view (w_store w)) (view (w_store w')) \<and> w_uuid w' = w_uuid w"
    by auto
  assume e: "e = None" and tr: "tracks mk (view (w_store w')) m"
  from w' e obtain c where c: "w_store w' = t" "g = Inr c" "w_disk w' path = Some c" by auto
  have gt: "good X mk (view t)" using rely_good [OF conjunct2 [OF t] s(2)] .
  then have "coherent X mk (view t)" by (simp add: good_def)
  then obtain m' where m': "man mk (view t) = Some m'" "size_ok (view t) (Snapshot m')"
    by (rule coherent_man)
  with tr c have z: "size_ok (view t) (Snapshot m)" by (simp add: tracks_def extends_def)
  have "body_at (view t) ?k = Some c"
  proof (cases "parallelDownloadThreshold \<le> ?z")
    case True
    then obtain b where b: "body_at (view t) ?k = Some b" "int (length b) = ?z"
      using z by (auto simp: size_ok_def)
    have "downloadParallel store ctx ?k ?z parallelDownloadParts (w_store w) = (Inr c, t)"
      using g c True by simp
    from downloadParallel_spec(2) [OF s _ _ this _ b(1)] True tr c b
    show ?thesis by (simp add: parallelDownloadThreshold_def parallelDownloadParts_def)
  next
    case False
    with g c downloadSingle_spec [OF s(1)] show ?thesis by auto
  qed
  with c show "\<exists>c. w_disk w' path = Some c \<and> body_at (view (w_store w')) ?k = Some c" by simp
qed

subsection \<open>Refreshing\<close>

lemma fullRefresh_spec:
  assumes s: "invar (w_store w)" "good X mk (view (w_store w))"
    "sees gen mk (view (w_store w)) (st_manifest st)" and m: "manifest_inv (st_manifest st)"
    and r: "fullRefresh X cfg ctx path st w = (e, st', w')"
  shows "invar (w_store w') \<and> env (view (w_store w)) (view (w_store w')) \<and> w_uuid w' = w_uuid w"
    and "st_manifest st' = st_manifest st \<and> st_etag st' = st_etag st"
    and "e \<noteq> None \<longrightarrow> st_conn st' \<in> {NilConn, ClosedConn}"
    and "e = None \<longrightarrow> (\<exists>d. st_conn st' = OpenConn d \<and> conn_ok X mk (view (w_store w')) st' d \<and>
      localSeq st' = bSeq (Snapshot (st_manifest st)))"
proof -
  let ?m = "st_manifest st"
  obtain x1 w1 where c: "(case st_conn st of NilConn \<Rightarrow> (None, w) | c \<Rightarrow> conn_Close X path c w) = (x1, w1)"
    by fastforce
  have w1: "w_store w1 = w_store w" "w_uuid w1 = w_uuid w"
    using c by (auto dest!: conn_Close_frame split: conn.splits)
  obtain x2 w2 where d: "downloadSnapshot store ctx (bKey (Snapshot ?m)) (bSize (Snapshot ?m)) path w1
      = (x2, w2)" by fastforce
  note ds = downloadSnapshot_spec [OF _ _ _ d, unfolded w1, OF s]
  obtain x3 w3 where o: "openLocalConn X path w2 = (x3, w3)" by fastforce
  have w3: "w_store w3 = w_store w2" "w_uuid w3 = w_uuid w2"
    using sqlite_OpenConn_frame [OF o [unfolded openLocalConn_def]] by simp_all
  note r' = r [unfolded fullRefresh_def Let_def c]
  show "invar (w_store w') \<and> env (view (w_store w)) (view (w_store w')) \<and> w_uuid w' = w_uuid w"
    using r' w1 d o w3 ds(1) s(1) env_refl
    by (cases x1; cases x2; cases x3) auto
  show "st_manifest st' = ?m \<and> st_etag st' = st_etag st"
    and "e \<noteq> None \<longrightarrow> st_conn st' \<in> {NilConn, ClosedConn}"
    using r' d o by (cases x1; cases x2; cases x3; auto)+
  show "e = None \<longrightarrow> (\<exists>d. st_conn st' = OpenConn d \<and> conn_ok X mk (view (w_store w')) st' d \<and>
      localSeq st' = bSeq (Snapshot ?m))"
  proof
    assume "e = None"
    with r' d o obtain y where y: "x2 = None" "x3 = Inr y" "w' = w3"
      "st' = st\<lparr>st_conn := OpenConn y, localSeq := bSeq (Snapshot ?m), snapshotKey := bKey (Snapshot ?m)\<rparr>"
      by (cases x1; cases x2; cases x3) auto
    have "replay_to X (view (w_store w')) ?m (bSeq (Snapshot ?m)) = Some y"
      if "tracks mk (view (w_store w')) ?m"
    proof -
      have "tracks mk (view (w_store w2)) ?m" using that y w3 by simp
      from ds(2) [OF y(1) this] obtain b where "w_disk w2 path = Some b"
        "body_at (view (w_store w2)) (bKey (Snapshot ?m)) = Some b" by auto
      moreover from o y have "w_disk w2 path = Some b \<Longrightarrow> sq_open X b = Inr y"
        by (auto simp: openLocalConn_def sqlite_OpenConn_def dest!: local_call_frame
            split: prod.splits option.splits)
      ultimately show ?thesis using y w3 by (simp add: replay_to_def base_of_def)
    qed
    with y m show "\<exists>d. st_conn st' = OpenConn d \<and> conn_ok X mk (view (w_store w')) st' d \<and>
      localSeq st' = bSeq (Snapshot ?m)"
      by (simp add: conn_ok_def Let_def manifest_inv_def)
  qed
qed

text \<open>\<^verbatim>\<open>syncToManifest\<close>, complete or interrupted, leaves a handle that knows where it is.\<close>

lemma sync_spec:
  assumes s: "invar (w_store w)" "good X mk (view (w_store w))"
    "sees gen mk (view (w_store w)) (st_manifest st)"
    and m: "manifest_inv (st_manifest st)" "wire_ok (st_manifest st)"
    and c: "\<And>d. \<not> needRefresh st \<Longrightarrow> st_conn st = OpenConn d \<Longrightarrow> conn_ok X mk (view (w_store w)) st d"
    and r: "syncToManifest X cfg ctx path st w = (e, st', w')"
  shows "invar (w_store w') \<and> env (view (w_store w)) (view (w_store w')) \<and> w_uuid w' = w_uuid w"
    and "st_manifest st' = st_manifest st \<and> st_etag st' = st_etag st"
    and "handle_ok X gen mk (view (w_store w')) st'"
    and "e = None \<longrightarrow> synced st'"
proof -
  let ?m = "st_manifest st"
  obtain x1 st1 w1 where f: "(if needRefresh st then fullRefresh X cfg ctx path st w else (None, st, w))
      = (x1, st1, w1)" by (metis prod_cases3)
  have 1: "invar (w_store w1)" "env (view (w_store w)) (view (w_store w1))" "w_uuid w1 = w_uuid w"
    "st_manifest st1 = ?m" "st_etag st1 = st_etag st"
    using fullRefresh_spec(1,2) [OF s m(1)] f s(1) env_refl by (auto split: if_splits)
  have c1: "conn_ok X mk (view (w_store w1)) st1 d" if "x1 = None" "st_conn st1 = OpenConn d" for d
  proof (cases "needRefresh st")
    case True
    with f fullRefresh_spec(4) [OF s m(1), of ctx path x1 st1 w1] that show ?thesis by auto
  qed (use f c that in auto)
  have g1: "good X mk (view (w_store w1))" "sees gen mk (view (w_store w1)) ?m"
    using rely_good sees_env 1(2) s by blast+
  show "invar (w_store w') \<and> env (view (w_store w)) (view (w_store w')) \<and> w_uuid w' = w_uuid w"
    and "st_manifest st' = ?m \<and> st_etag st' = st_etag st"
    and "handle_ok X gen mk (view (w_store w')) st'"
    and "e = None \<longrightarrow> synced st'"
  proof -
    consider (failed) x where "x1 = Some x" "e = Some x" "st' = st1" "w' = w1"
      | (replayed) q r' cc t where "x1 = None"
        "applyLog X store ctx (Log ?m) (localSeq st1) (st_conn st1) (w_store w1) = ((q, r'), cc, t)"
        "e = r'" "st' = st1\<lparr>localSeq := q, st_conn := cc\<rparr>" "w' = w1\<lparr>w_store := t\<rparr>"
      using r f 1(4) by (auto simp: syncToManifest_def split: option.splits prod.splits)
    then have "(invar (w_store w') \<and> env (view (w_store w)) (view (w_store w')) \<and> w_uuid w' = w_uuid w)
      \<and> (st_manifest st' = ?m \<and> st_etag st' = st_etag st) \<and>
      handle_ok X gen mk (view (w_store w')) st' \<and> (e = None \<longrightarrow> synced st')"
    proof cases
      case failed
      then have "st_conn st1 \<in> {NilConn, ClosedConn}"
        using fullRefresh_spec(3) [OF s m(1)] f by (auto split: if_splits)
      then show ?thesis using failed 1 g1 m by (auto simp: handle_ok_def)
    next
      case replayed
      note a = applyLog_spec [OF 1(1) g1 m(1) replayed(2)]
      have v: "invar (w_store w')" "env (view (w_store w1)) (view (w_store w'))"
        using a(1) replayed by auto
      have se: "sees gen mk (view (w_store w')) ?m" using sees_env v(2) g1 by blast
      have "handle_ok X gen mk (view (w_store w')) st' \<and> (e = None \<longrightarrow> synced st')"
      proof (cases "\<exists>d. st_conn st1 = OpenConn d")
        case False
        then have "cc = st_conn st1" using a(2) by blast
        with False replayed 1 se m show ?thesis
          by (auto simp: handle_ok_def synced_def split: conn.splits)
      next
        case True
        then obtain d where d: "st_conn st1 = OpenConn d" ..
        with c1 replayed(1) have co: "conn_ok X mk (view (w_store w1)) st1 d" by blast
        with a(3) [OF d] 1(4) obtain d' where "cc = OpenConn d'" "bSeq (Snapshot ?m) \<le> q" "q \<le> Seq ?m"
          "r' = None \<longrightarrow> q = Seq ?m" "tracks mk (view t) ?m \<longrightarrow> replay_to X (view t) ?m q = Some d'"
          by (auto simp: conn_ok_def Let_def)
        with replayed 1 se m co show ?thesis
          by (auto simp: handle_ok_def synced_def conn_ok_def Let_def)
      qed
      with replayed 1 v env_trans [OF 1(2) v(2)] show ?thesis by auto
    qed
    then show "invar (w_store w') \<and> env (view (w_store w)) (view (w_store w')) \<and> w_uuid w' = w_uuid w"
      and "st_manifest st' = ?m \<and> st_etag st' = st_etag st"
      and "handle_ok X gen mk (view (w_store w')) st'" and "e = None \<longrightarrow> synced st'"
      by blast+
  qed
qed

text \<open>Taking over a manifest read from the store, with the handle at an earlier one.\<close>

lemma sync_adopt:
  assumes s: "invar (w_store w)" "good X mk u" "env u (view (w_store w))"
    and h: "handle_ok X gen mk u st" and m: "man mk u = Some m" and l: "linked m e"
    and r: "syncToManifest X cfg ctx path (st\<lparr>st_manifest := m, st_etag := e\<rparr>) w = (x, st', w')"
  shows "invar (w_store w') \<and> env (view (w_store w)) (view (w_store w')) \<and> w_uuid w' = w_uuid w \<and>
    handle_ok X gen mk (view (w_store w')) st' \<and> linked (st_manifest st') (st_etag st') \<and>
    (x = None \<longrightarrow> synced st' \<and> st_manifest st' = m)"
proof -
  from s(2) have "coherent X mk u" by (simp add: good_def)
  then obtain m' where "man mk u = Some m'" "manifest_inv m'" "wire_ok m'" by (rule coherent_man)
  with m have im: "manifest_inv m" "wire_ok m" by auto
  have g: "good X mk (view (w_store w))" and se: "sees gen mk (view (w_store w)) m"
    using rely_good [OF s(3,2)] sees_env [OF s(3,2) sees_current [OF m]] by auto
  let ?st = "st\<lparr>st_manifest := m, st_etag := e\<rparr>"
  have c: "conn_ok X mk (view (w_store w)) ?st d" if "\<not> needRefresh ?st" "st_conn ?st = OpenConn d" for d
  proof (rule conn_ok_evolves [OF rely_own [OF s(3,2)]])
    show "sees gen mk u (st_manifest ?st)" using sees_current [OF m] by simp
    show "conn_ok X mk u ?st d"
      using conn_ok_adopt(2) [OF h _ m im(1)] that by (simp add: needRefresh_def)
  qed
  note sy = sync_spec [of w ?st, OF s(1) g _ _ _ _ r, simplified, OF se im]
  show ?thesis using sy c l by simp
qed

lemma refresh_spec:
  assumes s: "invar (w_store w)" "good X mk (view (w_store w))"
    and h: "handle_ok X gen mk (view (w_store w)) st" "linked (st_manifest st) (st_etag st)"
    and r: "refreshManifest X cfg ctx path st w = (x, st', w')"
  shows "invar (w_store w') \<and> env (view (w_store w)) (view (w_store w')) \<and> w_uuid w' = w_uuid w \<and>
    handle_ok X gen mk (view (w_store w')) st' \<and> linked (st_manifest st') (st_etag st') \<and>
    (x = None \<longrightarrow> synced st' \<and> SchemaVersion (st_manifest st') = schemaVer cfg)"
proof -
  obtain g t where g: "loadManifest store ctx mk (w_store w) = (g, t)" by fastforce
  from load_spec(1) [OF s(1) g] have t: "invar t" "env (view (w_store w)) (view t)" by auto
  have gt: "good X mk (view t)" and ht: "handle_ok X gen mk (view t) st"
    using rely_good handle_ok_env t(2) s(2) h(1) by blast+
  have l: "on_store (loadManifest store ctx mk) w = (g, w\<lparr>w_store := t\<rparr>)"
    using g by (simp add: on_store_def)
  consider (stop) y where "st' = st" "w' = w\<lparr>w_store := t\<rparr>" "x = Some y"
    | (go) m e where "g = Inr (m, e)" "schemaCheck (schemaVer cfg) m = None"
      "syncToManifest X cfg ctx path (st\<lparr>st_manifest := m, st_etag := e\<rparr>) (w\<lparr>w_store := t\<rparr>) = (x, st', w')"
    using r l by (cases g; cases "schemaCheck (schemaVer cfg) (fst (projr g))")
      (auto simp: refreshManifest_def dest: sym split: prod.splits)
  then show ?thesis
  proof cases
    case stop
    with t ht h(2) show ?thesis by auto
  next
    case go
    from load_spec(2) [OF s(1) g go(1)] have m: "man mk (view t) = Some m" "linked m e" by auto
    have "SchemaVersion m = schemaVer cfg" using go(2) by (auto simp: schemaCheck_def split: if_splits)
    with sync_adopt [of "w\<lparr>w_store := t\<rparr>" "view t", OF _ gt _ ht m go(3)] t
      env_refl env_trans [OF t(2)] show ?thesis by auto
  qed
qed

end

end
