(* ===== verification/Commit_Safety.thy ===== *)
theory Commit_Safety
  imports Handle
begin

text \<open>
  The commit loop in the presence of other clients.  An attempt captures the closure's
  changeset on the content of the manifest's last sequence number; the rebase law lets it
  move over the changesets of others; the compare-and-swap succeeds only if the manifest it
  was moved to is still the one in the store.  So what the new manifest describes is what the
  connection holds.
\<close>

section \<open>Keys\<close>

text \<open>The keys made from one UUID.\<close>

definition keys_at :: "'db ext \<Rightarrow> 's commitConfig \<Rightarrow> nat \<Rightarrow> string set" where
  "keys_at X cfg n = range (\<lambda>ep. own_key X cfg ep n) \<union> snap_keys X cfg n"

lemma uuid_chars:
  assumes "uuid_law X"
  shows "CHR ''/'' \<notin> set (uuid_string X n)" "CHR ''m'' \<notin> set (uuid_string X n)"
    "list_all is_ascii (uuid_string X n)"
proof -
  have s: "set (uuid_string X n) \<subseteq> set ''0123456789abcdef-''" using assms by (simp add: uuid_law_def)
  show "CHR ''/'' \<notin> set (uuid_string X n)" "CHR ''m'' \<notin> set (uuid_string X n)" using s by auto
  show "list_all is_ascii (uuid_string X n)" using s by (auto simp: list_all_iff is_ascii_def)
qed

lemma uuid_inj: "uuid_law X \<Longrightarrow> uuid_string X n = uuid_string X n' \<Longrightarrow> n = n'"
  by (simp add: uuid_law_def inj_eq)

lemma own_key_suffix:
  assumes "CHR ''/'' \<notin> set (uuid_string X n)"
  shows "rev (takeWhile (\<lambda>c. c \<noteq> CHR ''/'') (rev (own_key X cfg ep n)))
    = ''cs-'' @ uuid_string X n @ ''.bin''"
proof -
  have "rev (own_key X cfg ep n) =
      rev (''cs-'' @ uuid_string X n @ ''.bin'') @ CHR ''/'' # rev (cfg_prefix cfg @ ''changesets/'' @ ep)"
    by (simp add: own_key_def)
  then show ?thesis
    using takeWhile_before [of "CHR ''/''" "rev (''cs-'' @ uuid_string X n @ ''.bin'')"] assms by simp
qed

lemma own_key_inj:
  assumes "uuid_law X" and "own_key X cfg ep n = own_key X cfg ep' n'"
  shows "n = n'"
proof -
  have "''cs-'' @ uuid_string X n @ ''.bin'' = ''cs-'' @ uuid_string X n' @ ''.bin''"
    using own_key_suffix [of X n cfg ep] own_key_suffix [of X n' cfg ep'] assms uuid_chars [OF assms(1)]
    by metis
  then show ?thesis using uuid_inj [OF assms(1)] by simp
qed

lemma migrationKey_inj:
  assumes "uuid_law X" and "0 \<le> ver" and "0 \<le> ver'"
    and "migrationKey cfg ver (uuid_string X n) = migrationKey cfg ver' (uuid_string X n')"
  shows "n = n'"
proof -
  have d: "CHR ''-'' \<notin> set (FormatInt v)" if "0 \<le> v" for v
    using that show_nat_digits [of "nat v"] by (auto simp: FormatInt_def is_digit_def list_all_iff)
  have e: "FormatInt ver @ CHR ''-'' # uuid_string X n = FormatInt ver' @ CHR ''-'' # uuid_string X n'"
    using assms(4) by (simp add: migrationKey_def)
  from arg_cong [OF e, of "takeWhile (\<lambda>c. c \<noteq> CHR ''-'')"] have "FormatInt ver = FormatInt ver'"
    using takeWhile_before [OF d [OF assms(2)]] takeWhile_before [OF d [OF assms(3)]] by simp
  with e show ?thesis using uuid_inj [OF assms(1)] by simp
qed

lemma compactKey_migrationKey:
  assumes "uuid_law X"
  shows "compactKey cfg (uuid_string X n) \<noteq> migrationKey cfg ver u"
proof
  assume "compactKey cfg (uuid_string X n) = migrationKey cfg ver u"
  then have "uuid_string X n @ ''.sqlite'' = ''mig-'' @ FormatInt ver @ ''-'' @ u @ ''.sqlite''"
    by (simp add: compactKey_def migrationKey_def)
  then have "CHR ''m'' \<in> set (uuid_string X n)" by (cases "uuid_string X n") auto
  with uuid_chars [OF assms] show False by blast
qed

lemma snap_keys_cases:
  assumes "k \<in> snap_keys X cfg n"
  obtains (compact) "k = compactKey cfg (uuid_string X n)"
    | (migration) ver where "k = migrationKey cfg ver (uuid_string X n)" "0 \<le> ver"
  using assms by (auto simp: snap_keys_def)

lemma snap_keys_inj:
  assumes u: "uuid_law X" and "k \<in> snap_keys X cfg n" and "k \<in> snap_keys X cfg n'"
  shows "n = n'"
  using assms(2)
proof (cases rule: snap_keys_cases)
  case c: compact
  from assms(3) show ?thesis
  proof (cases rule: snap_keys_cases)
    case compact
    with c have "uuid_string X n = uuid_string X n'" by (simp add: compactKey_def)
    then show ?thesis by (rule uuid_inj [OF u])
  next
    case (migration ver)
    with c compactKey_migrationKey [OF u] show ?thesis by metis
  qed
next
  case (migration ver)
  from assms(3) show ?thesis
  proof (cases rule: snap_keys_cases)
    case compact
    with migration compactKey_migrationKey [OF u] show ?thesis by metis
  next
    case (migration ver')
    with \<open>k = migrationKey cfg ver (uuid_string X n)\<close> \<open>0 \<le> ver\<close> show ?thesis
      using migrationKey_inj [OF u] by metis
  qed
qed

lemma snap_key_form: "k \<in> snap_keys X cfg n \<Longrightarrow> \<exists>r. k = cfg_prefix cfg @ ''snapshots/'' @ r"
  by (auto simp: snap_keys_def compactKey_def migrationKey_def)

lemma own_key_snap [simp]: "own_key X cfg ep i \<notin> snap_keys X cfg n"
  by (auto simp: own_key_def dest!: snap_key_form)

lemma keys_at_inj:
  assumes u: "uuid_law X" and "k \<in> keys_at X cfg n" and "k \<in> keys_at X cfg n'"
  shows "n = n'"
  using assms(2,3)
  by (auto simp: keys_at_def intro: own_key_inj [OF u] snap_keys_inj [OF u])

lemma keys_at_mk: "wf_cfg cfg \<Longrightarrow> k \<in> keys_at X cfg n \<Longrightarrow> k \<noteq> manifestKey cfg"
  by (auto simp: keys_at_def own_key_def wf_cfg_def dest!: snap_key_form)

lemma keys_at_own: "k \<in> keys_at X cfg n \<Longrightarrow> \<exists>ep. k \<in> own X cfg ep"
  by (auto simp: keys_at_def own_def)

lemma own_key_at: "own_key X cfg ep n \<in> keys_at X cfg n"
  by (simp add: keys_at_def)

lemma own_key_nonempty: "own_key X cfg ep n \<noteq> ''''"
  by (simp add: own_key_def)

lemma own_key_ascii:
  "wf_cfg cfg \<Longrightarrow> uuid_law X \<Longrightarrow> list_all is_ascii ep \<Longrightarrow> list_all is_ascii (own_key X cfg ep n)"
  using uuid_chars(3) [of X n] by (simp add: own_key_def wf_cfg_def is_ascii_def)

lemma fresh_keys_at:
  "fresh_keys X cfg gen v n \<Longrightarrow> man (manifestKey cfg) v = Some m \<Longrightarrow> n \<le> i \<Longrightarrow> k \<in> keys_at X cfg i \<Longrightarrow>
     k \<notin> refs m"
  by (auto simp: fresh_keys_def keys_at_def)

lemma fresh_keys_mono: "fresh_keys X cfg gen v n \<Longrightarrow> n \<le> n' \<Longrightarrow> fresh_keys X cfg gen v n'"
  by (auto simp: fresh_keys_def dest: order_trans)

lemma fresh_keys_cong:
  "man (manifestKey cfg) u = man (manifestKey cfg) v \<Longrightarrow>
     fresh_keys X cfg gen u n = fresh_keys X cfg gen v n"
  by (simp add: fresh_keys_def)

lemma epoch_ascii: "list_all is_ascii (bKey (Snapshot m)) \<Longrightarrow> list_all is_ascii (epoch m)"
  using path_Base_set [of "bKey (Snapshot m)"]
  by (fastforce simp: epoch_def Let_def list_all_iff is_ascii_def dest: in_set_takeD)

section \<open>Rebasing\<close>

text \<open>If a changeset and a log tail both apply, they can be swapped.\<close>

lemma rebase_entries:
  assumes "rebase_law X" and "recorded X cs" and "log_recorded X v es"
    and "apply_bytes X cs d = Some d1"
    and "apply_entries X v es d = Some d2" and "apply_entries X v es d1 = Some d3"
  shows "apply_bytes X cs d2 = Some d3"
  using assms(3-)
proof (induction es arbitrary: d d1)
  case (Cons e es)
  from Cons.prems(3) obtain b d' where b: "body_at v (eKey e) = Some b" "apply_bytes X b d = Some d'"
    "apply_entries X v es d' = Some d2" by (auto split: option.splits)
  with Cons.prems(4) obtain d1' where d1: "apply_bytes X b d1 = Some d1'"
    "apply_entries X v es d1' = Some d3" by (auto split: option.splits)
  from Cons.prems(1) b(1) have rec: "recorded X b" "log_recorded X v es"
    by (auto simp: log_recorded_def)
  from rebase_bytes [OF assms(1,2) rec(1) Cons.prems(2) b(2) d1(1)]
  have "apply_bytes X cs d' = Some d1'" .
  from Cons.IH [OF rec(2) this b(3) d1(2)] show ?case .
qed simp

text \<open>
  Whether a run of the loop rolls back after a clean rebase: an attempt that starts with a
  rebased changeset ends neither in a commit nor in another clean rebase.
\<close>

fun rolls_back_rebase ::
  "'db ext \<Rightarrow> 's commitConfig \<Rightarrow> ctx \<Rightarrow> string \<Rightarrow> 'db txn \<Rightarrow> nat \<Rightarrow> nat \<Rightarrow>
     'db loopState \<Rightarrow> 'db commitState \<Rightarrow> 's world \<Rightarrow> bool" where
  "rolls_back_rebase X cfg ctx localPath fn 0 attempt ls st w = (\<not> needCapture ls)"
| "rolls_back_rebase X cfg ctx localPath fn (Suc n) attempt ls st w =
     (case updateAttempt X cfg ctx localPath fn attempt ls st w of
        (Return r, ls', st', w') \<Rightarrow> \<not> needCapture ls \<and> r \<noteq> None
      | (Again, ls', st', w') \<Rightarrow>
          \<not> needCapture ls \<and> needCapture ls' \<or>
          rolls_back_rebase X cfg ctx localPath fn n (Suc attempt) ls' st' w')"

text \<open>
  Whether the \<^verbatim>\<open>RELEASE\<close> that follows a successful compare-and-swap is interrupted, in one attempt
  and in a run of the loop.
\<close>

definition release_fails ::
  "'s commitConfig \<Rightarrow> ctx \<Rightarrow> 'db loopState \<Rightarrow> 'db commitState \<Rightarrow> 's world \<Rightarrow> bool" where
  "release_fails cfg ctx ls st w =
     (case casManifest cfg ctx ls st w of
        ((Inr e, m), w') \<Rightarrow> fst (local_call w') \<noteq> None
      | ((Inl e, m), w') \<Rightarrow> False)"

fun interrupted_release ::
  "'db ext \<Rightarrow> 's commitConfig \<Rightarrow> ctx \<Rightarrow> string \<Rightarrow> 'db txn \<Rightarrow> nat \<Rightarrow> nat \<Rightarrow>
     'db loopState \<Rightarrow> 'db commitState \<Rightarrow> 's world \<Rightarrow> bool" where
  "interrupted_release X cfg ctx localPath fn 0 attempt ls st w = False"
| "interrupted_release X cfg ctx localPath fn (Suc n) attempt ls st w =
     (case beginAttempt X cfg ctx fn attempt ls st w of
        (Return r, ls', st', w') \<Rightarrow> False
      | (Again, ls', st', w') \<Rightarrow>
          release_fails cfg ctx ls' st' w' \<or>
          (case phaseCommit X cfg ctx localPath ls' st' w' of
             (Return r, ls'', st'', w'') \<Rightarrow> False
           | (Again, ls'', st'', w'') \<Rightarrow>
               interrupted_release X cfg ctx localPath fn n (Suc attempt) ls'' st'' w''))"

lemma rollback_simps [simp]:
  "rollback None st = st" "st_manifest (rollback s st) = st_manifest st" "st_etag (rollback s st) = st_etag st"
  "rollback (Some d) st = st\<lparr>st_conn := OpenConn d\<rparr>"
  by (simp_all add: rollback_def split: option.splits)

lemma releaseSave_cases:
  assumes "releaseSave s st w = (r, st', w')"
  shows "w_store w' = w_store w \<and> w_uuid w' = w_uuid w \<and> r = fst (local_call w) \<and>
    st' = (if r = None then st else rollback s st)"
  using assms by (auto simp: releaseSave_def dest: local_call_frame split: prod.splits option.splits)

lemma calm_release: "w_io w = [] \<Longrightarrow> \<not> release_fails cfg ctx ls st w"
  by (auto simp: release_fails_def casManifest_def on_store_def split: prod.splits sum.splits)

context cas_store
begin

text \<open>The outcomes of a conditional write.\<close>

lemma Put_cases:
  assumes "invar s" and "Put store ctx k (Inr b) c s = (g, t)"
  shows "invar t \<and> (\<exists>u. invar u \<and> env (view s) (view u) \<and>
      (view t = view u \<and> (\<exists>x. g = Inl x) \<or>
       (\<exists>y. cond_ok c (view u k) \<and> view t = (view u)(k \<mapsto> (b, y)) \<and>
          (\<forall>x. g = Inl x \<longrightarrow> \<not> errors_Is x ErrPreconditionFailed) \<and> (\<forall>x. g = Inr x \<longrightarrow> y = x))))"
proof (cases g)
  case (Inl x)
  with Put_fail [OF assms(1) assms(2) [unfolded Inl]] show ?thesis by auto
next
  case (Inr y)
  with Put_done [OF assms(1) assms(2) [unfolded Inr]] show ?thesis by auto
qed

lemma applyMissingEntry_frame:
  assumes "invar s" and "applyMissingEntry X store ctx e c s = (r, c', t)"
  shows "invar t \<and> env (view s) (view t)"
proof -
  obtain g u where g: "Get store ctx (eKey e) s = (g, u)" by fastforce
  with assms(2) have "u = t"
    by (auto simp: applyMissingEntry_def split: sum.splits prod.splits)
  with Get_step [OF assms(1) g] show ?thesis by simp
qed

lemma rebase_frame:
  "invar s \<Longrightarrow> rebase X store ctx q es c s = (r, c', t) \<Longrightarrow> invar t \<and> env (view s) (view t)"
proof (induction es arbitrary: c s)
  case (Cons e es)
  obtain x c1 u where a: "applyMissingEntry X store ctx e c s = (x, c1, u)" by (metis prod_cases3)
  from applyMissingEntry_frame [OF Cons.prems(1) a] have u: "invar u" "env (view s) (view u)" by auto
  show ?case
  proof (cases "eSeq e \<le> q \<or> x \<noteq> None")
    case True
    with Cons u a show ?thesis by (auto split: if_splits)
  next
    case False
    with Cons.prems(2) a have "rebase X store ctx q es c1 u = (r, c', t)" by auto
    from Cons.IH [OF u(1) this] show ?thesis using env_trans [OF u(2)] by auto
  qed
qed (simp add: env_refl)

text \<open>A clean rebase is the replay of the missing entries.\<close>

lemma rebase_clean:
  assumes "invar s" and "rebase X store ctx q es (OpenConn d) s = (Inr True, c, t)"
  shows "\<exists>bs. length bs = length (filter (\<lambda>e. q < eSeq e) es) \<and>
    (\<forall>i < length bs. \<exists>u. invar u \<and> env (view s) (view u) \<and> env (view u) (view t) \<and>
       body_at (view u) (eKey (filter (\<lambda>e. q < eSeq e) es ! i)) = Some (bs ! i)) \<and>
    (\<exists>q'. apply_all X (zip (filter (\<lambda>e. q < eSeq e) es) bs) q0 (OpenConn d) = ((q', None), c))"
  using assms
proof (induction es arbitrary: d s q0)
  case (Cons e es)
  let ?f = "filter (\<lambda>e. q < eSeq e)"
  show ?case
  proof (cases "q < eSeq e")
    case False
    with Cons show ?thesis by simp
  next
    case True
    with Cons.prems(2) obtain c1 u where a: "applyMissingEntry X store ctx e (OpenConn d) s = (None, c1, u)"
      and r: "rebase X store ctx q es c1 u = (Inr True, c, t)"
      by (auto split: prod.splits option.splits if_splits)
    from a obtain b x where g: "Get store ctx (eKey e) s = (Inr (Inr b, x), u)"
      and ap: "applyChangeset X (OpenConn d) b conflictAbort = (None, c1)"
      by (auto simp: applyMissingEntry_def split: prod.splits sum.splits)
    from ap obtain d1 where c1: "c1 = OpenConn d1" by (auto simp: applyChangeset_ok)
    from Get_step [OF Cons.prems(1) g] have u: "invar u" "env (view s) (view u)" by auto
    from Get_some [OF Cons.prems(1) g] have b: "body_at (view u) (eKey e) = Some b"
      by (auto simp: body_at_def)
    from rebase_frame [OF u(1) r] have t: "env (view u) (view t)" by simp
    from Cons.IH [OF u(1) r [unfolded c1], of "eSeq e"] obtain bs q' where bs: "length bs = length (?f es)"
      "\<And>i. i < length bs \<Longrightarrow> \<exists>y. invar y \<and> env (view u) (view y) \<and> env (view y) (view t) \<and>
         body_at (view y) (eKey (?f es ! i)) = Some (bs ! i)"
      "apply_all X (zip (?f es) bs) (eSeq e) (OpenConn d1) = ((q', None), c)" by blast
    have "\<exists>y. invar y \<and> env (view s) (view y) \<and> env (view y) (view t) \<and>
         body_at (view y) (eKey (?f (e # es) ! i)) = Some ((b # bs) ! i)" if "i < length (b # bs)" for i
    proof (cases i)
      case 0
      then show ?thesis using u t b True by auto
    next
      case (Suc n)
      with that have "n < length bs" by simp
      from bs(2) [OF this] show ?thesis using Suc True env_trans [OF u(2)] by auto
    qed
    moreover have "apply_all X (zip (?f (e # es)) (b # bs)) q0 (OpenConn d) = ((q', None), c)"
      using True ap c1 bs(3) by simp
    ultimately show ?thesis using bs(1) True by (intro exI [of _ "b # bs"]) auto
  qed
qed simp

end

section \<open>Invariants of the loop\<close>

context client
begin

definition unref :: "objs \<Rightarrow> nat \<Rightarrow> string \<Rightarrow> bool" where
  "unref v n k \<longleftrightarrow>
     (\<exists>i < n. k \<in> keys_at X cfg i) \<and> (\<forall>m. man mk v = Some m \<longrightarrow> k \<notin> refs m)"

text \<open>Before a capture.\<close>

definition ready :: "objs \<Rightarrow> nat \<Rightarrow> 'db loopState \<Rightarrow> 'db commitState \<Rightarrow> bool" where
  "ready v n ls st \<longleftrightarrow>
     needCapture ls \<and> release ls = None \<and> handle_ok X gen mk v st \<and> synced st \<and>
     linked (st_manifest st) (st_etag st) \<and> (orphan ls = '''' \<or> unref v n (orphan ls))"

text \<open>
  After a capture: the changeset is uploaded and not referenced, and takes the content at
  the end of the manifest's log to the content of the connection.
\<close>

definition captured :: "objs \<Rightarrow> nat \<Rightarrow> 'db loopState \<Rightarrow> 'db commitState \<Rightarrow> bool" where
  "captured v n ls st \<longleftrightarrow>
     (let m = st_manifest st
      in \<not> needCapture ls \<and> orphan ls = '''' \<and> manifest_inv m \<and> wire_ok m \<and> sees gen mk v m \<and>
         linked m (st_etag st) \<and> snapshotKey st = bKey (Snapshot m) \<and> localSeq st = Seq m \<and>
         (\<exists>i. csKey ls = own_key X cfg (epoch m) i) \<and> unref v n (csKey ls) \<and>
         int (length (ls_cs ls)) \<le> max_int64 \<and> recorded X (ls_cs ls) \<and>
         (\<exists>d1. st_conn st = OpenConn d1 \<and>
            (tracks mk v m \<longrightarrow>
               body_at v (csKey ls) = Some (ls_cs ls) \<and>
               (\<exists>d. replay_to X v m (Seq m) = Some d \<and> apply_bytes X (ls_cs ls) d = Some d1))))"

text \<open>The savepoint is where the handle can go back to.\<close>

definition saved :: "objs \<Rightarrow> 'db loopState \<Rightarrow> 'db commitState \<Rightarrow> bool" where
  "saved v ls st \<longleftrightarrow>
     (\<exists>d0. release ls = Some d0 \<and> handle_ok X gen mk v (st\<lparr>st_conn := OpenConn d0\<rparr>))"

text \<open>What a return with the result \<open>x\<close> leaves, whether the deferred release releases or rolls back.\<close>

definition landed :: "objs \<Rightarrow> err option \<Rightarrow> 'db loopState \<Rightarrow> 'db commitState \<Rightarrow> bool" where
  "landed v x ls st \<longleftrightarrow>
     handle_ok X gen mk v (rollback (release ls) st) \<and> (x = None \<longrightarrow> handle_ok X gen mk v st)"

text \<open>What an iteration leaves in the store, whatever its result.\<close>

definition progress :: "objs \<Rightarrow> objs \<Rightarrow> nat \<Rightarrow> bool" where
  "progress u v n \<longleftrightarrow> good X mk v \<and> evolves gen mk others u v \<and> fresh v n"

lemma good_man:
  assumes "good X mk v"
  obtains m where "man mk v = Some m" "manifest_inv m" "wire_ok m" "mk \<notin> refs m"
  using assms by (auto simp: good_def elim: coherent_man)

lemma unref_env:
  assumes e: "env u v" "good X mk u" and k: "unref u n k"
  shows "unref v n k"
proof -
  obtain m where m: "man mk u = Some m" using e(2) by (rule good_man)
  obtain i where i: "i < n" "k \<in> keys_at X cfg i" using k by (auto simp: unref_def)
  then obtain ep where ep: "k \<in> own X cfg ep" using keys_at_own by blast
  have "k \<notin> refs m'" if "man mk v = Some m'" for m'
  proof -
    from evolves_man [OF rely_own [OF e] m] that have "refs m' \<inter> (\<Union>ep. own X cfg ep) \<subseteq> refs m" by auto
    moreover have "k \<notin> refs m" using k m by (simp add: unref_def)
    ultimately show ?thesis using ep by blast
  qed
  with i show ?thesis by (auto simp: unref_def)
qed

lemma progress_env:
  assumes "env u v" and "good X mk u" and "fresh u n"
  shows "progress u v n"
  using assms rely_good rely_others fresh_env by (auto simp: progress_def)

lemma progress_trans: "progress u v n \<Longrightarrow> progress v w n' \<Longrightarrow> progress u w n'"
  by (auto simp: progress_def intro: evolves_trans)

lemma ready_env: "env u v \<Longrightarrow> good X mk u \<Longrightarrow> ready u n ls st \<Longrightarrow> ready v n ls st"
  by (auto simp: ready_def intro: handle_ok_env unref_env)

lemma saved_env: "env u v \<Longrightarrow> good X mk u \<Longrightarrow> saved u ls st \<Longrightarrow> saved v ls st"
  by (auto simp: saved_def intro: handle_ok_env)

lemma captured_env:
  assumes e: "env u v" "good X mk u" and c: "captured u n ls st"
  shows "captured v n ls st"
proof -
  let ?m = "st_manifest st"
  from c have s: "sees gen mk u ?m" and k: "csKey ls \<in> own X cfg (epoch ?m)" and un: "unref u n (csKey ls)"
    by (auto simp: captured_def Let_def own_def)
  have "tracks mk u ?m \<and> body_at v (csKey ls) = body_at u (csKey ls) \<and>
      replay_to X v ?m (Seq ?m) = replay_to X u ?m (Seq ?m)" if t: "tracks mk v ?m"
    using stable [OF rely_own [OF e] s t] k replay_to_cong [of ?m v u X "Seq ?m"] by auto
  with c sees_env [OF e s] unref_env [OF e un] show ?thesis by (auto simp: captured_def Let_def)
qed

subsection \<open>Writes of the loop\<close>

text \<open>Uploading to a fresh key, or deleting an orphan.\<close>

lemma side_write:
  assumes g: "good X mk v" and f: "fresh v n" and k: "unref v n k"
  shows "progress v (v(k := x)) n" and "man mk (v(k := x)) = man mk v"
proof -
  obtain m where m: "man mk v = Some m" using g by (rule good_man)
  from k m obtain i where ki: "k \<in> keys_at X cfg i" and k2: "k \<notin> refs m"
    by (auto simp: unref_def)
  have k': "k \<noteq> mk" "k \<notin> refs m" and o: "\<exists>ep. k \<in> own X cfg ep"
    using k2 keys_at_mk [OF cfg_law ki] keys_at_own [OF ki] by auto
  have "\<And>ep. k \<notin> others ep" using o others_own by blast
  with unref_write [OF m k'] g f k' show "progress v (v(k := x)) n"
    using fresh_keys_cong [of cfg "v(k := x)" v X gen n] by (auto simp: progress_def good_def)
  show "man mk (v(k := x)) = man mk v" using k' by simp
qed

lemma delete_orphan:
  assumes s: "invar s" "good X mk (view s)" "fresh (view s) n"
    and k: "unref (view s) n k" and r: "Delete store ctx k s = (d, t)"
  shows "invar t \<and> progress (view s) (view t) n"
proof -
  from Delete_step [OF s(1) r] obtain u where t: "invar t" and u: "env (view s) (view u)"
    "view t = view u \<or> view t = (view u)(k := None)" by auto
  note p = progress_env [OF u(1) s(2,3)]
  have "unref (view u) n k" by (rule unref_env [OF u(1) s(2) k])
  with p u(2) side_write(1) [of "view u" n k None] have "progress (view s) (view t) n"
    by (auto simp: progress_def intro: evolves_trans)
  with t show ?thesis by simp
qed

end

section \<open>Phase 1\<close>

context client
begin

lemma handle_ok_progress:
  "progress u v n \<Longrightarrow> handle_ok X gen mk u st \<Longrightarrow> handle_ok X gen mk v st"
  by (auto simp: progress_def intro: handle_ok_evolves)

text \<open>The orphan of the previous round is deleted, if there is one.\<close>

lemma drop_orphan:
  assumes s: "invar (w_store w)" "good X mk (view (w_store w))" "fresh (view (w_store w)) (w_uuid w)"
    and o: "orphan ls = '''' \<or> unref (view (w_store w)) (w_uuid w) (orphan ls)"
    and w': "w' = (if orphan ls = '''' then w else snd (on_store (Delete store ctx (orphan ls)) w))"
  shows "invar (w_store w')" "progress (view (w_store w)) (view (w_store w')) (w_uuid w')"
    "w_uuid w' = w_uuid w"
proof -
  obtain d t where d: "Delete store ctx (orphan ls) (w_store w) = (d, t)" by fastforce
  have "w_uuid w' = w_uuid w \<and> (w' = w \<or> (orphan ls \<noteq> '''' \<and> w_store w' = t))"
    using w' d by (auto simp: on_store_def)
  moreover have "progress (view (w_store w)) (view (w_store w)) (w_uuid w)"
    by (rule progress_env [OF env_refl s(2,3)])
  ultimately show "invar (w_store w')" "progress (view (w_store w)) (view (w_store w')) (w_uuid w')"
    "w_uuid w' = w_uuid w"
    using delete_orphan [OF s _ d] o s(1) by auto
qed

text \<open>Uploading the changeset under the next key.\<close>

lemma upload_changeset:
  assumes s: "invar s" "good X mk (view s)" "fresh (view s) n" and k: "k \<in> keys_at X cfg n"
    and r: "Put store ctx k (Inr cs) NoCondition s = (e, t)"
  shows "invar t \<and> progress (view s) (view t) (Suc n) \<and> fresh (view t) n \<and>
    (e = Inr x \<longrightarrow> unref (view t) (Suc n) k \<and> body_at (view t) k = Some cs)"
proof -
  obtain u where t: "invar t" and u: "env (view s) (view u)"
    "view t = view u \<and> (\<exists>y. e = Inl y) \<or> (\<exists>y. view t = (view u)(k \<mapsto> (cs, y)))"
    using Put_done [OF s(1)] Put_fail [OF s(1)] r by (cases e) blast+
  have fu: "fresh (view u) n" by (rule fresh_env [OF u(1) s(2,3)])
  have f: "fresh (view u) (Suc n)" "good X mk (view u)"
    using fresh_keys_mono [OF fu] rely_good [OF u(1) s(2)] by auto
  have k': "unref (view u) (Suc n) k"
    using fresh_keys_at [OF fu _ _ k] k by (auto simp: unref_def)
  have "fresh (view s) (Suc n)" using fresh_keys_mono [OF s(3)] by simp
  note p = progress_env [OF u(1) s(2) this]
  from u(2) show ?thesis
  proof
    assume "view t = view u \<and> (\<exists>y. e = Inl y)"
    with p t fu show ?thesis by auto
  next
    assume "\<exists>y. view t = (view u)(k \<mapsto> (cs, y))"
    then obtain y where y: "view t = (view u)(k \<mapsto> (cs, y))" ..
    note w = side_write [OF f(2,1) k', of "Some (cs, y)"]
    have "progress (view s) (view t) (Suc n)" using progress_trans [OF p w(1)] y by simp
    moreover have "unref (view t) (Suc n) k" using w(2) k' y by (simp add: unref_def)
    moreover have "fresh (view t) n" using fu w(2) y fresh_keys_cong [of cfg "view t" "view u" X gen n] by simp
    ultimately show ?thesis using t y by simp
  qed
qed

lemma uploadChangeset_eq:
  assumes "uploadChangeset X cfg ctx cs ls st w = (res, ls', w')"
    and "w2 = (if orphan ls = '''' then w else snd (on_store (Delete store ctx (orphan ls)) w))"
    and "k = own_key X cfg (epoch (st_manifest st)) (w_uuid w2)"
    and "Put store ctx k (Inr cs) NoCondition (w_store w2) = (e, t)"
  shows "w_store w' = t \<and> w_uuid w' = Suc (w_uuid w2) \<and> release ls' = release ls \<and> ls_cs ls' = cs \<and>
    csKey ls' = k \<and> orphan ls' = '''' \<and>
    res = (case e of Inl y \<Rightarrow> Return (Some (Wrapped ''upload changeset'' y)) | Inr _ \<Rightarrow> Again) \<and>
    ((\<exists>y. e = Inr y) \<longrightarrow> \<not> needCapture ls')"
proof -
  let ?ls = "ls\<lparr>ls_cs := cs, csKey := k, orphan := ''''\<rparr>" and ?w3 = "w2\<lparr>w_uuid := Suc (w_uuid w2)\<rparr>"
  have "on_store (Put store ctx k (Inr cs) NoCondition) ?w3 = (e, ?w3\<lparr>w_store := t\<rparr>)"
    using assms(4) by (simp add: on_store_def)
  then have "uploadChangeset X cfg ctx cs ls st w =
      (case e of Inl y \<Rightarrow> (Return (Some (Wrapped ''upload changeset'' y)), ?ls, ?w3\<lparr>w_store := t\<rparr>)
       | Inr _ \<Rightarrow> (Again, ?ls\<lparr>needCapture := False\<rparr>, ?w3\<lparr>w_store := t\<rparr>))"
    unfolding uploadChangeset_def Let_def assms(2) [symmetric] new_uuid_def assms(3) own_key_def
    by (simp split: sum.splits)
  with assms(1) show ?thesis by (auto split: sum.splits)
qed

lemma phaseCapture_spec:
  assumes s: "invar (w_store w)" "good X mk (view (w_store w))" "fresh (view (w_store w)) (w_uuid w)"
    and rd: "ready (view (w_store w)) (w_uuid w) ls st" and fn: "recordable X fn"
    and r: "phaseCapture X cfg ctx fn ls st w = (res, ls', st', w')"
  shows "invar (w_store w') \<and> progress (view (w_store w)) (view (w_store w')) (w_uuid w') \<and>
    linked (st_manifest st') (st_etag st') \<and>
    (case res of
       Again \<Rightarrow> captured (view (w_store w')) (w_uuid w') ls' st' \<and> saved (view (w_store w')) ls' st'
     | Return x \<Rightarrow> landed (view (w_store w')) x ls' st')"
proof -
  let ?m = "st_manifest st" and ?v = "view (w_store w)"
  from rd have h: "handle_ok X gen mk ?v st" "synced st" "linked ?m (st_etag st)" "release ls = None"
    and o: "orphan ls = '''' \<or> unref ?v (w_uuid w) (orphan ls)" by (simp_all add: ready_def)
  have refl: "progress ?v ?v (w_uuid w)" by (rule progress_env [OF env_refl s(2,3)])
  show ?thesis
  proof (cases "st_conn st")
    case (OpenConn d)
    obtain l w0 where l: "local_call w = (l, w0)" by fastforce
    obtain g c w1 where g: "capture X (OpenConn d) fn w0 = (g, c, w1)" by (metis prod_cases3)
    have fr: "w_store w1 = w_store w \<and> w_disk w1 = w_disk w \<and> w_uuid w1 = w_uuid w"
      using capture_frame [OF g] local_call_frame [OF l] by simp
    have st: "st\<lparr>st_conn := OpenConn d\<rparr> = st" using OpenConn by simp
    then have hst: "handle_ok X gen mk ?v (st\<lparr>st_conn := OpenConn d\<rparr>)" using h(1) by (simp only:)
    obtain d' where d': "c = OpenConn d'" using capture_conn_open [OF g] by blast
    show ?thesis
    proof (cases "l = None")
      case False
      with r l OpenConn have "\<exists>e. res = Return (Some e)" "ls' = ls" "st' = st" "w' = w0"
        by (auto simp: phaseCapture_def)
      with local_call_frame [OF l] s refl h show ?thesis by (auto simp: landed_def)
    next
      case lN: True
      note r1 = r [unfolded phaseCapture_def Let_def OpenConn, simplified,
          unfolded l [unfolded lN] g, simplified, unfolded g, simplified]
      show ?thesis
      proof (cases "\<exists>cs. g = Inr (Some cs)")
        case False
        then have r2: "res = Return (case g of Inl e \<Rightarrow> Some e | Inr _ \<Rightarrow> None)" "w' = w1"
          "st' = st\<lparr>st_conn := c\<rparr>" "release ls' = Some d"
          using r1 by (auto split: sum.splits option.splits)
        have "d' = d" if "g = Inr None"
          using g that d' fn by (auto simp: recordable_def elim!: capture_empty)
        with r2 False h OpenConn d' have "landed ?v x ls' st'" if "res = Return x" for x
          using that hst by (auto simp: landed_def split: sum.splits option.splits)
        with r2 fr s refl h show ?thesis by auto
      next
        case True
        then obtain cs where cs: "g = Inr (Some cs)" ..
        from g cs d' fn obtain nd where "fn d = (None, d', nd)" "cs = sq_changeset X d d'" "cs \<noteq> []"
          by (auto elim: capture_changeset)
        with fn sizes have ap: "apply_bytes X cs d = Some d'" "int (length cs) \<le> max_int64" "recorded X cs"
          by (auto simp: recordable_def recorded_def apply_bytes_def size_law_def)
        define w2 where "w2 = (if orphan ls = '''' then w1 else snd (on_store (Delete store ctx (orphan ls)) w1))"
        note w2 = drop_orphan [of w1, unfolded fr [THEN conjunct1] fr [THEN conjunct2, THEN conjunct2],
            OF s o w2_def]
        define k where "k = own_key X cfg (epoch ?m) (w_uuid w2)"
        obtain e t where e: "Put store ctx k (Inr cs) NoCondition (w_store w2) = (e, t)" by fastforce
        from w2(2) have g2: "good X mk (view (w_store w2))" "fresh (view (w_store w2)) (w_uuid w2)"
          by (simp_all add: progress_def)
        have "k \<in> keys_at X cfg (w_uuid w2)" unfolding k_def by (rule own_key_at)
        note up = upload_changeset [OF w2(1) g2 this e]
        obtain res1 ls1 w3 where u: "uploadChangeset X cfg ctx cs (ls\<lparr>release := Some d\<rparr>)
            (st\<lparr>st_conn := c\<rparr>) w1 = (res1, ls1, w3)" by (metis prod_cases3)
        with r1 cs have r2: "res = res1" "ls' = ls1" "st' = st\<lparr>st_conn := c\<rparr>" "w' = w3" by auto
        have w2': "w2 = (if orphan (ls\<lparr>release := Some d\<rparr>) = '''' then w1
            else snd (on_store (Delete store ctx (orphan (ls\<lparr>release := Some d\<rparr>))) w1))"
          by (simp add: w2_def)
        have k': "k = own_key X cfg (epoch (st_manifest (st\<lparr>st_conn := c\<rparr>))) (w_uuid w2)"
          by (simp add: k_def)
        note r3 = uploadChangeset_eq [OF u w2' k' e]
        have p: "progress ?v (view t) (Suc (w_uuid w2))"
          using progress_trans [OF w2(2)] up by blast
        have ht: "handle_ok X gen mk (view t) st" by (rule handle_ok_progress [OF p h(1)])
        have "captured (view t) (Suc (w_uuid w2)) ls' st' \<and> saved (view t) ls' st'" if "e = Inr y" for y
          using ht up that r2 r3 OpenConn st d' ap h(2,3)
          by (auto simp: captured_def saved_def Let_def handle_ok_def conn_ok_def synced_def k_def)
        moreover have "rollback (release ls') st' = st" using r2 r3 OpenConn by (simp add: st)
        ultimately show ?thesis using r2 r3 up p ht h(3) by (auto simp: landed_def split: sum.splits)
      qed
    qed
  next
    case NilConn
    with r s refl h show ?thesis by (auto simp: phaseCapture_def landed_def)
  next
    case ClosedConn
    with r s refl h show ?thesis by (auto simp: phaseCapture_def landed_def)
  qed
qed

end

section \<open>Phase 3\<close>

context client
begin

text \<open>A clean rebase moves the captured changeset to the manifest in the store.\<close>

lemma rebase_captured:
  assumes s: "invar s" "good X mk (view s)" and c: "captured (view s) n ls st"
    and m2: "man mk (view s) = Some m2" "linked m2 e2" "bKey (Snapshot m2) = snapshotKey st"
    and r: "rebase X store ctx (localSeq st) (Log m2) (st_conn st) s = (Inr True, c', t)"
  shows "captured (view t) n ls (st\<lparr>st_conn := c', st_manifest := m2, st_etag := e2, localSeq := Seq m2\<rparr>)"
proof -
  let ?m = "st_manifest st" and ?es = "filter (\<lambda>e. Seq (st_manifest st) < eSeq e) (Log m2)"
  from rebase_frame [OF s(1) r] have t: "invar t" "env (view s) (view t)" by auto
  from s(2) m2(1) have i2: "manifest_inv m2" "wire_ok m2" by (auto elim: good_man)
  from c obtain d1 where mi: "manifest_inv ?m" and d1: "st_conn st = OpenConn d1"
    and q: "localSeq st = Seq ?m" and se: "sees gen mk (view s) ?m"
    and k: "snapshotKey st = bKey (Snapshot ?m)"
    and rc: "recorded X (ls_cs ls)"
    by (auto simp: captured_def Let_def)
  have x: "extends ?m m2" using sees_not_stale [OF se m2(1)] m2(3) k by simp
  then have ep: "epoch m2 = epoch ?m" by (intro epoch_cong) (simp add: extends_def)
  note ct = captured_env [OF t(2) s(2) c]
  have se2: "sees gen mk (view t) m2" by (rule sees_env [OF t(2) s(2) sees_current [OF m2(1)]])
  from rebase_clean [OF s(1) r [unfolded d1 q], of "Seq ?m"] obtain bs q' where bs: "length bs = length ?es"
    "\<And>i. i < length bs \<Longrightarrow> \<exists>u. invar u \<and> env (view s) (view u) \<and> env (view u) (view t) \<and>
       body_at (view u) (eKey (?es ! i)) = Some (bs ! i)"
    "apply_all X (zip ?es bs) (Seq ?m) (OpenConn d1) = ((q', None), c')" by blast
  obtain d3 where d3: "c' = OpenConn d3" using apply_all_open [OF bs(3)] by blast
  have "body_at (view t) (csKey ls) = Some (ls_cs ls) \<and>
      (\<exists>d. replay_to X (view t) m2 (Seq m2) = Some d \<and> apply_bytes X (ls_cs ls) d = Some d3)"
    if tr: "tracks mk (view t) m2"
  proof -
    have trm: "tracks mk (view t) ?m"
      using tr x extends_trans by (auto simp: tracks_def split: option.splits)
    with ct d1 obtain d where b: "body_at (view t) (csKey ls) = Some (ls_cs ls)"
      and d: "replay_to X (view t) ?m (Seq ?m) = Some d" "apply_bytes X (ls_cs ls) d = Some d1"
      by (auto simp: captured_def Let_def)
    have "body_at (view t) (eKey (?es ! i)) = Some (bs ! i)" if "i < length ?es" for i
    proof -
      from bs(1,2) that obtain u where u: "env (view s) (view u)" "env (view u) (view t)"
        "body_at (view u) (eKey (?es ! i)) = Some (bs ! i)" by metis
      have "eKey (?es ! i) \<in> refs m2" using nth_mem [OF that] by (auto simp: refs_def)
      with stable_env [OF u(2) rely_good [OF u(1) s(2)]
          sees_env [OF u(1) s(2) sees_current [OF m2(1)]] tr] u(3)
      show ?thesis by simp
    qed
    with apply_all_reference [OF bs(1) _ bs(3), of "view t"] d3
    have a3: "apply_entries X (view t) ?es d1 = Some d3" by auto
    have le: "bSeq (Snapshot m2) \<le> Seq ?m" "Seq ?m \<le> Seq m2"
      using mi i2 x by (auto simp: extends_def manifest_inv_def)
    have es: "?es = drop (nat (Seq ?m - bSeq (Snapshot m2))) (Log m2)"
      using i2 le by (intro contiguous_filter) (auto simp: manifest_inv_def)
    then have tk: "take (nat (Seq m2 - Seq ?m)) (drop (nat (Seq ?m - bSeq (Snapshot m2))) (Log m2)) = ?es"
      using i2 le by (simp add: manifest_inv_def)
    have "replay_to X (view t) m2 (Seq ?m) = Some d"
      using replay_to_extends [OF x mi, of "Seq ?m" X "view t"] d(1) by simp
    with replay_to_step [OF le, of X "view t"] tk
    have st: "replay_to X (view t) m2 (Seq m2) = apply_entries X (view t) ?es d" by simp
    have "coherent X mk (view t)" using rely_good [OF t(2) s(2)] by (simp add: good_def)
    from coherent_replay_to [OF this tr i2(1)] obtain d2
      where d2: "replay_to X (view t) m2 (Seq m2) = Some d2" by blast
    with st have "apply_entries X (view t) ?es d = Some d2" by simp
    moreover have "log_recorded X (view t) ?es"
    proof -
      from \<open>coherent X mk (view t)\<close> obtain m' where "man mk (view t) = Some m'" "log_recorded X (view t) (Log m')"
        by (rule coherent_man)
      with tr show ?thesis by (auto simp: tracks_def extends_def log_recorded_def)
    qed
    ultimately show ?thesis using rebase_entries [OF rebases rc _ d(2) _ a3] d2 b by auto
  qed
  with ct se2 i2 m2 d3 ep k x show ?thesis
    by (auto simp: captured_def Let_def extends_def)
qed

lemma phaseRebase_spec:
  assumes s: "invar (w_store w)" "good X mk (view (w_store w))" "fresh (view (w_store w)) (w_uuid w)"
    and c: "captured (view (w_store w)) (w_uuid w) ls st"
    and r: "phaseRebase X cfg ctx path ls st w = (res, ls', st', w')"
    and sv: "saved (view (w_store w)) ls st \<or> res = Again \<and> \<not> needCapture ls'"
  shows "invar (w_store w') \<and> env (view (w_store w)) (view (w_store w')) \<and> w_uuid w' = w_uuid w \<and>
    (case res of
       Again \<Rightarrow> (if needCapture ls' then ready (view (w_store w')) (w_uuid w') ls' st'
                else captured (view (w_store w')) (w_uuid w') ls' st')
     | Return x \<Rightarrow> x \<noteq> None \<and> handle_ok X gen mk (view (w_store w')) (rollback (release ls') st') \<and>
         linked (st_manifest st') (st_etag st'))"
proof -
  let ?v = "view (w_store w)" and ?m = "st_manifest st"
  obtain g t where g: "loadManifest store ctx mk (w_store w) = (g, t)" by fastforce
  from load_spec(1) [OF s(1) g] have t: "invar t" "env ?v (view t)" by auto
  have gt: "good X mk (view t)" by (rule rely_good [OF t(2) s(2)])
  have ct: "captured (view t) (w_uuid w) ls st" by (rule captured_env [OF t(2) s(2) c])
  from c have nc: "\<not> needCapture ls" and lk: "linked ?m (st_etag st)" by (auto simp: captured_def Let_def)
  have svd: "saved (view t) ls st" if "saved ?v ls st" by (rule saved_env [OF t(2) s(2) that])
  have rb: "handle_ok X gen mk u (rollback (release ls) (st\<lparr>st_conn := c0\<rparr>))" if "saved u ls st" for u c0
    using that by (auto simp: saved_def rollback_def)
  have rb': "handle_ok X gen mk u (rollback (release ls) st)" if "saved u ls st" for u
    using rb [OF that, of "st_conn st"] by simp
  note r1 = r [unfolded phaseRebase_def Let_def on_store_def g, simplified]
  show ?thesis
  proof (cases g)
    case (Inl e)
    with r1 sv t lk svd rb' show ?thesis by auto
  next
    case (Inr p)
    then obtain m2 e2 where ge: "g = Inr (m2, e2)" by (cases p) auto
    from load_spec(2) [OF s(1) g ge] have m2: "man mk (view t) = Some m2" "linked m2 e2" by auto
    have restart: "invar (w_store w') \<and> env ?v (view (w_store w')) \<and> w_uuid w' = w_uuid w \<and>
        (case res of
           Again \<Rightarrow> (if needCapture ls' then ready (view (w_store w')) (w_uuid w') ls' st'
                    else captured (view (w_store w')) (w_uuid w') ls' st')
         | Return x \<Rightarrow> x \<noteq> None \<and> handle_ok X gen mk (view (w_store w')) (rollback (release ls') st') \<and>
             linked (st_manifest st') (st_etag st'))"
      if re: "(case rollbackAndResync X cfg ctx path (release ls) m2 e2 (st\<lparr>st_conn := c0\<rparr>)
                 (w\<lparr>w_store := u\<rparr>) of
                (Some e, st, w) \<Rightarrow> (Return (Some e), ls\<lparr>release := None\<rparr>, st, w)
              | (None, st, w) \<Rightarrow>
                  (Again, ls\<lparr>release := None, orphan := csKey ls, needCapture := True\<rparr>, st, w))
            = (res, ls', st', w')" and u: "invar u" "env (view t) (view u)" for c0 u
    proof -
      obtain x st1 w1 where x: "rollbackAndResync X cfg ctx path (release ls) m2 e2 (st\<lparr>st_conn := c0\<rparr>)
        (w\<lparr>w_store := u\<rparr>) = (x, st1, w1)" by (metis prod_cases3)
      with re have re': "st' = st1" "w' = w1"
        "res = (case x of Some e \<Rightarrow> Return (Some e) | None \<Rightarrow> Again)" "release ls' = None"
        "x = None \<longrightarrow> needCapture ls' \<and> orphan ls' = csKey ls" by (auto split: option.splits)
      have "saved ?v ls st" using sv re' by (auto split: option.splits)
      from svd [OF this] have svt: "saved (view t) ls st" .
      note sy = sync_adopt [of "w\<lparr>w_store := u\<rparr>", simplified, OF u(1) gt u(2) rb [OF svt] m2
          x [unfolded rollbackAndResync_def]]
      have e: "env (view t) (view (w_store w1))" using sy u(2) env_trans by blast
      have "unref (view (w_store w1)) (w_uuid w) (csKey ls)"
        using unref_env [OF e gt] ct by (auto simp: captured_def Let_def)
      with sy re' env_trans [OF t(2) e] show ?thesis
        by (auto simp: ready_def rollback_def split: option.splits)
    qed
    show ?thesis
    proof (cases "localSeq st < bSeq (Snapshot m2) \<or> bKey (Snapshot m2) \<noteq> snapshotKey st")
      case True
      then show ?thesis using restart [of "st_conn st" t] r1 ge t env_refl by simp
    next
      case False
      then have key: "bKey (Snapshot m2) = snapshotKey st" by simp
      obtain y c1 u where y: "rebase X store ctx (localSeq st) (Log m2) (st_conn st) t = (y, c1, u)"
        by (metis prod_cases3)
      from rebase_frame [OF t(1) y] have u: "invar u" "env (view t) (view u)" by auto
      have r2: "(case y of
          Inl e \<Rightarrow> (Return (Some e), ls, st\<lparr>st_conn := c1\<rparr>, w\<lparr>w_store := u\<rparr>)
        | Inr b \<Rightarrow> if b
            then (Again, ls, st\<lparr>st_conn := c1, st_manifest := m2, st_etag := e2, localSeq := Seq m2\<rparr>,
                  w\<lparr>w_store := u\<rparr>)
            else case rollbackAndResync X cfg ctx path (release ls) m2 e2 (st\<lparr>st_conn := c1\<rparr>)
                 (w\<lparr>w_store := u\<rparr>) of
                (Some e, st, w) \<Rightarrow> (Return (Some e), ls\<lparr>release := None\<rparr>, st, w)
              | (None, st, w) \<Rightarrow>
                  (Again, ls\<lparr>release := None, orphan := csKey ls, needCapture := True\<rparr>, st, w))
          = (res, ls', st', w')"
        using r1 ge False y by (auto split: sum.splits bool.splits)
      show ?thesis
      proof (cases "y = Inr True")
        case True
        with rebase_captured [OF t(1) gt ct m2 key] y r2 u nc env_trans [OF t(2) u(2)]
        show ?thesis by auto
      next
        case nt: False
        show ?thesis
        proof (cases y)
          case (Inl e)
          with r2 sv saved_env [OF u(2) gt svd] rb u lk env_trans [OF t(2) u(2)]
          show ?thesis by auto
        next
          case (Inr b)
          with nt r2 restart [of c1 u] u show ?thesis by simp
        qed
      qed
    qed
  qed
qed

end

section \<open>Phase 2\<close>

context client
begin

lemma wire_ok_append:
  assumes "wire_ok m" and "manifest_inv m" and "Seq m < max_int64"
    and "list_all is_ascii k" and "0 \<le> z" and "z \<le> max_int64"
  shows "wire_ok (stamp (appendLog m \<lparr>eKey = k, eSeq = add64 (Seq m) 1, eSize = z\<rparr>))"
    and "add64 (Seq m) 1 = Seq m + 1" and "seq_room m"
proof -
  have i: "is_int64 (Seq m + 1)" and z: "is_int64 z"
    using assms by (auto simp: is_int64_def min_int64_def wire_ok_def)
  then show a: "add64 (Seq m) 1 = Seq m + 1" by simp
  show "seq_room m" using assms(2,3) by (simp add: seq_room_def manifest_inv_def)
  show "wire_ok (stamp (appendLog m \<lparr>eKey = k, eSeq = add64 (Seq m) 1, eSize = z\<rparr>))"
    using assms(1,4) i z unfolding a
    by (auto simp: wire_ok_def appendLog_def is_int64_def min_int64_def max_int64_def)
qed

text \<open>The write of a successful compare-and-swap.\<close>

lemma commit_write:
  assumes g: "good X mk u" and f: "fresh u n" and c: "captured u n ls st"
    and m: "man mk u = Some (st_manifest st)"
    and nm: "nm = stamp (appendLog (st_manifest st)
        \<lparr>eKey = csKey ls, eSeq = add64 (Seq (st_manifest st)) 1, eSize = int (length (ls_cs ls))\<rparr>)"
    and t: "t = u(mk \<mapsto> (encode_manifest nm, e))"
  shows "coherent X mk t" "evolves gen mk others u t" "fresh t n" "man mk t = Some nm"
    "handle_ok X gen mk t (st\<lparr>st_manifest := nm, st_etag := e', localSeq := add64 (Seq (st_manifest st)) 1\<rparr>)"
    "validate nm = None" "wire_ok nm"
proof -
  let ?m = "st_manifest st" and ?k = "csKey ls"
  from c m obtain d d1 where im: "manifest_inv ?m" "wire_ok ?m" and k: "\<exists>i. ?k = own_key X cfg (epoch ?m) i"
    "unref u n ?k" and z: "int (length (ls_cs ls)) \<le> max_int64"
    and rc: "recorded X (ls_cs ls)" and d: "st_conn st = OpenConn d1"
    "body_at u ?k = Some (ls_cs ls)" "replay_to X u ?m (Seq ?m) = Some d"
    "apply_bytes X (ls_cs ls) d = Some d1" and sk: "snapshotKey st = bKey (Snapshot ?m)"
    by (auto simp: captured_def Let_def tracks_current)
  from g m obtain "mk \<notin> refs ?m" "Seq ?m < max_int64" "size_ok u (Snapshot ?m)" "log_recorded X u (Log ?m)"
    by (auto simp: good_def coherent_def room_def)
  note mk = this
  from k(1) obtain i where i: "?k = own_key X cfg (epoch ?m) i" ..
  have ka: "list_all is_ascii ?k" "?k \<noteq> ''''" "?k \<noteq> mk"
    unfolding i using im own_key_ascii [OF cfg_law uuids] epoch_ascii [of ?m]
      own_key_nonempty [of X cfg "epoch ?m" i] keys_at_mk [OF cfg_law own_key_at, of X "epoch ?m" i]
    by (auto simp: wire_ok_def)
  note wo = wire_ok_append [OF im(2,1) mk(2) ka(1) _ z, simplified]
  have inm: "manifest_inv nm"
    unfolding nm by (intro manifest_inv_stamp manifest_inv_appendLog im(1) wo(3) ka(2))
  show wn: "wire_ok nm" unfolding nm by (rule wo(1))
  have sn: "Snapshot nm = Snapshot ?m" "Seq nm = Seq ?m + 1"
    "Log nm = Log ?m @ [\<lparr>eKey = ?k, eSeq = Seq ?m + 1, eSize = int (length (ls_cs ls))\<rparr>]"
    using wo(2) by (simp_all add: nm appendLog_def)
  have rf: "refs nm = insert ?k (refs ?m)" using sn by (auto simp: refs_def)
  show vn: "validate nm = None"
    using validate_iff [of nm] inm wn by (simp add: wire_ok_def is_int64_def manifest_inv_def)
  show mt: "man mk t = Some nm" unfolding t by (rule man_put [OF wn vn])
  have b: "body_at t k' = body_at u k'" if "k' \<noteq> mk" for k' using that by (simp add: t)
  have bm: "body_at t k' = body_at u k'" if "k' \<in> refs ?m" for k'
  proof (rule b)
    show "k' \<noteq> mk" using that mk(1) by auto
  qed
  have rt: "replay_to X t nm (Seq ?m) = Some d"
    using replay_to_extends [of ?m nm "Seq ?m" X t] im(1) replay_to_cong [of ?m t u X, OF bm] d(3)
    by (simp add: extends_def sn)
  have le: "bSeq (Snapshot nm) \<le> Seq ?m" "Seq ?m \<le> Seq nm" using sn im(1) by (auto simp: manifest_inv_def)
  have "nat (Seq ?m - bSeq (Snapshot ?m)) = length (Log ?m)" using im(1) by (simp add: manifest_inv_def)
  then have rn: "replay_to X t nm (Seq nm) = Some d1"
    using replay_to_step [OF le, of X t] rt sn d b [OF ka(3)] by simp
  have "log_recorded X t (Log nm)"
    using mk(4) rc d(2) bm b [OF ka(3)] by (auto simp: sn log_recorded_def refs_def)
  then show "coherent X mk t"
    using mt inm wn rf mk ka(3) rn replay_to_Seq [OF inm, of X t] bm sn
    by (auto simp: coherent_def size_ok_def refs_def)
  have ko: "?k \<notin> others ep" for ep
    using i others_own [of ep "epoch ?m"] by (auto simp: own_def)
  have bo: "body_at t k' = body_at u k'" if "k' \<in> refs ?m \<union> others ep" for k' ep
    using that bm b others_mk by (cases "k' = mk") auto
  show "evolves gen mk others u t"
    unfolding evolves_def using m mt rf ko bo by (auto simp: extends_def sn)
  show "fresh t n"
  proof -
    from k(2) obtain j where j: "j < n" "?k \<in> keys_at X cfg j" by (auto simp: unref_def)
    have "?k \<notin> keys_at X cfg l" if "n \<le> l" for l using keys_at_inj [OF uuids j(2)] j(1) that by force
    then have "own_key X cfg ep l \<noteq> ?k \<and> ?k \<notin> snap_keys X cfg l" if "n \<le> l" for l ep
      using that by (metis UnI2 keys_at_def own_key_at)
    with f m mt rf sn show ?thesis by (auto simp: fresh_keys_def)
  qed
  show "handle_ok X gen mk t (st\<lparr>st_manifest := nm, st_etag := e', localSeq := add64 (Seq ?m) 1\<rparr>)"
    using inm wn sees_current [OF mt] d sk rn le sn wo(2)
    by (auto simp: handle_ok_def conn_ok_def Let_def)
qed

text \<open>The store after an iteration that may have committed: there may be no room left.\<close>

definition settled :: "objs \<Rightarrow> objs \<Rightarrow> nat \<Rightarrow> bool" where
  "settled u v n \<longleftrightarrow> coherent X mk v \<and> evolves gen mk others u v \<and> fresh v n"

lemma settled_progress: "progress u v n \<Longrightarrow> settled u v n"
  by (simp add: settled_def progress_def good_def)

lemma settled_trans: "progress u v n \<Longrightarrow> settled v w n' \<Longrightarrow> settled u w n'"
  by (auto simp: settled_def progress_def intro: evolves_trans)

lemma put_spec:
  assumes s: "invar s" "good X mk (view s)" "fresh (view s) n" and c: "captured (view s) n ls st"
    and nm: "nm = stamp (appendLog (st_manifest st)
        \<lparr>eKey = csKey ls, eSeq = add64 (Seq (st_manifest st)) 1, eSize = int (length (ls_cs ls))\<rparr>)"
    and r: "Put store ctx mk (Inr (encode_manifest nm)) \<lparr>IfMatch = st_etag st, IfNoneMatch = False\<rparr> s
        = (g, t)"
  shows "invar t" "settled (view s) (view t) n"
    "g = Inr e \<Longrightarrow> handle_ok X gen mk (view t)
       (st\<lparr>st_manifest := nm, st_etag := e, localSeq := add64 (Seq (st_manifest st)) 1\<rparr>) \<and> linked nm e"
    "g = Inl x \<Longrightarrow> errors_Is x ErrPreconditionFailed \<Longrightarrow> env (view s) (view t)"
proof -
  let ?c = "\<lparr>IfMatch = st_etag st, IfNoneMatch = False\<rparr>"
  have "invar t \<and> (\<exists>u. invar u \<and> env (view s) (view u) \<and>
      (view t = view u \<and> (\<exists>x. g = Inl x) \<or>
       (\<exists>y. cond_ok ?c (view u mk) \<and> view t = (view u)(mk \<mapsto> (encode_manifest nm, y)) \<and>
          (\<forall>x. g = Inl x \<longrightarrow> \<not> errors_Is x ErrPreconditionFailed) \<and> (\<forall>x. g = Inr x \<longrightarrow> y = x))))"
    by (rule Put_cases [OF s(1) r])
  then obtain u where t: "invar t" and u: "invar u" "env (view s) (view u)"
    and w: "view t = view u \<and> (\<exists>x. g = Inl x) \<or>
       (\<exists>y. cond_ok ?c (view u mk) \<and> view t = (view u)(mk \<mapsto> (encode_manifest nm, y)) \<and>
          (\<forall>x. g = Inl x \<longrightarrow> \<not> errors_Is x ErrPreconditionFailed) \<and> (\<forall>x. g = Inr x \<longrightarrow> y = x))"
    by blast
  show "invar t" by (rule t)
  note p = progress_env [OF u(2) s(2,3)]
  have cu: "captured (view u) n ls st" by (rule captured_env [OF u(2) s(2) c])
  then have lk: "linked (st_manifest st) (st_etag st)" by (simp add: captured_def Let_def)
  have gu: "good X mk (view u)" "fresh (view u) n" using p by (simp_all add: progress_def)
  have wr: "settled (view u) (view t) n \<and> man mk (view t) = Some nm \<and> validate nm = None \<and> wire_ok nm \<and>
      handle_ok X gen mk (view t)
        (st\<lparr>st_manifest := nm, st_etag := e', localSeq := add64 (Seq (st_manifest st)) 1\<rparr>)"
    if "cond_ok ?c (view u mk)" "view t = (view u)(mk \<mapsto> (encode_manifest nm, y))" for y e'
    using commit_write [OF gu cu linked_cas [OF lk u(1) that(1)] nm that(2)] by (simp add: settled_def)
  show "settled (view s) (view t) n"
    using w wr settled_trans [OF p] settled_progress [OF p] by auto
  show "handle_ok X gen mk (view t)
       (st\<lparr>st_manifest := nm, st_etag := e, localSeq := add64 (Seq (st_manifest st)) 1\<rparr>) \<and> linked nm e"
    if "g = Inr e"
  proof -
    from w that have v: "cond_ok ?c (view u mk)" "view t = (view u)(mk \<mapsto> (encode_manifest nm, e))" by auto
    from wr [OF v] have "decode_manifest (Inr (encode_manifest nm)) = Inr nm" "validate nm = None"
      by (auto intro: decode_encode_manifest)
    then have "linked nm e" using t v(2) by (auto simp: linked_to_def)
    with wr [OF v] show ?thesis by blast
  qed
  show "env (view s) (view t)" if "g = Inl x" "errors_Is x ErrPreconditionFailed"
    using w that u(2) by auto
qed

lemma phaseCommit_spec:
  assumes s: "invar (w_store w)" "good X mk (view (w_store w))" "fresh (view (w_store w)) (w_uuid w)"
    and c: "captured (view (w_store w)) (w_uuid w) ls st"
    and r: "phaseCommit X cfg ctx path ls st w = (res, ls', st', w')"
    and sv: "saved (view (w_store w)) ls st \<or> res = Return None \<or> res = Again \<and> \<not> needCapture ls'"
  shows "invar (w_store w') \<and> settled (view (w_store w)) (view (w_store w')) (w_uuid w') \<and>
    (case res of
       Again \<Rightarrow> good X mk (view (w_store w')) \<and>
               (if needCapture ls' then ready (view (w_store w')) (w_uuid w') ls' st'
                else captured (view (w_store w')) (w_uuid w') ls' st')
     | Return x \<Rightarrow> linked (st_manifest st') (st_etag st') \<and>
         (release_fails cfg ctx ls st w \<or> landed (view (w_store w')) x ls' st'))"
proof -
  let ?v = "view (w_store w)" and ?m = "st_manifest st"
  define nm where "nm = stamp (appendLog ?m
        \<lparr>eKey = csKey ls, eSeq = add64 (Seq ?m) 1, eSize = int (length (ls_cs ls))\<rparr>)"
  let ?c = "\<lparr>IfMatch = st_etag st, IfNoneMatch = False\<rparr>"
  define p where "p = (case validate nm of Some e \<Rightarrow> (Inl e, w_store w)
      | None \<Rightarrow> Put store ctx mk (Inr (encode_manifest nm)) ?c (w_store w))"
  obtain g t where g: "p = (g, t)" by fastforce
  have pm: "casManifest cfg ctx ls st w = ((g, nm), w\<lparr>w_store := t\<rparr>)"
    using g by (auto simp: casManifest_def p_def on_store_def putManifest_def Let_def nm_def split: option.splits)
  have refl: "settled ?v ?v (w_uuid w)"
    by (rule settled_progress [OF progress_env [OF env_refl s(2,3)]])
  have pt: "invar t" "settled ?v (view t) (w_uuid w)"
    "g = Inr e \<Longrightarrow> handle_ok X gen mk (view t)
       (st\<lparr>st_manifest := nm, st_etag := e, localSeq := add64 (Seq ?m) 1\<rparr>) \<and> linked nm e"
    "g = Inl x \<Longrightarrow> errors_Is x ErrPreconditionFailed \<Longrightarrow> env ?v (view t)" for e x
    using put_spec [OF s c nm_def, of ctx g t] g s(1) refl env_refl
    by (auto simp: p_def split: option.splits)
  from c have lk: "linked ?m (st_etag st)" by (simp add: captured_def Let_def)
  note r1 = r [unfolded phaseCommit_def Let_def, unfolded pm, simplified]
  show ?thesis
  proof (cases g)
    case (Inr e)
    let ?st = "st\<lparr>st_manifest := nm, st_etag := e, localSeq := add64 (Seq ?m) 1\<rparr>"
    obtain y st1 w1 where y: "releaseSave (release ls) ?st (w\<lparr>w_store := t\<rparr>) = (y, st1, w1)" by (metis prod_cases3)
    with r1 Inr have "res = Return None" "ls' = ls\<lparr>release := None\<rparr>" "st' = st1" "w' = w1" by auto
    with releaseSave_cases [OF y] pt Inr pm show ?thesis by (auto simp: landed_def release_fails_def)
  next
    case (Inl x)
    show ?thesis
    proof (cases "errors_Is x ErrPreconditionFailed")
      case False
      with r1 Inl have r2: "res = Return (Some (Wrapped ''put manifest'' x))" "ls' = ls" "st' = st"
        "w' = w\<lparr>w_store := t\<rparr>" by auto
      with sv have "saved ?v ls st" by auto
      then obtain d0 where "release ls = Some d0" "handle_ok X gen mk ?v (st\<lparr>st_conn := OpenConn d0\<rparr>)"
        by (auto simp: saved_def)
      then have "handle_ok X gen mk (view t) (rollback (release ls) st)"
        using pt(2) by (auto simp: settled_def intro: handle_ok_evolves)
      with r2 pt(1,2) lk show ?thesis by (simp add: landed_def)
    next
      case True
      then have e: "env ?v (view t)" using pt(4) Inl by blast
      let ?w = "w\<lparr>w_store := t\<rparr>"
      have r2: "phaseRebase X cfg ctx path ls st ?w = (res, ls', st', w')" using r1 Inl True by simp
      note p = progress_env [OF e s(2,3)]
      from p have gt: "good X mk (view t)" "fresh (view t) (w_uuid w)" by (simp_all add: progress_def)
      have ct: "captured (view t) (w_uuid w) ls st" by (rule captured_env [OF e s(2) c])
      have nr: "res \<noteq> Return None"
        using r2 by (auto simp: phaseRebase_def Let_def split: sum.splits prod.splits option.splits if_splits bool.splits)
      have "saved (view t) ls st \<or> res = Again \<and> \<not> needCapture ls'"
        using sv nr saved_env [OF e s(2)] by blast
      note ps = phaseRebase_spec [of ?w, simplified, OF pt(1) gt ct r2 this]
      have "progress (view t) (view (w_store w')) (w_uuid w')"
        using ps progress_env [OF _ gt] by auto
      with progress_trans [OF p] have "progress ?v (view (w_store w')) (w_uuid w')" by blast
      with ps settled_progress show ?thesis
        by (auto simp: progress_def landed_def split: loopStep.splits)
    qed
  qed
qed

section \<open>The loop\<close>

definition loop_inv :: "objs \<Rightarrow> nat \<Rightarrow> 'db loopState \<Rightarrow> 'db commitState \<Rightarrow> bool" where
  "loop_inv v n ls st \<longleftrightarrow> (if needCapture ls then ready v n ls st else captured v n ls st)"

lemma loop_inv_linked: "loop_inv v n ls st \<Longrightarrow> linked (st_manifest st) (st_etag st)"
  by (auto simp: loop_inv_def ready_def captured_def Let_def split: if_splits)

lemma updateAttempt_spec:
  assumes s: "invar (w_store w)" "good X mk (view (w_store w))" "fresh (view (w_store w)) (w_uuid w)"
    and i: "loop_inv (view (w_store w)) (w_uuid w) ls st" and fn: "recordable X fn"
    and r: "updateAttempt X cfg ctx path fn a ls st w = (res, ls', st', w')"
    and sv: "needCapture ls \<or> res = Return None \<or> res = Again \<and> \<not> needCapture ls'"
  shows "invar (w_store w') \<and> settled (view (w_store w)) (view (w_store w')) (w_uuid w') \<and>
    (case res of
       Again \<Rightarrow> good X mk (view (w_store w')) \<and> loop_inv (view (w_store w')) (w_uuid w') ls' st'
     | Return x \<Rightarrow> linked (st_manifest st') (st_etag st') \<and>
         (interrupted_release X cfg ctx path fn (Suc n) a ls st w \<or> landed (view (w_store w')) x ls' st'))"
proof -
  let ?v = "view (w_store w)"
  obtain b w0 where b: "backoff_wait a w = (b, w0)" by fastforce
  then have w0: "w_store w0 = w_store w" "w_uuid w0 = w_uuid w"
    by (auto simp: backoff_wait_def split: if_splits list.splits)
  note s0 = s [folded w0]
  have refl: "progress ?v ?v (w_uuid w)" by (rule progress_env [OF env_refl s(2,3)])
  show ?thesis
  proof (cases b)
    case (Some e)
    with r b have r1: "res = Return (Some e)" "ls' = ls" "st' = st" "w' = w0"
      by (auto simp: updateAttempt_def beginAttempt_def)
    with sv i have "ready ?v (w_uuid w) ls st" by (auto simp: loop_inv_def)
    with r1 w0 s settled_progress [OF refl] show ?thesis by (auto simp: ready_def landed_def)
  next
    case None
    show ?thesis
    proof (cases "needCapture ls")
      case False
      with b None have ba: "beginAttempt X cfg ctx fn a ls st w = (Again, ls, st, w0)"
        by (simp add: beginAttempt_def)
      with r have r1: "phaseCommit X cfg ctx path ls st w0 = (res, ls', st', w')"
        by (simp add: updateAttempt_def)
      from i False have "captured (view (w_store w0)) (w_uuid w0) ls st" using w0 by (simp add: loop_inv_def)
      from phaseCommit_spec [OF s0 this r1] sv False w0 ba show ?thesis
        by (auto simp: loop_inv_def split: loopStep.splits)
    next
      case True
      with i w0 have rd: "ready (view (w_store w0)) (w_uuid w0) ls st" by (simp add: loop_inv_def)
      obtain q ls1 st1 w1 where c: "phaseCapture X cfg ctx fn ls st w0 = (q, ls1, st1, w1)"
        by (metis prod_cases4)
      note pc = phaseCapture_spec [OF s0 rd fn c]
      from b None True c have ba: "beginAttempt X cfg ctx fn a ls st w = (q, ls1, st1, w1)"
        by (simp add: beginAttempt_def)
      show ?thesis
      proof (cases q)
        case (Return x)
        with r ba have "res = Return x" "ls' = ls1" "st' = st1" "w' = w1"
          by (auto simp: updateAttempt_def)
        with pc Return w0 settled_progress show ?thesis by auto
      next
        case Again
        with r ba have r1: "phaseCommit X cfg ctx path ls1 st1 w1 = (res, ls', st', w')"
          by (auto simp: updateAttempt_def)
        from pc Again have "captured (view (w_store w1)) (w_uuid w1) ls1 st1"
          "saved (view (w_store w1)) ls1 st1" and p: "progress ?v (view (w_store w1)) (w_uuid w1)"
          "invar (w_store w1)" using w0 by auto
        moreover from p have "good X mk (view (w_store w1))" "fresh (view (w_store w1)) (w_uuid w1)"
          by (simp_all add: progress_def)
        ultimately show ?thesis
          using phaseCommit_spec [of w1, OF _ _ _ _ r1] settled_trans [OF p(1)] ba Again
          by (auto simp: loop_inv_def split: loopStep.splits)
      qed
    qed
  qed
qed

lemma updateLoop_spec:
  assumes "invar (w_store w)" "good X mk (view (w_store w))" "fresh (view (w_store w)) (w_uuid w)"
    and "loop_inv (view (w_store w)) (w_uuid w) ls st" and fn: "recordable X fn"
    and "updateLoop X cfg ctx path fn n a ls st w = (x, ls', st', w')"
    and "\<not> rolls_back_rebase X cfg ctx path fn n a ls st w"
  shows "invar (w_store w') \<and> settled (view (w_store w)) (view (w_store w')) (w_uuid w') \<and>
    linked (st_manifest st') (st_etag st') \<and>
    (interrupted_release X cfg ctx path fn n a ls st w \<or> landed (view (w_store w')) x ls' st')"
  using assms
proof (induction n arbitrary: a ls st w)
  case 0
  then have rd: "ready (view (w_store w)) (w_uuid w) ls st" by (simp add: loop_inv_def)
  from 0 have r: "x = Some ErrConflict" "ls' = ls" "st' = st"
    "w' = (if orphan ls = '''' then w else snd (on_store (Delete store ctx (orphan ls)) w))" by auto
  note d = drop_orphan [OF 0(1-3) _ r(4)]
  from rd d r show ?case
    by (auto simp: ready_def landed_def intro: settled_progress handle_ok_progress)
next
  case (Suc n)
  obtain res ls1 st1 w1 where u: "updateAttempt X cfg ctx path fn a ls st w = (res, ls1, st1, w1)"
    by (metis prod_cases4)
  have sv: "needCapture ls \<or> res = Return None \<or> res = Again \<and> \<not> needCapture ls1"
    using Suc.prems(7) u by (cases res) auto
  note ua = updateAttempt_spec [OF Suc.prems(1-4) fn u sv]
  show ?case
  proof (cases res)
    case (Return y)
    with Suc.prems(6) u ua show ?thesis by auto
  next
    case Again
    with ua have a: "invar (w_store w1)" "good X mk (view (w_store w1))"
      "loop_inv (view (w_store w1)) (w_uuid w1) ls1 st1"
      and se: "settled (view (w_store w)) (view (w_store w1)) (w_uuid w1)" by auto
    from se have fr: "fresh (view (w_store w1)) (w_uuid w1)" by (simp add: settled_def)
    have "progress (view (w_store w)) (view (w_store w1)) (w_uuid w1)"
      using se a(2) by (simp add: settled_def progress_def)
    note tr = settled_trans [OF this]
    have "updateLoop X cfg ctx path fn n (Suc a) ls1 st1 w1 = (x, ls', st', w')"
      "\<not> rolls_back_rebase X cfg ctx path fn n (Suc a) ls1 st1 w1"
      using Suc.prems(6,7) u Again by auto
    note IH = Suc.IH [OF a(1,2) fr a(3) fn this]
    have "interrupted_release X cfg ctx path fn (Suc n) a ls st w"
      if "interrupted_release X cfg ctx path fn n (Suc a) ls1 st1 w1"
      using that u Again by (auto simp: updateAttempt_def split: prod.splits loopStep.splits)
    with IH tr show ?thesis by blast
  qed
qed

text \<open>
  \<^verbatim>\<open>doUpdate\<close>: whatever it returns, the store is coherent, other clients see an evolution,
  and the handle knows where it is.
\<close>

lemma doUpdate_spec:
  assumes s: "invar (w_store w)" "good X mk (view (w_store w))" "fresh (view (w_store w)) (w_uuid w)"
    and h: "handle_ok X gen mk (view (w_store w)) st" "synced st" "linked (st_manifest st) (st_etag st)"
    and fn: "recordable X fn"
    and r: "doUpdate X cfg ctx path fn st w = (x, st', w')"
    and nr: "\<not> rolls_back_rebase X cfg ctx path fn (nat (maxRetries cfg)) 0 initLoop st w"
  shows "invar (w_store w') \<and> settled (view (w_store w)) (view (w_store w')) (w_uuid w') \<and>
    linked (st_manifest st') (st_etag st') \<and>
    (\<not> interrupted_release X cfg ctx path fn (nat (maxRetries cfg)) 0 initLoop st w \<longrightarrow>
       handle_ok X gen mk (view (w_store w')) st')"
proof -
  have i: "loop_inv (view (w_store w)) (w_uuid w) initLoop st"
    using h by (simp add: loop_inv_def ready_def initLoop_def)
  obtain x1 ls1 st1 w1 where l: "updateLoop X cfg ctx path fn (nat (maxRetries cfg)) 0 initLoop st w
      = (x1, ls1, st1, w1)" by (metis prod_cases4)
  note sp = updateLoop_spec [OF s i fn l nr]
  have "w_store w' = w_store w1 \<and> w_uuid w' = w_uuid w1 \<and>
      (st' = rollback (release ls1) st1 \<or> x1 = None \<and> st' = st1)"
    using r l by (auto simp: doUpdate_def dest!: releaseSave_cases split: if_splits)
  with sp show ?thesis by (auto simp: landed_def)
qed

end

end
