(* ===== verification/Compact_Safety.thy ===== *)
theory Compact_Safety
  imports Commit_Safety
begin

text \<open>
  Compaction and migrations in the presence of other clients: the snapshot that is swapped
  in is a file of the content the connection had, it is younger than the one it replaces,
  and the swap happens only if the manifest it was made from is still the current one.
\<close>

section \<open>Installing a snapshot\<close>

context client
begin

lemma snap_key_facts:
  assumes "k \<in> snap_keys X cfg n"
  shows "k \<noteq> ''''" "k \<noteq> mk" "list_all is_ascii k"
proof -
  show "k \<noteq> ''''" using snap_key_form [OF assms] by auto
  show "k \<noteq> mk" using keys_at_mk [OF cfg_law, of k X n] assms by (simp add: keys_at_def)
  show "list_all is_ascii k"
    using assms cfg_law uuid_chars(3) [OF uuids, of n]
  proof (cases rule: snap_keys_cases)
    case (migration ver)
    have "list_all is_ascii (FormatInt ver)"
      using show_nat_digits [of "nat ver"] migration(2)
      by (auto simp: FormatInt_def list_all_iff is_digit_def is_ascii_def)
    with migration cfg_law uuid_chars(3) [OF uuids, of n] show ?thesis
      by (simp add: migrationKey_def wf_cfg_def is_ascii_def)
  qed (simp add: compactKey_def wf_cfg_def is_ascii_def)
qed

text \<open>The write of the new manifest, at a view where the old one is current.\<close>

lemma install_write:
  assumes g: "good X mk u" and m: "man mk u = Some m" and f: "fresh u n" and k: "k \<in> snap_keys X cfg n"
    and b: "body_at u k = Some b" "sq_open X b = Inr d" "int (length b) \<le> max_int64"
    and nm: "nm = \<lparr>FormatVersion = 1, Seq = Seq m, SchemaVersion = ver,
        Snapshot = \<lparr>bKey = k, bSeq = Seq m, bSize = int (length b)\<rparr>, Log = []\<rparr>"
    and ver: "0 \<le> ver" "is_int64 ver" and t: "t = u(mk \<mapsto> (encode_manifest nm, e))"
  shows "settled u t (Suc n)" "man mk t = Some nm" "validate nm = None" "manifest_inv nm" "wire_ok nm"
    "replay X t nm = Some d"
proof -
  note kf = snap_key_facts [OF k]
  from g m have im: "manifest_inv m" "wire_ok m" by (auto elim: good_man)
  show inm: "manifest_inv nm"
    using im kf ver by (auto simp: nm manifest_inv_def manifestFormatVersion_def)
  show wn: "wire_ok nm"
    using im(2) kf ver b(3) by (simp add: nm wire_ok_def is_int64_def min_int64_def max_int64_def)
  show vn: "validate nm = None"
    using validate_iff [of nm] inm wn by (simp add: wire_ok_def is_int64_def manifest_inv_def)
  show mt: "man mk t = Some nm" unfolding t by (rule man_put [OF wn vn])
  have bt: "body_at t k = Some b" using b(1) kf(2) by (simp add: t)
  show rp: "replay X t nm = Some d" using bt b(2) by (simp add: replay_def base_of_def nm)
  have "coherent X mk t"
    using mt inm wn kf(2) rp bt by (auto simp: coherent_def nm refs_def size_ok_def log_recorded_def)
  moreover have "gen (bKey (Snapshot m)) < gen k" "k \<notin> refs m"
    using f m k by (auto simp: fresh_keys_def)
  moreover have "k \<notin> others ep" for ep
  proof -
    have "k \<in> own X cfg []" using k by (auto simp: own_def)
    with others_own [of ep "[]"] show ?thesis by blast
  qed
  moreover have "fresh t (Suc n)"
    unfolding fresh_keys_def
  proof (intro allI impI conjI ballI)
    fix m' i ep k' assume m': "man mk t = Some m'" and i: "Suc n \<le> i"
    with mt have m'': "refs m' = {k}" "bKey (Snapshot m') = k" by (auto simp: nm refs_def)
    have "own_key X cfg ep i \<noteq> k" using k own_key_snap by metis
    then show "own_key X cfg ep i \<notin> refs m'" unfolding m''(1) by simp
    assume k': "k' \<in> snap_keys X cfg i"
    have "n < i" using i by simp
    then have "k' \<noteq> k" using snap_keys_inj [OF uuids k, of i] k' by auto
    then show "k' \<notin> refs m'" using m'' by simp
    show "gen (bKey (Snapshot m')) < gen k'"
      using m'' order k k' \<open>n < i\<close> unfolding gen_law_def by blast
  qed
  ultimately show "settled u t (Suc n)"
    using m mt by (auto simp: settled_def evolves_def nm refs_def)
qed

lemma install_spec:
  assumes s: "invar s" "good X mk (view s)" "fresh (view s) n"
    and m: "sees gen mk (view s) m" "linked m e0" and k: "k \<in> snap_keys X cfg n"
    and b: "body_at (view s) k = Some b" "sq_open X b = Inr d" "int (length b) \<le> max_int64"
    and nm: "nm = \<lparr>FormatVersion = 1, Seq = Seq m, SchemaVersion = ver,
        Snapshot = \<lparr>bKey = k, bSeq = Seq m, bSize = int (length b)\<rparr>, Log = []\<rparr>"
    and ver: "0 \<le> ver" "is_int64 ver"
    and r: "Put store ctx mk (Inr (encode_manifest nm)) \<lparr>IfMatch = e0, IfNoneMatch = False\<rparr> s = (g, t)"
  shows "invar t" "settled (view s) (view t) (Suc n)"
    "g = Inl x \<Longrightarrow> errors_Is x ErrPreconditionFailed \<Longrightarrow> env (view s) (view t)"
    "g = Inr e \<Longrightarrow> man mk (view t) = Some nm \<and> linked nm e \<and> manifest_inv nm \<and> wire_ok nm \<and>
       replay X (view t) nm = Some d \<and>
       (\<exists>u. env (view s) (view u) \<and> man mk (view u) = Some m \<and> view t = (view u)(mk \<mapsto> (encode_manifest nm, e)))"
proof -
  let ?c = "\<lparr>IfMatch = e0, IfNoneMatch = False\<rparr>"
  have "invar t \<and> (\<exists>u. invar u \<and> env (view s) (view u) \<and>
      (view t = view u \<and> (\<exists>x. g = Inl x) \<or>
       (\<exists>y. cond_ok ?c (view u mk) \<and> view t = (view u)(mk \<mapsto> (encode_manifest nm, y)) \<and>
          (\<forall>x. g = Inl x \<longrightarrow> \<not> errors_Is x ErrPreconditionFailed) \<and> (\<forall>x. g = Inr x \<longrightarrow> y = x))))"
    by (rule Put_cases [OF s(1) r])
  then obtain u where t: "invar t" and u: "invar u" "env (view s) (view u)"
    and w: "view t = view u \<and> (\<exists>x. g = Inl x) \<or>
       (\<exists>y. cond_ok ?c (view u mk) \<and> view t = (view u)(mk \<mapsto> (encode_manifest nm, y)) \<and>
          (\<forall>x. g = Inl x \<longrightarrow> \<not> errors_Is x ErrPreconditionFailed) \<and> (\<forall>x. g = Inr x \<longrightarrow> y = x))"
    by blast
  have fs: "fresh (view s) (Suc n)" using fresh_keys_mono [OF s(3)] by simp
  note p = progress_env [OF u(2) s(2) fs]
  have gu: "good X mk (view u)" "fresh (view u) n" using rely_good [OF u(2) s(2)] fresh_env [OF u(2) s(2,3)] by auto
  have wr: "settled (view u) (view t) (Suc n) \<and> man mk (view t) = Some nm \<and> validate nm = None \<and>
      manifest_inv nm \<and> wire_ok nm \<and> replay X (view t) nm = Some d \<and> man mk (view u) = Some m"
    if v: "cond_ok ?c (view u mk)" "view t = (view u)(mk \<mapsto> (encode_manifest nm, y))" for y
  proof -
    have mu: "man mk (view u) = Some m" by (rule linked_cas [OF m(2) u(1) v(1)])
    have "k \<in> own X cfg (epoch m)" using k by (auto simp: own_def)
    then have "body_at (view u) k = Some b"
      using stable(2) [OF rely_own [OF u(2) s(2)] m(1) tracks_current [OF mu]] b(1) by simp
    from install_write [OF gu(1) mu gu(2) k this b(2,3) nm ver v(2)] mu show ?thesis by blast
  qed
  show "invar t" by (rule t)
  show "settled (view s) (view t) (Suc n)"
    using w wr settled_trans [OF p] settled_progress [OF p] by auto
  show "env (view s) (view t)" if "g = Inl x" "errors_Is x ErrPreconditionFailed"
    using w that u(2) by auto
  show "man mk (view t) = Some nm \<and> linked nm e \<and> manifest_inv nm \<and> wire_ok nm \<and>
      replay X (view t) nm = Some d \<and>
      (\<exists>u. env (view s) (view u) \<and> man mk (view u) = Some m \<and> view t = (view u)(mk \<mapsto> (encode_manifest nm, e)))"
    if "g = Inr e"
  proof -
    from w that have v: "cond_ok ?c (view u mk)" "view t = (view u)(mk \<mapsto> (encode_manifest nm, e))" by auto
    from wr [OF v] have "decode_manifest (Inr (encode_manifest nm)) = Inr nm" "validate nm = None"
      by (auto intro: decode_encode_manifest)
    then have "linked nm e" using t v(2) by (auto simp: linked_to_def)
    with wr [OF v] u(2) v(2) show ?thesis by blast
  qed
qed

end

section \<open>Uploading the local database\<close>

context client
begin

lemma uploadFile_spec:
  assumes s: "invar (w_store w)" "good X mk (view (w_store w))" "fresh (view (w_store w)) n"
    and k: "k \<in> keys_at X cfg n" and r: "uploadFile store ctx k path w = (g, w')"
  shows "invar (w_store w') \<and> progress (view (w_store w)) (view (w_store w')) (Suc n) \<and>
    fresh (view (w_store w')) n \<and> w_disk w' = w_disk w \<and> w_uuid w' = w_uuid w \<and>
    (\<forall>z. g = Inr z \<longrightarrow> (\<exists>b. w_disk w path = Some b \<and> z = int (length b) \<and>
       body_at (view (w_store w')) k = Some b))"
proof -
  have fs: "fresh (view (w_store w)) (Suc n)" using fresh_keys_mono [OF s(3)] by simp
  have refl: "progress (view (w_store w)) (view (w_store w)) (Suc n)"
    by (rule progress_env [OF env_refl s(2) fs])
  obtain x1 w1 where l1: "local_call w = (x1, w1)" by fastforce
  obtain x2 w2 where l2: "local_call w1 = (x2, w2)" by fastforce
  obtain x3 w3 where l3: "local_call w2 = (x3, w3)" by fastforce
  note fr = local_call_frame [OF l1] local_call_frame [OF l2] local_call_frame [OF l3]
  show ?thesis
  proof (cases "x1 = None \<and> (\<exists>b. w_disk w path = Some b) \<and> x2 = None")
    case False
    with r l1 l2 fr refl s show ?thesis
      by (cases x1; cases x2; cases "w_disk w path") (auto simp: uploadFile_def)
  next
    case True
    then obtain b where b: "w_disk w path = Some b" by blast
    let ?rd = "case x3 of None \<Rightarrow> Inr b | Some e \<Rightarrow> Inl e"
    obtain e t where e: "Put store ctx k ?rd NoCondition (w_store w3) = (e, t)" by fastforce
    have w3: "w_store w3 = w_store w" "w_disk w3 = w_disk w" "w_uuid w3 = w_uuid w" using fr by auto
    have r1: "w' = w3\<lparr>w_store := t\<rparr>" "g = (case e of Inl y \<Rightarrow> Inl y | Inr _ \<Rightarrow> Inr (int (length b)))"
      using r l1 l2 l3 True b fr e by (auto simp: uploadFile_def on_store_def split: sum.splits)
    show ?thesis
    proof (cases x3)
      case None
      with e w3 have "Put store ctx k (Inr b) NoCondition (w_store w) = (e, t)" by simp
      from upload_changeset [OF s k this] r1 w3 b show ?thesis by (auto split: sum.splits)
    next
      case (Some y)
      with e w3 have p: "Put store ctx k (Inl y) NoCondition (w_store w) = (e, t)" by simp
      from Put_done [OF s(1), of ctx k "Inl y" NoCondition] Put_fail [OF s(1), of ctx k "Inl y" NoCondition] p
      obtain x where x: "e = Inl x" and t: "invar t" and v: "env (view (w_store w)) (view t)"
        by (cases e) fastforce+
      from progress_env [OF v s(2) fs] fresh_env [OF v s(2,3)] x t r1 w3 show ?thesis by auto
    qed
  qed
qed

text \<open>Close, upload, reopen: the connection is left closed or with the content it had.\<close>

lemma uploadSnapshot_spec:
  assumes s: "invar (w_store w)" "good X mk (view (w_store w))" "fresh (view (w_store w)) n"
    and k: "k \<in> keys_at X cfg n" and d: "st_conn st = OpenConn d"
    and r: "uploadSnapshot X store ctx what k path st w = (g, st', w')"
  shows "invar (w_store w') \<and> progress (view (w_store w)) (view (w_store w')) (Suc n) \<and>
    fresh (view (w_store w')) n \<and> w_uuid w' = w_uuid w \<and>
    (\<exists>c. st' = st\<lparr>st_conn := c\<rparr> \<and> (c = ClosedConn \<or> c = OpenConn d)) \<and>
    (\<forall>z. g = Inr z \<longrightarrow> st_conn st' = OpenConn d \<and> z = int (length (sq_file X d)) \<and>
       body_at (view (w_store w')) k = Some (sq_file X d))"
proof -
  obtain x1 w1 where c: "conn_Close X path (OpenConn d) w = (x1, w1)" by fastforce
  then have w1: "w_store w1 = w_store w" "w_uuid w1 = w_uuid w" "w_disk w1 path = Some (sq_file X d)"
    using local_call_frame [of "w\<lparr>w_disk := (w_disk w)(path \<mapsto> sq_file X d)\<rparr>" x1 w1]
    by (auto simp: conn_Close_def)
  obtain g2 w2 where u: "uploadFile store ctx k path w1 = (g2, w2)" by fastforce
  note up = uploadFile_spec [of w1, unfolded w1, OF s k u]
  obtain x3 st3 w3 where o: "reopenConn X path (st\<lparr>st_conn := ClosedConn\<rparr>) w2 = (x3, st3, w3)"
    by (metis prod_cases3)
  have disk: "w_disk w2 path = Some (sq_file X d)" using up w1 by auto
  obtain y w4 where y: "sqlite_OpenConn X path w2 = (y, w4)" by fastforce
  have y2: "y = Inr d'' \<Longrightarrow> d'' = d" for d''
    using y disk files by (auto simp: sqlite_OpenConn_def file_law_def dest!: local_call_frame
        split: prod.splits option.splits)
  have w3: "w_store w3 = w_store w2" "w_uuid w3 = w_uuid w2"
    and st3: "x3 = None \<longrightarrow> st3 = st\<lparr>st_conn := OpenConn d\<rparr>" "x3 \<noteq> None \<longrightarrow> st3 = st\<lparr>st_conn := ClosedConn\<rparr>"
    using o y y2 sqlite_OpenConn_frame [OF y]
    by (auto simp: reopenConn_def openLocalConn_def split: sum.splits)
  note r1 = r [unfolded uploadSnapshot_def d c Let_def, simplified]
  have fs: "fresh (view (w_store w)) (Suc n)" using fresh_keys_mono [OF s(3)] by simp
  note refl = progress_env [OF env_refl s(2) fs]
  show ?thesis
  proof (cases x1)
    case (Some e)
    with r1 w1 s refl show ?thesis by auto
  next
    case None
    show ?thesis
    proof (cases g2)
      case (Inl e)
      with r1 None u o up w3 st3 w1 show ?thesis by (cases x3) auto
    next
      case (Inr z)
      with r1 None u o up w3 st3 w1 show ?thesis by (cases x3) auto
    qed
  qed
qed

end

section \<open>Compaction\<close>

context client
begin

lemma handle_ok_conn:
  assumes "handle_ok X gen mk v st" and "st_conn st = OpenConn d" and "c = ClosedConn \<or> c = OpenConn d"
  shows "handle_ok X gen mk v (st\<lparr>st_conn := c\<rparr>)"
  using assms by (auto simp: handle_ok_def conn_ok_def Let_def)

lemma vacuum_spec:
  assumes "vacuum X st w = (x, st', w')"
  shows "st' = st \<and> w_store w' = w_store w \<and> w_uuid w' = w_uuid w \<and> (x = None \<longrightarrow> (\<exists>d. st_conn st = OpenConn d))"
proof (cases "st_conn st")
  case (OpenConn d)
  obtain y w1 where l: "local_call w = (y, w1)" by fastforce
  have "st\<lparr>st_conn := OpenConn d\<rparr> = st" using OpenConn by simp
  with assms OpenConn l local_call_frame [OF l] vacuums show ?thesis
    by (cases y; cases "sq_vacuum X d") (auto simp: vacuum_def vacuum_law_def)
qed (use assms in \<open>auto simp: vacuum_def\<close>)

lemma installSnapshot_spec:
  assumes s: "invar (w_store w)" "good X mk (view (w_store w))" "fresh (view (w_store w)) n" "w_uuid w = Suc n"
    and h: "handle_ok X gen mk (view (w_store w)) st" "synced st" "linked (st_manifest st) (st_etag st)"
    and k: "k \<in> snap_keys X cfg n" and d: "st_conn st = OpenConn d"
    and b: "body_at (view (w_store w)) k = Some (sq_file X d)"
    and r: "installSnapshot cfg ctx \<lparr>bKey = k, bSeq = Seq (st_manifest st), bSize = int (length (sq_file X d))\<rparr>
      st w = (res, st', w')"
  shows "invar (w_store w') \<and> settled (view (w_store w)) (view (w_store w')) (w_uuid w') \<and>
    handle_ok X gen mk (view (w_store w')) st' \<and> linked (st_manifest st') (st_etag st') \<and>
    (res = Again \<longrightarrow> good X mk (view (w_store w'))) \<and>
    (res = Return None \<longrightarrow> Log (st_manifest st') = [] \<and> Seq (st_manifest st') = Seq (st_manifest st) \<and>
       st_conn st' = OpenConn d \<and> synced st')"
proof -
  let ?m = "st_manifest st" and ?b = "sq_file X d" and ?v = "view (w_store w)"
  let ?c = "\<lparr>IfMatch = st_etag st, IfNoneMatch = False\<rparr>"
  from h have hm: "manifest_inv ?m" "wire_ok ?m" "sees gen mk ?v ?m" and q: "localSeq st = Seq ?m"
    using d by (auto simp: handle_ok_def synced_def)
  define nm where "nm = \<lparr>FormatVersion = 1, Seq = Seq ?m, SchemaVersion = SchemaVersion ?m,
        Snapshot = \<lparr>bKey = k, bSeq = Seq ?m, bSize = int (length ?b)\<rparr>, Log = []\<rparr>"
  have st: "stamp (withSnapshot ?m \<lparr>bKey = k, bSeq = Seq ?m, bSize = int (length ?b)\<rparr>) = nm"
    by (simp add: nm_def stamp_def withSnapshot_def manifestFormatVersion_def)
  define p where "p = (case validate nm of Some e \<Rightarrow> (Inl e, w_store w)
      | None \<Rightarrow> Put store ctx mk (Inr (encode_manifest nm)) ?c (w_store w))"
  obtain g t where g: "p = (g, t)" by fastforce
  have pm: "on_store (putManifest store ctx mk
        (withSnapshot ?m \<lparr>bKey = k, bSeq = Seq ?m, bSize = int (length ?b)\<rparr>) ?c) w
      = ((g, nm), w\<lparr>w_store := t\<rparr>)"
    using g by (auto simp: p_def on_store_def putManifest_def Let_def st split: option.splits)
  have open_b: "sq_open X ?b = Inr d" "int (length ?b) \<le> max_int64"
    using files sizes by (auto simp: file_law_def size_law_def)
  have ver: "0 \<le> SchemaVersion ?m" "is_int64 (SchemaVersion ?m)"
    using hm by (auto simp: manifest_inv_def wire_ok_def)
  have fs: "fresh ?v (Suc n)" using fresh_keys_mono [OF s(3)] by simp
  have refl: "settled ?v ?v (Suc n)" by (rule settled_progress [OF progress_env [OF env_refl s(2) fs]])
  have pt: "invar t" "settled ?v (view t) (Suc n)"
    "g = Inl x \<Longrightarrow> errors_Is x ErrPreconditionFailed \<Longrightarrow> env ?v (view t)"
    "g = Inr e \<Longrightarrow> man mk (view t) = Some nm \<and> linked nm e \<and> manifest_inv nm \<and> wire_ok nm \<and>
       replay X (view t) nm = Some d" for x e
    using install_spec [OF s(1-3) hm(3) h(3) k b open_b nm_def ver, of ctx g t] g s(1) refl env_refl
    by (auto simp: p_def split: option.splits)
  have ht: "handle_ok X gen mk (view t) st"
    using pt(2) h(1) by (auto simp: settled_def intro: handle_ok_evolves)
  note r1 = r [unfolded installSnapshot_def pm, simplified]
  show ?thesis
  proof (cases g)
    case (Inl x)
    with r1 pt ht h(3) s(2,4) rely_good show ?thesis by (auto split: if_splits)
  next
    case (Inr e)
    note su = pt(4) [OF Inr]
    have "replay_to X (view t) nm (Seq ?m) = Some d"
      using su replay_to_Seq [of nm X "view t"] by (simp add: nm_def)
    with su q d sees_current [of mk "view t" nm gen]
    have "handle_ok X gen mk (view t) (st\<lparr>st_manifest := nm, st_etag := e, snapshotKey := k\<rparr>)"
      by (simp add: handle_ok_def conn_ok_def Let_def) (simp add: nm_def)
    with r1 Inr pt(1,2) su s(4) d q show ?thesis by (auto simp: nm_def synced_def)
  qed
qed

lemma compactAttempt_spec:
  assumes s: "invar (w_store w)" "good X mk (view (w_store w))" "fresh (view (w_store w)) (w_uuid w)"
    and h: "handle_ok X gen mk (view (w_store w)) st" "linked (st_manifest st) (st_etag st)"
    and r: "compactAttempt X cfg ctx path st w = (res, st', w')"
  shows "invar (w_store w') \<and> settled (view (w_store w)) (view (w_store w')) (w_uuid w') \<and>
    handle_ok X gen mk (view (w_store w')) st' \<and> linked (st_manifest st') (st_etag st') \<and>
    (res = Again \<longrightarrow> good X mk (view (w_store w'))) \<and>
    (res = Return None \<longrightarrow> Log (st_manifest st') = [] \<and> synced st')"
proof -
  let ?v = "view (w_store w)"
  obtain x1 st1 w1 where f: "refreshManifest X cfg ctx path st w = (x1, st1, w1)" by (metis prod_cases3)
  note rf = refresh_spec [OF s(1,2) h f]
  then have e1: "env ?v (view (w_store w1))" by simp
  note p1 = progress_env [OF e1 s(2,3)]
  have g1: "good X mk (view (w_store w1))" "fresh (view (w_store w1)) (w_uuid w1)"
    using p1 rf by (auto simp: progress_def)
  obtain x2 st2 w2 where v: "vacuum X st1 w1 = (x2, st2, w2)" by (metis prod_cases3)
  note vs = vacuum_spec [OF v]
  define k where "k = compactKey cfg (uuid_string X (w_uuid w2))"
  let ?w3 = "w2\<lparr>w_uuid := Suc (w_uuid w2)\<rparr>"
  obtain g st4 w4 where u: "uploadSnapshot X store ctx ''compact'' k path st2 ?w3 = (g, st4, w4)"
    by (metis prod_cases3)
  note r1 = r [unfolded compactAttempt_def f, simplified]
  show ?thesis
  proof (cases "x1 = None \<and> Log (st_manifest st1) \<noteq> []")
    case False
    then show ?thesis
      using r1 rf settled_progress [OF p1] by (cases x1) auto
  next
    case True
    show ?thesis
    proof (cases x2)
      case (Some e)
      with True r1 v vs rf settled_progress [OF p1] show ?thesis by auto
    next
      case None
      then obtain d where d: "st_conn st2 = OpenConn d" using vs by auto
      have ks: "k \<in> snap_keys X cfg (w_uuid w2)" "k \<in> keys_at X cfg (w_uuid w2)"
        by (simp_all add: k_def snap_keys_def keys_at_def)
      have s3: "invar (w_store ?w3)" "good X mk (view (w_store ?w3))" "fresh (view (w_store ?w3)) (w_uuid w2)"
        using rf g1 vs by auto
      note us = uploadSnapshot_spec [OF s3 ks(2) d u]
      then have p4: "progress (view (w_store w1)) (view (w_store w4)) (Suc (w_uuid w2))" using vs by simp
      have h4: "handle_ok X gen mk (view (w_store w4)) st4"
      proof -
        have "handle_ok X gen mk (view (w_store w4)) st2"
          using handle_ok_progress [OF p4] rf vs by simp
        with us d show ?thesis using handle_ok_conn by blast
      qed
      have lk: "linked (st_manifest st4) (st_etag st4)" using us rf vs by auto
      show ?thesis
      proof (cases g)
        case (Inl e)
        have "w' = w4" "st' = st4" "res = Return (Some e)"
          using r1 True v None u Inl by (auto simp: new_uuid_def k_def [symmetric])
        with us h4 lk settled_progress [OF progress_trans [OF p1 p4]] show ?thesis by simp
      next
        case (Inr z)
        then have z: "st_conn st4 = OpenConn d" "z = int (length (sq_file X d))"
          "body_at (view (w_store w4)) k = Some (sq_file X d)" "st4 = st2\<lparr>st_conn := OpenConn d\<rparr>"
          using us by auto
        have r2: "installSnapshot cfg ctx \<lparr>bKey = k, bSeq = Seq (st_manifest st4), bSize = z\<rparr> st4 w4
            = (res, st', w')"
          using r1 True v None u Inr by (auto simp: new_uuid_def k_def [symmetric])
        have sy: "synced st4" using rf True z d vs by (auto simp: synced_def)
        have g4: "good X mk (view (w_store w4))" using p4 by (simp add: progress_def)
        have u4: "w_uuid w4 = Suc (w_uuid w2)" "fresh (view (w_store w4)) (w_uuid w2)" "invar (w_store w4)"
          using us by auto
        from installSnapshot_spec [OF u4(3) g4 u4(2,1) h4 sy lk ks(1) z(1,3) r2 [unfolded z(2)]]
          settled_trans [OF progress_trans [OF p1 p4]]
        show ?thesis by blast
      qed
    qed
  qed
qed

lemma compactLoop_spec:
  assumes "invar (w_store w)" "good X mk (view (w_store w))" "fresh (view (w_store w)) (w_uuid w)"
    and "handle_ok X gen mk (view (w_store w)) st" "linked (st_manifest st) (st_etag st)"
    and "compactLoop X cfg ctx path n st w = (x, st', w')"
  shows "invar (w_store w') \<and> settled (view (w_store w)) (view (w_store w')) (w_uuid w') \<and>
    handle_ok X gen mk (view (w_store w')) st' \<and> linked (st_manifest st') (st_etag st') \<and>
    (x = None \<longrightarrow> Log (st_manifest st') = [] \<and> synced st')"
  using assms
proof (induction n arbitrary: st w)
  case 0
  with settled_progress [OF progress_env [OF env_refl 0(2,3)]] show ?case by auto
next
  case (Suc n)
  obtain res st1 w1 where c: "compactAttempt X cfg ctx path st w = (res, st1, w1)" by (metis prod_cases3)
  note ca = compactAttempt_spec [OF Suc.prems(1-5) c]
  show ?case
  proof (cases res)
    case (Return y)
    with Suc.prems(6) c ca show ?thesis by auto
  next
    case Again
    with ca have g: "good X mk (view (w_store w1))" and se: "settled (view (w_store w)) (view (w_store w1)) (w_uuid w1)"
      by auto
    then have p: "progress (view (w_store w)) (view (w_store w1)) (w_uuid w1)"
      by (simp add: settled_def progress_def)
    have "compactLoop X cfg ctx path n st1 w1 = (x, st', w')" using Suc.prems(6) c Again by simp
    from Suc.IH [OF _ g _ _ _ this] ca p settled_trans [OF p] show ?thesis by (auto simp: progress_def)
  qed
qed

lemmas compactLocked_spec = compactLoop_spec [where n = "nat (maxRetries cfg)", folded compactLocked_def]

end

end
