(* ===== verification/Alone.thy ===== *)
theory Alone
  imports Compact_Safety
begin

text \<open>
  A client that has the store to itself, while nothing fails: every operation succeeds and
  has the effect it should.  The first part needs the sequential contract of the store only,
  the second also what a client knows of SQLite and of its keys.
\<close>

section \<open>Reading\<close>

context exclusive_store
begin

lemma load_alone:
  assumes "invar s" and "view s k = Some (b, e)" and "man k (view s) = Some m"
  shows "\<exists>t. loadManifest store None k s = (Inr (m, e), t) \<and> invar t \<and> view t = view s"
proof -
  from Get_hit [OF assms(1,2)] obtain t where t: "Get store None k s = (Inr (Inr b, e), t)" ..
  from assms(2,3) have "decode_manifest (Inr b) = Inr m" "validate m = None" by (auto simp: man_eq)
  with t Get_step [OF assms(1) t] show ?thesis by (auto simp: loadManifest_def)
qed

lemma single_alone:
  assumes "invar s" and "view s k = Some (b, e)"
  shows "\<exists>t. downloadSingle store None k s = (Inr b, t) \<and> invar t \<and> view t = view s"
proof -
  from Get_hit [OF assms] obtain t where t: "Get store None k s = (Inr (Inr b, e), t)" ..
  with Get_step [OF assms(1) t] show ?thesis by (auto simp: downloadSingle_def)
qed

lemma parts_alone:
  assumes "invar s" and "view s k = Some (b, e)" and "\<forall>(i, j) \<in> set rs. 0 \<le> i \<and> i \<le> j \<and> j < int (length b)"
  shows "\<exists>c t. download_parts store None k rs dst s = (Inr c, t)"
  using assms
proof (induction rs arbitrary: dst s)
  case (Cons r rs)
  obtain i j where r: "r = (i, j)" by (cases r)
  with Cons.prems obtain p t where g: "GetRange store None k i j s = (Inr (Inr p), t)"
    using GetRange_hit by (metis (no_types, lifting) case_prodD list.set_intros(1))
  from GetRange_step [OF Cons.prems(1) g] have "invar t" "view t k = Some (b, e)"
    using Cons.prems(2) by auto
  from Cons.IH [OF this] Cons.prems(3) g r show ?case by auto
qed simp

text \<open>Downloading in parts gives the bytes of the object.\<close>

lemma parallel_alone:
  assumes s: "invar s" "view s k = Some (b, e)" and n: "int (length b) = n" "0 < n" and p: "0 < p"
  shows "\<exists>t. downloadParallel store None k n p s = (Inr b, t) \<and> invar t \<and> view t = view s"
proof -
  let ?c = "if n div p = 0 then n else n div p" and ?p = "if n div p = 0 then 1 else p"
  let ?rs = "map (part_range n ?c ?p) [0..?p - 1]"
  have ch: "chained 0 ?rs n" by (rule chained_downloadParallel [OF p n(2)])
  from parts_alone [OF s, of ?rs] chained_bounds [OF ch order_refl] n(1) obtain c t where
    d: "download_parts store None k ?rs [] s = (Inr c, t)" by blast
  from download_parts_spec [OF s(1) d chained_ranges [OF ch order_refl]] obtain bs where
    t: "invar t" "view t = view s" and bs: "length bs = length ?rs" "c = part_writes ?rs bs []"
    and sn: "\<forall>x \<in> set bs. \<exists>u. invar u \<and> view s = view u \<and> view u = view t \<and>
      body_at (view u) k = Some x" by metis
  from sn have seen: "\<And>x. x \<in> set bs \<Longrightarrow> body_at (view s) k = Some x" by metis
  have "bs = replicate (length ?rs) b"
    using bs(1) seen s(2) by (intro replicate_eqI) (auto simp: body_at_def)
  with part_writes_chained [of "[]" ?rs n b bs] ch n bs(2) have "c = b" by simp
  with d t show ?thesis by (auto simp: downloadParallel_def Let_def)
qed

lemma download_alone:
  assumes s: "invar (w_store w)" "view (w_store w) k = Some (b, e)" and io: "w_io w = []"
    and z: "size_ok (view (w_store w)) \<lparr>bKey = k, bSeq = q, bSize = z\<rparr>"
  shows "\<exists>t. downloadSnapshot store None k z path w =
      (None, w\<lparr>w_store := t, w_disk := (w_disk w)(path \<mapsto> b)\<rparr>) \<and> invar t \<and> view t = view (w_store w)"
proof -
  let ?f = "if parallelDownloadThreshold \<le> z
            then downloadParallel store None k z parallelDownloadParts else downloadSingle store None k"
  have "\<exists>t. ?f (w_store w) = (Inr b, t) \<and> invar t \<and> view t = view (w_store w)"
  proof (cases "parallelDownloadThreshold \<le> z")
    case True
    with z s(2) have "int (length b) = z" by (simp add: size_ok_def body_at_def)
    moreover have "0 < z" using True by (simp add: parallelDownloadThreshold_def)
    moreover have "0 < parallelDownloadParts" by (simp add: parallelDownloadParts_def)
    ultimately show ?thesis using parallel_alone [OF s] True by simp
  next
    case False
    with single_alone [OF s] show ?thesis by simp
  qed
  then obtain t where t: "?f (w_store w) = (Inr b, t)" "invar t" "view t = view (w_store w)" by blast
  then have "downloadSnapshot store None k z path w =
      (None, w\<lparr>w_store := t, w_disk := (w_disk w)(path \<mapsto> b)\<rparr>)"
    using io by (simp add: downloadSnapshot_def on_store_def)
  with t show ?thesis by blast
qed

lemma fetch_alone:
  assumes "invar s" and "\<forall>e \<in> set es. body_at (view s) (eKey e) \<noteq> None"
  shows "\<exists>t. fetch_all store None es s = (Inr (map (\<lambda>e. the (body_at (view s) (eKey e))) es), t) \<and>
    invar t \<and> view t = view s"
  using assms
proof (induction es arbitrary: s)
  case (Cons x es)
  then obtain b e where v: "view s (eKey x) = Some (b, e)" by (auto simp: body_at_def)
  from Get_hit [OF Cons.prems(1) v] obtain t where t: "Get store None (eKey x) s = (Inr (Inr b, e), t)" ..
  from Get_step [OF Cons.prems(1) t] have it: "invar t" "view t = view s" by auto
  with Cons.IH [of t] Cons.prems(2) t v show ?case by (auto simp: body_at_def)
qed simp

end

lemma apply_entries_bodies:
  "apply_entries X v es d = Some d' \<Longrightarrow> \<forall>e \<in> set es. body_at v (eKey e) \<noteq> None"
  by (induction es arbitrary: d) (auto split: option.splits)

lemma apply_all_entries:
  "apply_entries X v es d = Some d' \<Longrightarrow>
     apply_all X (zip es (map (\<lambda>e. the (body_at v (eKey e))) es)) q (OpenConn d) =
       ((if es = [] then q else eSeq (last es), None), OpenConn d')"
proof (induction es arbitrary: d q)
  case (Cons e es)
  from Cons.prems obtain b d1 where b: "body_at v (eKey e) = Some b" "apply_bytes X b d = Some d1"
    "apply_entries X v es d1 = Some d'" by (auto split: option.splits)
  have "applyChangeset X (OpenConn d) b conflictAbort = (None, OpenConn d1)"
    using b(2) by (simp add: applyChangeset_ok)
  with Cons.IH [OF b(3), of "eSeq e"] b(1) show ?case by simp
qed simp

context exclusive_store
begin

text \<open>\<^verbatim>\<open>applyLog\<close> computes the reference replay of the entries that are missing.\<close>

lemma applyLog_alone:
  assumes s: "invar s" and d: "apply_entries X (view s) (filter (\<lambda>e. q < eSeq e) log) d = Some d'"
  shows "\<exists>t. applyLog X store None log q (OpenConn d) s =
      ((if filter (\<lambda>e. q < eSeq e) log = [] then q else eSeq (last (filter (\<lambda>e. q < eSeq e) log)), None),
       OpenConn d', t) \<and> invar t \<and> view t = view s"
proof (cases "filter (\<lambda>e. q < eSeq e) log = []")
  case True
  with d s show ?thesis by (simp add: applyLog_def)
next
  case False
  let ?es = "filter (\<lambda>e. q < eSeq e) log"
  from fetch_alone [OF s apply_entries_bodies [OF d]] obtain t where
    "fetch_all store None ?es s = (Inr (map (\<lambda>e. the (body_at (view s) (eKey e))) ?es), t)"
    "invar t" "view t = view s" by blast
  with False apply_all_entries [OF d, of q] show ?thesis by (simp add: applyLog_def)
qed

end

section \<open>The client alone\<close>

locale sole_client = exclusive_store "cfg_store cfg" view invar
  for cfg :: "'s commitConfig" and view :: "'s \<Rightarrow> objs" and invar :: "'s \<Rightarrow> bool" +
  fixes X :: "'db ext" and gen :: "string \<Rightarrow> nat"
  assumes gen_ok: "gen_law X cfg gen"
    and cfg_ok: "wf_cfg cfg"
    and uuid_ok: "uuid_law X"
    and size_ok_law: "size_law X"
    and rebase_ok: "rebase_law X"
    and file_ok: "file_law X"
    and vacuum_ok: "vacuum_law X"

sublocale sole_client \<subseteq> client cfg view invar "(=)" X gen "\<lambda>ep. {}"
  using gen_ok cfg_ok uuid_ok size_ok_law rebase_ok file_ok vacuum_ok by unfold_locales (auto simp: rely_refl)

text \<open>A handle whose manifest and ETag are those in the store.\<close>

definition current :: "string \<Rightarrow> objs \<Rightarrow> 'db commitState \<Rightarrow> bool" where
  "current mk v st \<longleftrightarrow>
     man mk v = Some (st_manifest st) \<and> (\<exists>b. v mk = Some (b, st_etag st))"

lemma replay_tail:
  assumes m: "manifest_inv m" and q: "bSeq (Snapshot m) \<le> q" "q \<le> Seq m"
    and d: "replay_to X v m q = Some d0" "replay X v m = Some d"
  shows "apply_entries X v (filter (\<lambda>e. q < eSeq e) (Log m)) d0 = Some d"
    and "(if filter (\<lambda>e. q < eSeq e) (Log m) = [] then q
          else eSeq (last (filter (\<lambda>e. q < eSeq e) (Log m)))) = Seq m"
proof -
  let ?b = "bSeq (Snapshot m)"
  from m have c: "contiguous ?b (Log m)" and s: "Seq m = ?b + int (length (Log m))"
    by (simp_all add: manifest_inv_def)
  have f: "filter (\<lambda>e. q < eSeq e) (Log m) = drop (nat (q - ?b)) (Log m)"
    using contiguous_filter [OF c q(1)] q(2) s by simp
  have "take (nat (Seq m - q)) (drop (nat (q - ?b)) (Log m)) = drop (nat (q - ?b)) (Log m)"
    using s q by simp
  with replay_to_step [OF q(1,2), of X v] replay_to_Seq [OF m, of X v] d f
  show "apply_entries X v (filter (\<lambda>e. q < eSeq e) (Log m)) d0 = Some d" by simp
  have "eSeq (last (Log m)) = Seq m" if "Log m \<noteq> []" using contiguous_last [OF c that] s by simp
  then show "(if filter (\<lambda>e. q < eSeq e) (Log m) = [] then q
          else eSeq (last (filter (\<lambda>e. q < eSeq e) (Log m)))) = Seq m"
    using q s by (cases "Log m = []") (auto simp: f)
qed

lemma replay_base: "replay X v m = Some d \<Longrightarrow> \<exists>d0. base_of X v (Snapshot m) = Some d0"
  by (auto simp: replay_def split: option.splits)

context sole_client
begin

lemma world_upd [simp]: "w\<lparr>w_disk := f, w_store := t\<rparr> = w\<lparr>w_store := t, w_disk := f\<rparr>"
  by (cases w) simp

text \<open>A full refresh reads the snapshot.\<close>

lemma fullRefresh_alone:
  assumes s: "invar (w_store w)" and io: "w_io w = []" and c: "st_conn st \<noteq> ClosedConn"
    and b: "base_of X (view (w_store w)) (Snapshot (st_manifest st)) = Some d0"
    and z: "size_ok (view (w_store w)) (Snapshot (st_manifest st))"
  shows "\<exists>t f. fullRefresh X cfg None path st w =
      (None, st\<lparr>st_conn := OpenConn d0, localSeq := bSeq (Snapshot (st_manifest st)),
                snapshotKey := bKey (Snapshot (st_manifest st))\<rparr>, w\<lparr>w_store := t, w_disk := f\<rparr>) \<and>
    invar t \<and> view t = view (w_store w)"
proof -
  let ?s = "Snapshot (st_manifest st)"
  obtain g where g: "(case st_conn st of NilConn \<Rightarrow> (None, w) | c \<Rightarrow> conn_Close X path c w)
      = (None, w\<lparr>w_disk := g\<rparr>)"
    using c io by (cases "st_conn st") (auto simp: conn_Close_def intro: that [of "w_disk w"])
  from b obtain y e where y: "view (w_store w) (bKey ?s) = Some (y, e)" "sq_open X y = Inr d0"
    by (auto simp: base_of_def body_at_def split: option.splits sum.splits)
  have z': "size_ok (view (w_store w)) \<lparr>bKey = bKey ?s, bSeq = bSeq ?s, bSize = bSize ?s\<rparr>"
    using z by (simp add: size_ok_def)
  from download_alone [of "w\<lparr>w_disk := g\<rparr>" "bKey ?s" y e "bSeq ?s" "bSize ?s" path] z' y s io
  obtain t where t: "downloadSnapshot store None (bKey ?s) (bSize ?s) path (w\<lparr>w_disk := g\<rparr>) =
      (None, w\<lparr>w_disk := g(path \<mapsto> y), w_store := t\<rparr>)" "invar t" "view t = view (w_store w)"
    by auto
  have "openLocalConn X path (w\<lparr>w_disk := g(path \<mapsto> y), w_store := t\<rparr>) =
      (Inr d0, w\<lparr>w_disk := g(path \<mapsto> y), w_store := t\<rparr>)"
    using io y by (simp add: openLocalConn_def sqlite_OpenConn_def)
  with g t show ?thesis by (auto simp: fullRefresh_def Let_def)
qed

lemma sync_alone:
  assumes s: "invar (w_store w)" and io: "w_io w = []" and c: "st_conn st \<noteq> ClosedConn"
    and m: "manifest_inv (st_manifest st)" "size_ok (view (w_store w)) (Snapshot (st_manifest st))"
    and d: "replay X (view (w_store w)) (st_manifest st) = Some d"
    and k: "\<And>d0. \<not> needRefresh st \<Longrightarrow> st_conn st = OpenConn d0 \<Longrightarrow> localSeq st \<le> Seq (st_manifest st) \<and>
      replay_to X (view (w_store w)) (st_manifest st) (localSeq st) = Some d0"
  shows "\<exists>t f. syncToManifest X cfg None path st w =
      (None, st\<lparr>st_conn := OpenConn d, localSeq := Seq (st_manifest st),
                snapshotKey := bKey (Snapshot (st_manifest st))\<rparr>, w\<lparr>w_store := t, w_disk := f\<rparr>) \<and>
    invar t \<and> view t = view (w_store w)"
proof -
  let ?m = "st_manifest st" and ?v = "view (w_store w)"
  obtain d0 where d0: "base_of X ?v (Snapshot ?m) = Some d0" using replay_base [OF d] ..
  have "\<exists>q d1 t f. (if needRefresh st then fullRefresh X cfg None path st w else (None, st, w)) =
      (None, st\<lparr>st_conn := OpenConn d1, localSeq := q, snapshotKey := bKey (Snapshot ?m)\<rparr>,
       w\<lparr>w_store := t, w_disk := f\<rparr>) \<and> invar t \<and> view t = ?v \<and>
      bSeq (Snapshot ?m) \<le> q \<and> q \<le> Seq ?m \<and> replay_to X ?v ?m q = Some d1"
  proof (cases "needRefresh st")
    case True
    moreover have "replay_to X ?v ?m (bSeq (Snapshot ?m)) = Some d0" using d0 by (simp add: replay_to_def)
    moreover have "bSeq (Snapshot ?m) \<le> Seq ?m" using m(1) by (simp add: manifest_inv_def)
    ultimately show ?thesis
      using fullRefresh_alone [OF s io c d0 m(2), of path] by (auto intro!: exI [of _ "bSeq (Snapshot ?m)"])
  next
    case False
    with c obtain d1 where d1: "st_conn st = OpenConn d1"
      by (cases "st_conn st") (auto simp: needRefresh_def)
    have "w = w\<lparr>w_store := w_store w, w_disk := w_disk w\<rparr>" by simp
    moreover have "st = st\<lparr>st_conn := OpenConn d1, localSeq := localSeq st, snapshotKey := bKey (Snapshot ?m)\<rparr>"
      using False d1 by (simp add: needRefresh_def)
    moreover have "bSeq (Snapshot ?m) \<le> localSeq st" using False by (simp add: needRefresh_def)
    ultimately show ?thesis using False k [OF False d1] s by metis
  qed
  then obtain q d1 t f where 1: "(if needRefresh st then fullRefresh X cfg None path st w else (None, st, w)) =
      (None, st\<lparr>st_conn := OpenConn d1, localSeq := q, snapshotKey := bKey (Snapshot ?m)\<rparr>,
       w\<lparr>w_store := t, w_disk := f\<rparr>)" "invar t" "view t = ?v"
    and q: "bSeq (Snapshot ?m) \<le> q" "q \<le> Seq ?m" "replay_to X ?v ?m q = Some d1" by blast
  note tl = replay_tail [OF m(1) q d]
  from applyLog_alone [OF 1(2), of X q "Log ?m" d1 d] tl 1(3) obtain t' where
    "applyLog X store None (Log ?m) q (OpenConn d1) t = ((Seq ?m, None), OpenConn d, t')"
    "invar t'" "view t' = ?v" by auto
  then show ?thesis using 1(1) by (auto simp: syncToManifest_def)
qed

lemma refresh_alone:
  assumes s: "invar (w_store w)" "good X mk (view (w_store w))" and io: "w_io w = []"
    and h: "handle_ok X gen mk (view (w_store w)) st" and c: "st_conn st \<noteq> ClosedConn"
    and m: "man mk (view (w_store w)) = Some m" "SchemaVersion m = schemaVer cfg"
    and e: "view (w_store w) mk = Some (b, e)"
    and d: "replay X (view (w_store w)) m = Some d"
  shows "\<exists>t f. refreshManifest X cfg None path st w =
      (None, st\<lparr>st_manifest := m, st_etag := e, st_conn := OpenConn d, localSeq := Seq m,
                snapshotKey := bKey (Snapshot m)\<rparr>, w\<lparr>w_store := t, w_disk := f\<rparr>) \<and>
    invar t \<and> view t = view (w_store w)"
proof -
  let ?v = "view (w_store w)" and ?st = "st\<lparr>st_manifest := m, st_etag := e\<rparr>"
  from s(2) m(1) have im: "manifest_inv m" "size_ok ?v (Snapshot m)"
    by (auto simp: good_def coherent_def)
  from load_alone [OF s(1) e m(1)] obtain t where
    l: "loadManifest store None mk (w_store w) = (Inr (m, e), t)" "invar t" "view t = ?v" by blast
  have "\<exists>t' f. syncToManifest X cfg None path ?st (w\<lparr>w_store := t\<rparr>) =
      (None, ?st\<lparr>st_conn := OpenConn d, localSeq := Seq (st_manifest ?st),
                snapshotKey := bKey (Snapshot (st_manifest ?st))\<rparr>, w\<lparr>w_store := t\<rparr>\<lparr>w_store := t', w_disk := f\<rparr>) \<and>
    invar t' \<and> view t' = view (w_store (w\<lparr>w_store := t\<rparr>))"
  proof (rule sync_alone)
    fix d0 assume n: "\<not> needRefresh ?st" and d0: "st_conn ?st = OpenConn d0"
    from conn_ok_adopt(2) [OF h _ m(1) im(1), of d0] n d0 have co: "conn_ok X mk ?v ?st d0"
      by (simp add: needRefresh_def)
    with m(1) l(3) show "localSeq ?st \<le> Seq (st_manifest ?st) \<and>
      replay_to X (view (w_store (w\<lparr>w_store := t\<rparr>))) (st_manifest ?st) (localSeq ?st) = Some d0"
      by (simp add: conn_ok_def Let_def tracks_current)
  qed (use l im d io c in auto)
  then show ?thesis using l m(2) by (auto simp: refreshManifest_def on_store_def schemaCheck_def)
qed

end

section \<open>Writing alone\<close>

context exclusive_store
begin

lemma put_alone:
  assumes "invar s" and "cond_ok c (view s k)" and "\<not> (IfMatch c \<noteq> '''' \<and> IfNoneMatch c)"
  shows "\<exists>e t. Put store None k (Inr b) c s = (Inr e, t) \<and> invar t \<and> view t = (view s)(k \<mapsto> (b, e))"
proof -
  from Put_hit [OF assms(1,3,2)] obtain e t where p: "Put store None k (Inr b) c s = (Inr e, t)" by blast
  from Put_done [OF assms(1) p] p show ?thesis by auto
qed

lemma cas_alone:
  assumes "invar s" and "view s k = Some (b', e')"
  shows "\<exists>e t. Put store None k (Inr b) \<lparr>IfMatch = e', IfNoneMatch = False\<rparr> s = (Inr e, t) \<and> invar t \<and>
    view t = (view s)(k \<mapsto> (b, e))"
  using assms etag_normal [OF assms] by (intro put_alone) (auto simp: cond_ok_def)

end

lemma cond_ok_NoCondition [simp]: "cond_ok NoCondition x"
  by (simp add: cond_ok_def NoCondition_def)

context sole_client
begin

lemma capture_alone:
  assumes "calm 3 w" and "fn d = (None, d', n)" and "sq_changeset X d d' = cs" and "cs \<noteq> []"
  shows "capture X (OpenConn d) fn w = (Inr (Some cs), OpenConn d', w\<lparr>w_io := drop 3 (w_io w)\<rparr>)"
proof -
  have "calm (Suc (Suc (Suc 0))) w" using assms(1) by (simp add: numeral_eq_Suc)
  note c1 = calm_call [OF this] note c2 = calm_call [OF c1(2)] note c3 = calm_call [OF c2(2)]
  show ?thesis using assms(2-) c1(1) c2(1) c3(1) by (simp add: capture_def numeral_eq_Suc drop_Suc)
qed

lemma phaseCapture_alone:
  assumes s: "invar (w_store w)" and io: "calm 4 w" and c: "st_conn st = OpenConn d"
    and fn: "fn d = (None, d', n)" "sq_changeset X d d' = cs" "cs \<noteq> []"
    and k: "k = own_key X cfg (epoch (st_manifest st)) (w_uuid w)"
  shows "\<exists>t e. phaseCapture X cfg None fn initLoop st w =
      (Again, \<lparr>needCapture = False, ls_cs = cs, csKey = k, release = Some d, orphan = ''''\<rparr>,
       st\<lparr>st_conn := OpenConn d'\<rparr>, w\<lparr>w_io := drop 4 (w_io w), w_uuid := Suc (w_uuid w), w_store := t\<rparr>) \<and>
    invar t \<and> view t = (view (w_store w))(k \<mapsto> (cs, e))"
proof -
  have "calm (Suc 3) w" using io by simp
  note c1 = calm_call [OF this]
  have "\<not> (IfMatch NoCondition \<noteq> '''' \<and> IfNoneMatch NoCondition)" by (simp add: NoCondition_def)
  from put_alone [OF s cond_ok_NoCondition this, of k cs] obtain e t where
    "Put store None k (Inr cs) NoCondition (w_store w) = (Inr e, t)" "invar t"
    "view t = (view (w_store w))(k \<mapsto> (cs, e))" by blast
  then show ?thesis using c1(1) capture_alone [OF c1(2), of fn d d' n cs] fn c k
    by (auto simp: phaseCapture_def uploadChangeset_def initLoop_def new_uuid_def on_store_def Let_def own_key_def
        drop_Suc [symmetric])
qed

text \<open>
  An update commits at the first attempt, and the store then describes what the closure left: up to
  the compare-and-swap, and with the \<^verbatim>\<open>RELEASE\<close> that follows it.
\<close>

lemma cas_update_alone:
  assumes s: "invar (w_store w)" "good X mk (view (w_store w))" "fresh (view (w_store w)) (w_uuid w)"
    and io: "calm 4 w"
    and h: "st_conn st = OpenConn d" "current mk (view (w_store w)) st" "localSeq st = Seq (st_manifest st)"
      "snapshotKey st = bKey (Snapshot (st_manifest st))"
      "replay X (view (w_store w)) (st_manifest st) = Some d"
    and fn: "fn d = (None, d', n)" "sq_changeset X d d' = cs" "cs \<noteq> []" "recordable X fn"
    and k: "k = own_key X cfg (epoch (st_manifest st)) (w_uuid w)"
    and nm: "nm = stamp (appendLog (st_manifest st)
        \<lparr>eKey = k, eSeq = add64 (Seq (st_manifest st)) 1, eSize = int (length cs)\<rparr>)"
  shows "\<exists>ls w1 t e e'. beginAttempt X cfg None fn 0 initLoop st w =
      (Again, ls, st\<lparr>st_conn := OpenConn d'\<rparr>, w1) \<and> release ls = Some d \<and>
    casManifest cfg None ls (st\<lparr>st_conn := OpenConn d'\<rparr>) w1 =
      ((Inr e', nm), w\<lparr>w_io := drop 4 (w_io w), w_uuid := Suc (w_uuid w), w_store := t\<rparr>) \<and> invar t \<and>
    view t = (view (w_store w))(k \<mapsto> (cs, e), mk \<mapsto> (encode_manifest nm, e')) \<and>
    man mk (view t) = Some nm \<and> coherent X mk (view t) \<and> replay X (view t) nm = Some d'"
proof -
  let ?m = "st_manifest st" and ?v = "view (w_store w)" and ?st = "st\<lparr>st_conn := OpenConn d'\<rparr>"
  let ?ls = "\<lparr>needCapture = False, ls_cs = cs, csKey = k, release = Some d, orphan = ''''\<rparr>"
  from h(2) obtain b where e0: "man mk ?v = Some ?m" "?v mk = Some (b, st_etag st)"
    by (auto simp: current_def)
  from s(2) e0 have im: "manifest_inv ?m" "wire_ok ?m" by (auto elim: good_man)
  from phaseCapture_alone [of w st d fn d' n cs k] s(1) io h(1) fn(1-3) k obtain t e where
    pc: "phaseCapture X cfg None fn initLoop st w =
      (Again, ?ls, ?st, w\<lparr>w_io := drop 4 (w_io w), w_uuid := Suc (w_uuid w), w_store := t\<rparr>)" "invar t"
      "view t = ?v(k \<mapsto> (cs, e))" by blast
  let ?w = "\<lambda>t. w\<lparr>w_io := drop 4 (w_io w), w_uuid := Suc (w_uuid w), w_store := t\<rparr>"
  have "linked ?m (st_etag st)" using e0 s(1) by (auto simp: linked_to_def man_eq)
  moreover have "handle_ok X gen mk ?v st"
    using im e0(1) h replay_to_Seq [OF im(1), of X ?v]
    by (auto simp: handle_ok_def sees_current conn_ok_def Let_def manifest_inv_def)
  ultimately have rd: "ready ?v (w_uuid w) initLoop st"
    using h by (simp add: ready_def initLoop_def synced_def)
  note ps = phaseCapture_spec [OF s rd fn(4) pc(1)]
  then have cp: "captured (view t) (Suc (w_uuid w)) ?ls ?st" and g: "good X mk (view t)"
    "fresh (view t) (Suc (w_uuid w))" by (auto simp: progress_def)
  have k': "k \<noteq> mk" using keys_at_mk [OF cfg_law own_key_at] k by metis
  then have e1: "view t mk = Some (b, st_etag st)" "man mk (view t) = Some ?m"
    using e0 pc(3) by simp_all
  from cas_alone [OF pc(2) e1(1), of "encode_manifest nm"] obtain e' t' where
    put: "Put store None mk (Inr (encode_manifest nm)) \<lparr>IfMatch = st_etag st, IfNoneMatch = False\<rparr> t
      = (Inr e', t')" "invar t'" "view t' = (view t)(mk \<mapsto> (encode_manifest nm, e'))" by blast
  have nm': "nm = stamp (appendLog (st_manifest ?st) \<lparr>eKey = csKey ?ls,
      eSeq = add64 (Seq (st_manifest ?st)) 1, eSize = int (length (ls_cs ?ls))\<rparr>)"
    using nm by simp
  have e2: "man mk (view t) = Some (st_manifest ?st)" using e1(2) by simp
  note cw' = commit_write [OF g cp e2 nm' put(3)]
  have sq: "Seq nm = add64 (Seq ?m) 1" by (simp add: nm appendLog_def)
  have "validate (stamp nm) = None" using cw'(6) nm by (simp add: stamp_def)
  with put nm have pm: "casManifest cfg None ?ls ?st (?w t) = ((Inr e', nm), ?w t')"
    by (simp add: casManifest_def Let_def on_store_def putManifest_def stamp_def appendLog_def)
  have up: "beginAttempt X cfg None fn 0 initLoop st w = (Again, ?ls, ?st, ?w t)"
    using pc(1) by (simp add: beginAttempt_def backoff_wait_def initLoop_def)
  have "manifest_inv nm" "replay_to X (view t') nm (Seq nm) = Some d'"
    using cw'(4,5) sq by (auto simp: handle_ok_def conn_ok_def Let_def tracks_current)
  then have "replay X (view t') nm = Some d'" by (simp add: replay_to_Seq)
  with up pm put(2,3) pc(3) cw'(1,4) show ?thesis
    by (intro exI [of _ "?ls"] exI [of _ "?w t"] exI [of _ t'] exI [of _ e] exI [of _ e']) simp
qed

end

end
