(* ===== verification/Gc.thy ===== *)
theory Gc
  imports Commit
begin

text \<open>
  \<^verbatim>\<open>gc.go\<close>: deleting the changesets of closed epochs and the snapshots nobody references.
  The time is an argument, and so is the order in which Go ranges over the map of epochs.
\<close>

section \<open>Grouping keys\<close>

text \<open>Appending to the list under a key of a map; the map keeps the order of first insertion.\<close>

fun addTo :: "string \<Rightarrow> string \<Rightarrow> (string \<times> string list) list \<Rightarrow> (string \<times> string list) list" where
  "addTo ep k [] = [(ep, [k])]"
| "addTo ep k ((e, ks) # rest) =
     (if e = ep then (e, ks @ [k]) # rest else (e, ks) # addTo ep k rest)"

fun groupLoop :: "string \<Rightarrow> string list \<Rightarrow> (string \<times> string list) list \<Rightarrow> (string \<times> string list) list" where
  "groupLoop csPrefix [] out = out"
| "groupLoop csPrefix (k # ks) out =
     (let rest = TrimPrefix k csPrefix; i = IndexByte rest CHR ''/''
      in if i \<le> 0 then groupLoop csPrefix ks out
         else groupLoop csPrefix ks (addTo (take (nat i) rest) k out))"

definition groupByEpoch :: "string list \<Rightarrow> string \<Rightarrow> (string \<times> string list) list" where
  "groupByEpoch keys csPrefix = groupLoop csPrefix keys []"

section \<open>Sweeping\<close>

fun sweepEpochs ::
  "'s BlobStore \<Rightarrow> ctx \<Rightarrow> string \<Rightarrow> string \<Rightarrow> string set \<Rightarrow> (string \<times> string list) list \<Rightarrow> 's \<Rightarrow>
     err option \<times> 's" where
  "sweepEpochs store ctx csPrefix currentEpoch live [] s = (None, s)"
| "sweepEpochs store ctx csPrefix currentEpoch live ((ep, ks) # rest) s =
     (if ep = currentEpoch \<or> (\<exists>k \<in> set ks. k \<in> live)
      then sweepEpochs store ctx csPrefix currentEpoch live rest s
      else case DeletePrefix store ctx (csPrefix @ ep @ ''/'') s of
          (Some e, t) \<Rightarrow> (Some (Wrapped ''gc: delete epoch'' e), t)
        | (None, t) \<Rightarrow> sweepEpochs store ctx csPrefix currentEpoch live rest t)"

text \<open>
  The grace period check, on the current snapshot and on every other one: an object that
  cannot be inspected counts as too young.
\<close>

definition graceOver :: "'s BlobStore \<Rightarrow> ctx \<Rightarrow> string \<Rightarrow> int \<Rightarrow> int \<Rightarrow> 's \<Rightarrow> bool \<times> 's" where
  "graceOver store ctx key grace now s =
     (if 0 < grace
      then (case Stat store ctx key s of
              (Inl e, t) \<Rightarrow> (False, t)
            | (Inr info, t) \<Rightarrow> (\<not> time_Sub now (LastModified info) < grace, t))
      else (True, s))"

fun sweepSnapshots ::
  "'s BlobStore \<Rightarrow> ctx \<Rightarrow> string \<Rightarrow> int \<Rightarrow> int \<Rightarrow> string list \<Rightarrow> 's \<Rightarrow> err option \<times> 's" where
  "sweepSnapshots store ctx current grace now [] s = (None, s)"
| "sweepSnapshots store ctx current grace now (k # ks) s =
     (if k = current then sweepSnapshots store ctx current grace now ks s
      else case graceOver store ctx k grace now s of
          (False, t) \<Rightarrow> sweepSnapshots store ctx current grace now ks t
        | (True, t) \<Rightarrow>
            (case Delete store ctx k t of
               (Some e, u) \<Rightarrow> (Some (Wrapped ''gc: delete snapshot'' e), u)
             | (None, u) \<Rightarrow> sweepSnapshots store ctx current grace now ks u))"

text \<open>What \<^verbatim>\<open>GC\<close> does after the refresh, for the manifest it then holds.\<close>

definition sweep ::
  "'s commitConfig \<Rightarrow> ctx \<Rightarrow> manifest \<Rightarrow> int \<Rightarrow> int \<Rightarrow>
     ((string \<times> string list) list \<Rightarrow> (string \<times> string list) list) \<Rightarrow> 's \<Rightarrow> err option \<times> 's" where
  "sweep cfg ctx m grace now order s =
     (let store = cfg_store cfg; csPrefix = cfg_prefix cfg @ ''changesets/'';
          snapPrefix = cfg_prefix cfg @ ''snapshots/''
      in case graceOver store ctx (bKey (Snapshot m)) grace now s of
           (over, s) \<Rightarrow>
             (case (if over
                    then (case ListKeys store ctx csPrefix s of
                            (Inl e, s) \<Rightarrow> (Some (Wrapped ''gc: list changesets'' e), s)
                          | (Inr keys, s) \<Rightarrow>
                              sweepEpochs store ctx csPrefix (epoch m) (eKey ` set (Log m))
                                (order (groupByEpoch keys csPrefix)) s)
                    else (None, s)) of
                (Some e, s) \<Rightarrow> (Some e, s)
              | (None, s) \<Rightarrow>
                  (case ListKeys store ctx snapPrefix s of
                     (Inl e, s) \<Rightarrow> (Some (Wrapped ''gc: list snapshots'' e), s)
                   | (Inr snapKeys, s) \<Rightarrow>
                       sweepSnapshots store ctx (bKey (Snapshot m)) grace now snapKeys s)))"

definition GC ::
  "'db ext \<Rightarrow> 's commitConfig \<Rightarrow> ctx \<Rightarrow> string \<Rightarrow> int \<Rightarrow> int \<Rightarrow>
     ((string \<times> string list) list \<Rightarrow> (string \<times> string list) list) \<Rightarrow>
     'db commitState \<Rightarrow> 's world \<Rightarrow> err option \<times> 'db commitState \<times> 's world" where
  "GC X cfg ctx localPath grace now order st w =
     (case refreshManifest X cfg ctx localPath st w of
        (Some e, st, w) \<Rightarrow> (Some e, st, w)
      | (None, st, w) \<Rightarrow>
          (case on_store (sweep cfg ctx (st_manifest st) grace now order) w of
             (r, w) \<Rightarrow> (r, st, w)))"

end
