(* ===== verification/Database.thy ===== *)
theory Database
  imports Migrate Gc
begin

text \<open>
  \<^verbatim>\<open>options.go\<close> and \<^verbatim>\<open>s3db.go\<close>: the options, the handle \<^verbatim>\<open>DB\<close> and its public operations.  The
  mutex serialises them, so each is one step on the handle and the world.  An option is a
  function on \<^verbatim>\<open>options\<close>, as in the code.
\<close>

section \<open>Options\<close>

record 'db options =
  opt_localPath :: string
  opt_maxRetries :: int
  autoCompactAfter :: int
  opt_migrations :: "'db Migration list"
  gcGracePeriod :: int
  onCompactError :: bool
  schemaUnchecked :: bool

type_synonym 'db Option = "'db options \<Rightarrow> 'db options"

definition defaultOptions :: "'db options" where
  "defaultOptions =
     \<lparr>opt_localPath = '''', opt_maxRetries = 10, autoCompactAfter = 0, opt_migrations = [],
      gcGracePeriod = 5 * 60 * 1000000000, onCompactError = False, schemaUnchecked = False\<rparr>"

definition WithLocalPath :: "string \<Rightarrow> 'db Option" where
  "WithLocalPath path o' = o'\<lparr>opt_localPath := path\<rparr>"

definition WithMaxRetries :: "int \<Rightarrow> 'db Option" where
  "WithMaxRetries n o' = o'\<lparr>opt_maxRetries := (if n < 1 then 1 else n)\<rparr>"

definition WithAutoCompact :: "int \<Rightarrow> 'db Option" where
  "WithAutoCompact threshold o' = o'\<lparr>autoCompactAfter := threshold\<rparr>"

text \<open>Of the error handler only its presence matters; it is called with the error.\<close>

definition WithCompactErrorHandler :: "'db Option" where
  "WithCompactErrorHandler o' = o'\<lparr>onCompactError := True\<rparr>"

definition WithGCGracePeriod :: "int \<Rightarrow> 'db Option" where
  "WithGCGracePeriod d o' = o'\<lparr>gcGracePeriod := d\<rparr>"

definition WithMigrations :: "'db Migration list \<Rightarrow> 'db Option" where
  "WithMigrations ms o' = o'\<lparr>opt_migrations := ms\<rparr>"

definition WithSchemaUnchecked :: "'db Option" where
  "WithSchemaUnchecked o' = o'\<lparr>schemaUnchecked := True\<rparr>"

section \<open>The handle\<close>

record ('s, 'db) DB =
  db_cfg :: "'s commitConfig"
  db_st :: "'db commitState"
  db_localPath :: string
  db_opts :: "'db options"
  ownLocalFile :: bool

section \<open>Creating a database\<close>

text \<open>
  \<^verbatim>\<open>uploadEmptySQLite\<close>: \<^verbatim>\<open>tmpPath\<close> is the name of the temporary file, which is gone afterwards.
  The local calls are \<^verbatim>\<open>CreateTemp\<close>, \<^verbatim>\<open>OpenConn\<close> and the \<^verbatim>\<open>PRAGMA\<close>.
\<close>

definition uploadEmptySQLite ::
  "'db ext \<Rightarrow> 's BlobStore \<Rightarrow> ctx \<Rightarrow> string \<Rightarrow> string \<Rightarrow> 's world \<Rightarrow> int result \<times> 's world" where
  "uploadEmptySQLite X store ctx tmpPath key w =
     (case local_call w of
        (Some e, w) \<Rightarrow> (Inl e, w)
      | (None, w) \<Rightarrow>
          (case local_call w of
             (Some e, w) \<Rightarrow> (Inl (Wrapped ''create empty db'' e), w)
           | (None, w) \<Rightarrow>
               (case local_call w of
                  (Some e, w) \<Rightarrow> (Inl (Wrapped ''init header'' e), w)
                | (None, w) \<Rightarrow>
                    (case uploadFile store ctx key tmpPath
                            (w\<lparr>w_disk := (w_disk w)(tmpPath \<mapsto> sq_file X (sq_empty X))\<rparr>) of
                       (r, w) \<Rightarrow> (r, w\<lparr>w_disk := (w_disk w)(tmpPath := None)\<rparr>)))))"

definition initManifest :: "string \<Rightarrow> int \<Rightarrow> manifest" where
  "initManifest snapKey snapSize =
     \<lparr>FormatVersion = 0, Seq = 0, SchemaVersion = 0,
      Snapshot = \<lparr>bKey = snapKey, bSeq = 0, bSize = snapSize\<rparr>, Log = []\<rparr>"

definition bootstrap ::
  "'db ext \<Rightarrow> 's BlobStore \<Rightarrow> ctx \<Rightarrow> string \<Rightarrow> string \<Rightarrow> string \<Rightarrow> 's world \<Rightarrow>
     (manifest \<times> string) result \<times> 's world" where
  "bootstrap X store ctx tmpPath pre mk w =
     (let snapKey = pre @ ''snapshots/snap-init.sqlite''
      in case uploadEmptySQLite X store ctx tmpPath snapKey w of
           (Inl e, w) \<Rightarrow> (Inl (Wrapped ''bootstrap'' e), w)
         | (Inr snapSize, w) \<Rightarrow>
             (case on_store (putManifest store ctx mk (initManifest snapKey snapSize)
                               \<lparr>IfMatch = '''', IfNoneMatch = True\<rparr>) w of
                ((Inl e, _), w) \<Rightarrow>
                  if errors_Is e ErrPreconditionFailed then on_store (loadManifest store ctx mk) w
                  else (Inl (Wrapped ''bootstrap: put manifest'' e), w)
              | ((Inr etag, m), w) \<Rightarrow> (Inr (m, etag), w)))"

text \<open>The schema version a client expects.\<close>

definition expectedSchema :: "'db options \<Rightarrow> manifest \<Rightarrow> int" where
  "expectedSchema o' m =
     (if schemaUnchecked o' then SchemaVersion m
      else fold (\<lambda>mig v. if v < mig_Version mig then mig_Version mig else v) (opt_migrations o') 0)"

section \<open>Closing\<close>

definition db_Close :: "'db ext \<Rightarrow> ('s, 'db) DB \<Rightarrow> 's world \<Rightarrow> err option \<times> ('s, 'db) DB \<times> 's world" where
  "db_Close X db w =
     (let path = db_localPath db;
          remove = (\<lambda>w. if ownLocalFile db \<and> path \<noteq> ''''
                        then w\<lparr>w_disk := (w_disk w)(path := None)\<rparr> else w)
      in case st_conn (db_st db) of
           NilConn \<Rightarrow> (None, db, remove w)
         | c \<Rightarrow>
             (case conn_Close X path c w of
                (r, w) \<Rightarrow> (r, db\<lparr>db_st := (db_st db)\<lparr>st_conn := NilConn\<rparr>\<rparr>, remove w)))"

section \<open>Opening\<close>

text \<open>
  The part of \<^verbatim>\<open>Open\<close> that makes the local database: a temporary file if no path is given,
  the snapshot downloaded over it, the connection opened, the log applied.
\<close>

definition openLocal ::
  "'db ext \<Rightarrow> 's BlobStore \<Rightarrow> ctx \<Rightarrow> string \<Rightarrow> manifest \<Rightarrow> 'db options \<Rightarrow> 's world \<Rightarrow>
     ('db conn \<times> int \<times> string \<times> bool) result \<times> 's world" where
  "openLocal X store ctx tmpName m o' w =
     (case (if opt_localPath o' = ''''
            then (case local_call w of
                    (Some e, w) \<Rightarrow> (Some e, w)
                  | (None, w) \<Rightarrow> (None, w\<lparr>w_disk := (w_disk w)(tmpName \<mapsto> [])\<rparr>))
            else (None, w)) of
        (Some e, w) \<Rightarrow> (Inl e, w)
      | (None, w) \<Rightarrow>
          (let owned = (opt_localPath o' = ''''); path = (if owned then tmpName else opt_localPath o');
               remove = (\<lambda>w. if owned then w\<lparr>w_disk := (w_disk w)(path := None)\<rparr> else w)
           in case downloadSnapshot store ctx (bKey (Snapshot m)) (bSize (Snapshot m)) path w of
                (Some e, w) \<Rightarrow> (Inl e, remove w)
              | (None, w) \<Rightarrow>
                  (case openLocalConn X path w of
                     (Inl e, w) \<Rightarrow> (Inl (Wrapped ''s3db: open local db'' e), remove w)
                   | (Inr d, w) \<Rightarrow>
                       (case applyLog X store ctx (Log m) (bSeq (Snapshot m)) (OpenConn d) (w_store w) of
                          ((seq, r), c, s) \<Rightarrow>
                            (case r of
                               None \<Rightarrow> (Inr (c, seq, path, owned), w\<lparr>w_store := s\<rparr>)
                             | Some e \<Rightarrow>
                                 (Inl e, remove (snd (conn_Close X path c (w\<lparr>w_store := s\<rparr>)))))))))"

text \<open>\<^verbatim>\<open>Open\<close>; \<open>None\<close> if the migration loop does not return.\<close>

definition Open ::
  "'db ext \<Rightarrow> 's BlobStore \<Rightarrow> ctx \<Rightarrow> string \<Rightarrow> string \<Rightarrow> string \<Rightarrow> 'db Option list \<Rightarrow> 's world \<Rightarrow>
     (('s, 'db) DB result \<times> 's world) option" where
  "Open X store ctx emptyName tmpName pre opts w =
     (if \<not> HasSuffix pre ''/'' then Some (Inl (OtherErr ''s3db: prefix must end with /''), w)
      else
        let o' = fold (\<lambda>f x. f x) opts defaultOptions; mk = pre @ ''manifest.json''
        in case (case on_store (loadManifest store ctx mk) w of
                   (Inl e, w) \<Rightarrow>
                     if errors_Is e ErrNotFound then bootstrap X store ctx emptyName pre mk w
                     else (Inl e, w)
                 | (Inr p, w) \<Rightarrow> (Inr p, w)) of
             (Inl e, w) \<Rightarrow> Some (Inl e, w)
           | (Inr (m, etag), w) \<Rightarrow>
               (case openLocal X store ctx tmpName m o' w of
                  (Inl e, w) \<Rightarrow> Some (Inl e, w)
                | (Inr (c, seq, path, owned), w) \<Rightarrow>
                    (let cfg = \<lparr>cfg_store = store, cfg_prefix = pre, manifestKey = mk,
                                maxRetries = opt_maxRetries o', schemaVer = expectedSchema o' m\<rparr>;
                         st = \<lparr>st_conn = c, localSeq = seq, snapshotKey = bKey (Snapshot m),
                               st_manifest = m, st_etag = etag\<rparr>;
                         mkdb = (\<lambda>st. \<lparr>db_cfg = cfg, db_st = st, db_localPath = path, db_opts = o',
                                       ownLocalFile = owned\<rparr>)
                     in if schemaUnchecked o' then Some (Inr (mkdb st), w)
                        else case runMigrations X cfg ctx path (opt_migrations o') st w of
                            None \<Rightarrow> None
                          | Some (None, st, w) \<Rightarrow> Some (Inr (mkdb st), w)
                          | Some (Some e, st, w) \<Rightarrow>
                              (case db_Close X (mkdb st) w of (_, _, w) \<Rightarrow> Some (Inl e, w)))))"

section \<open>Reading and writing\<close>

text \<open>
  \<^verbatim>\<open>withInterrupt\<close>: \<^verbatim>\<open>SetInterrupt\<close> panics on a closed connection, before and after the
  function; a nil connection is skipped afterwards only.
\<close>

datatype 'a outcome = Done 'a | Panic

definition set_interrupt :: "'db conn \<Rightarrow> bool" where
  "set_interrupt c = (case c of OpenConn d \<Rightarrow> True | _ \<Rightarrow> False)"

definition withInterrupt ::
  "('db commitState \<Rightarrow> 's world \<Rightarrow> err option \<times> 'db commitState \<times> 's world) \<Rightarrow>
     'db commitState \<Rightarrow> 's world \<Rightarrow> (err option \<times> 'db commitState \<times> 's world) outcome" where
  "withInterrupt f st w =
     (if \<not> set_interrupt (st_conn st) then Panic
      else case f st w of
          (r, st, w) \<Rightarrow>
            (case st_conn st of ClosedConn \<Rightarrow> Panic | _ \<Rightarrow> Done (r, st, w)))"

text \<open>The body of \<^verbatim>\<open>View\<close>: a transaction that is always rolled back.\<close>

definition viewTx ::
  "'db txn \<Rightarrow> 'db commitState \<Rightarrow> 's world \<Rightarrow> err option \<times> 'db commitState \<times> 's world" where
  "viewTx fn st w =
     (case local_call w of
        (Some e, w) \<Rightarrow> (Some e, st, w)
      | (None, w) \<Rightarrow>
          (case st_conn st of
             OpenConn d \<Rightarrow>
               (case fn d of
                  (fnErr, d', n) \<Rightarrow>
                    (case local_call w of
                       (Some e, w) \<Rightarrow>
                         ((if fnErr = None then Some e else fnErr), st\<lparr>st_conn := OpenConn d'\<rparr>, w)
                     | (None, w) \<Rightarrow> (fnErr, st, w)))
           | _ \<Rightarrow> (Some (OtherErr ''sqlite: connection is closed''), st, w)))"

definition View ::
  "'db ext \<Rightarrow> ctx \<Rightarrow> 'db txn \<Rightarrow> ('s, 'db) DB \<Rightarrow> 's world \<Rightarrow>
     (err option \<times> ('s, 'db) DB \<times> 's world) outcome" where
  "View X ctx fn db w =
     (case refreshManifest X (db_cfg db) ctx (db_localPath db) (db_st db) w of
        (Some e, st, w) \<Rightarrow> Done (Some e, db\<lparr>db_st := st\<rparr>, w)
      | (None, st, w) \<Rightarrow>
          (case withInterrupt (viewTx fn) st w of
             Panic \<Rightarrow> Panic
           | Done (r, st, w) \<Rightarrow> Done (r, db\<lparr>db_st := st\<rparr>, w)))"

text \<open>
  \<^verbatim>\<open>Update\<close>: the second component is the error reported to the handler of automatic
  compaction, if there is one.
\<close>

definition Update ::
  "'db ext \<Rightarrow> ctx \<Rightarrow> 'db txn \<Rightarrow> ('s, 'db) DB \<Rightarrow> 's world \<Rightarrow>
     ((err option \<times> err option) \<times> ('s, 'db) DB \<times> 's world) outcome" where
  "Update X ctx fn db w =
     (let cfg = db_cfg db; path = db_localPath db
      in case refreshManifest X cfg ctx path (db_st db) w of
           (Some e, st, w) \<Rightarrow> Done ((Some e, None), db\<lparr>db_st := st\<rparr>, w)
         | (None, st, w) \<Rightarrow>
             (case withInterrupt (doUpdate X cfg ctx path fn) st w of
                Panic \<Rightarrow> Panic
              | Done (Some e, st, w) \<Rightarrow> Done ((Some e, None), db\<lparr>db_st := st\<rparr>, w)
              | Done (None, st, w) \<Rightarrow>
                  if 0 < autoCompactAfter (db_opts db) \<and>
                     autoCompactAfter (db_opts db) \<le> int (length (Log (st_manifest st)))
                  then (case compactLocked X cfg ctx path st w of
                          (cerr, st, w) \<Rightarrow>
                            Done ((None, if onCompactError (db_opts db) then cerr else None),
                                  db\<lparr>db_st := st\<rparr>, w))
                  else Done ((None, None), db\<lparr>db_st := st\<rparr>, w)))"

definition db_Compact ::
  "'db ext \<Rightarrow> ctx \<Rightarrow> ('s, 'db) DB \<Rightarrow> 's world \<Rightarrow> err option \<times> ('s, 'db) DB \<times> 's world" where
  "db_Compact X ctx db w =
     (case compactLocked X (db_cfg db) ctx (db_localPath db) (db_st db) w of
        (r, st, w) \<Rightarrow> (r, db\<lparr>db_st := st\<rparr>, w))"

definition db_GC ::
  "'db ext \<Rightarrow> ctx \<Rightarrow> int \<Rightarrow> ((string \<times> string list) list \<Rightarrow> (string \<times> string list) list) \<Rightarrow>
     ('s, 'db) DB \<Rightarrow> 's world \<Rightarrow> err option \<times> ('s, 'db) DB \<times> 's world" where
  "db_GC X ctx now order db w =
     (case GC X (db_cfg db) ctx (db_localPath db) (gcGracePeriod (db_opts db)) now order (db_st db) w of
        (r, st, w) \<Rightarrow> (r, db\<lparr>db_st := st\<rparr>, w))"

section \<open>Statistics\<close>

record Stats =
  stats_Seq :: int
  stats_SchemaVersion :: int
  SnapshotSize :: int
  LogEntries :: int
  LogBytes :: int

definition db_Stats :: "('s, 'db) DB \<Rightarrow> Stats" where
  "db_Stats db =
     (let m = st_manifest (db_st db)
      in \<lparr>stats_Seq = localSeq (db_st db), stats_SchemaVersion = SchemaVersion m,
          SnapshotSize = bSize (Snapshot m), LogEntries = int (length (Log m)),
          LogBytes = fold (\<lambda>e n. add64 n (eSize e)) (Log m) 0\<rparr>)"

definition db_Seq :: "('s, 'db) DB \<Rightarrow> int" where
  "db_Seq db = localSeq (db_st db)"

end
