(* ===== verification/Operations.thy ===== *)
theory Operations
  imports Alone Database
begin

text \<open>
  The public operations of \<^verbatim>\<open>DB\<close> for a client that has the store to itself: \<^verbatim>\<open>Update\<close> commits the
  effect of its closure or changes nothing, \<^verbatim>\<open>View\<close> changes nothing, \<^verbatim>\<open>Compact\<close> keeps the content
  and empties the log.  The starting point is any open handle, however far behind.
\<close>

text \<open>
  Where an operation starts: a good store holding \<open>m\<close> with content \<open>d\<close>, a handle that is not
  closed, no local failure ahead.
\<close>

definition staged ::
  "'db ext \<Rightarrow> 's commitConfig \<Rightarrow> (string \<Rightarrow> nat) \<Rightarrow> ('s \<Rightarrow> objs) \<Rightarrow> ('s \<Rightarrow> bool) \<Rightarrow> 'db commitState \<Rightarrow>
     's world \<Rightarrow> manifest \<Rightarrow> 'db \<Rightarrow> bool" where
  "staged X cfg gen view invar st w m d \<longleftrightarrow>
     invar (w_store w) \<and> good X (manifestKey cfg) (view (w_store w)) \<and>
     fresh_keys X cfg gen (view (w_store w)) (w_uuid w) \<and> w_io w = [] \<and>
     handle_ok X gen (manifestKey cfg) (view (w_store w)) st \<and> st_conn st \<noteq> ClosedConn \<and>
     man (manifestKey cfg) (view (w_store w)) = Some m \<and> replay X (view (w_store w)) m = Some d"

text \<open>The same for a handle of the right schema version.\<close>

definition opened ::
  "'db ext \<Rightarrow> (string \<Rightarrow> nat) \<Rightarrow> ('s \<Rightarrow> objs) \<Rightarrow> ('s \<Rightarrow> bool) \<Rightarrow> ('s, 'db) DB \<Rightarrow> 's world \<Rightarrow>
     manifest \<Rightarrow> 'db \<Rightarrow> bool" where
  "opened X gen view invar db w m d \<longleftrightarrow>
     staged X (db_cfg db) gen view invar (db_st db) w m d \<and> SchemaVersion m = schemaVer (db_cfg db)"

context sole_client
begin

abbreviation "start db w m d \<equiv> db_cfg db = cfg \<and> opened X gen view invar db w m d"

lemmas start_def = opened_def staged_def

text \<open>After the refresh every operation begins with.\<close>

lemma refreshed:
  assumes "start db w m d"
  obtains st t f where
    "refreshManifest X cfg None (db_localPath db) (db_st db) w = (None, st, w\<lparr>w_store := t, w_disk := f\<rparr>)"
    "invar t" "view t = view (w_store w)" "current mk (view t) st" "st_conn st = OpenConn d"
    "st_manifest st = m" "localSeq st = Seq m" "snapshotKey st = bKey (Snapshot m)"
    "handle_ok X gen mk (view t) st" "linked m (st_etag st)"
proof -
  let ?v = "view (w_store w)"
  from assms obtain b e where b: "?v mk = Some (b, e)" by (auto simp: start_def man_eq)
  from assms have m: "man mk ?v = Some m" "replay X ?v m = Some d" and s: "invar (w_store w)" "good X mk ?v"
    by (auto simp: start_def)
  from s(2) m(1) have im: "manifest_inv m" "wire_ok m" by (auto elim: good_man)
  define st where "st = (db_st db)\<lparr>st_manifest := m, st_etag := e, st_conn := OpenConn d, localSeq := Seq m,
                snapshotKey := bKey (Snapshot m)\<rparr>"
  from assms b obtain t f where r: "refreshManifest X cfg None (db_localPath db) (db_st db) w =
      (None, st, w\<lparr>w_store := t, w_disk := f\<rparr>)" "invar t" "view t = ?v"
    using refresh_alone [of w "db_st db" m b e d "db_localPath db"] by (auto simp: start_def st_def)
  have st: "st_manifest st = m" "localSeq st = Seq m" "snapshotKey st = bKey (Snapshot m)"
    "st_conn st = OpenConn d" "st_etag st = e" by (simp_all add: st_def)
  have "handle_ok X gen mk (view t) st"
    using im m r(3) st replay_to_Seq [OF im(1), of X ?v]
    by (auto simp: handle_ok_def sees_current conn_ok_def Let_def manifest_inv_def)
  moreover have "linked m e" using m(1) b s(1) by (auto simp: linked_to_def man_eq)
  moreover have "current mk (view t) st" using m(1) b st r(3) by (simp add: current_def)
  ultimately show ?thesis using that [OF r] r st by metis
qed

lemma doUpdate_cas:
  assumes s: "invar (w_store w)" "good X mk (view (w_store w))" "fresh (view (w_store w)) (w_uuid w)"
    and io: "calm 4 w" and n: "0 < maxRetries cfg"
    and h: "st_conn st = OpenConn d" "current mk (view (w_store w)) st" "localSeq st = Seq (st_manifest st)"
      "snapshotKey st = bKey (Snapshot (st_manifest st))"
      "replay X (view (w_store w)) (st_manifest st) = Some d"
    and fn: "fn d = (None, d', delta)" "sq_changeset X d d' \<noteq> []" "recordable X fn"
  shows "\<exists>t nm e r st' w'. releaseSave (Some d)
        (st\<lparr>st_conn := OpenConn d', st_manifest := nm, st_etag := e, localSeq := Seq nm\<rparr>)
        (w\<lparr>w_io := drop 4 (w_io w), w_uuid := Suc (w_uuid w), w_store := t\<rparr>) = (r, st', w') \<and>
    doUpdate X cfg None path fn st w = (None, st', w') \<and> invar t \<and> man mk (view t) = Some nm \<and>
    (\<exists>b. view t mk = Some (b, e)) \<and>
    Seq nm = Seq (st_manifest st) + 1 \<and> Snapshot nm = Snapshot (st_manifest st) \<and>
    SchemaVersion nm = SchemaVersion (st_manifest st) \<and> Log nm = Log (st_manifest st) @ [last (Log nm)] \<and>
    coherent X mk (view t) \<and> replay X (view t) nm = Some d'"
proof -
  let ?m = "st_manifest st"
  define k where "k = own_key X cfg (epoch ?m) (w_uuid w)"
  define nm where "nm = stamp (appendLog ?m
      \<lparr>eKey = k, eSeq = add64 (Seq ?m) 1, eSize = int (length (sq_changeset X d d'))\<rparr>)"
  from h(2) s(2) have "Seq ?m < max_int64" "manifest_inv ?m"
    by (auto simp: current_def good_def room_def elim: coherent_man)
  then have "add64 (Seq ?m) 1 = Seq ?m + 1"
    by (intro add64_eq) (auto simp: is_int64_def min_int64_def manifest_inv_def)
  then have nms: "Seq nm = Seq ?m + 1" "Log nm = Log ?m @ [last (Log nm)]" "Snapshot nm = Snapshot ?m"
    "SchemaVersion nm = SchemaVersion ?m" by (simp_all add: nm_def appendLog_def)
  obtain n' where n': "nat (maxRetries cfg) = Suc n'" using n by (metis gr0_conv_Suc zero_less_nat_eq)
  from cas_update_alone [of w st d fn d' delta "sq_changeset X d d'" k nm] s io h fn k_def nm_def
  obtain ls w1 t e e' where u: "beginAttempt X cfg None fn 0 initLoop st w = (Again, ls, st\<lparr>st_conn := OpenConn d'\<rparr>, w1)"
      "release ls = Some d" "casManifest cfg None ls (st\<lparr>st_conn := OpenConn d'\<rparr>) w1 =
        ((Inr e', nm), w\<lparr>w_io := drop 4 (w_io w), w_uuid := Suc (w_uuid w), w_store := t\<rparr>)" "invar t"
      "view t = (view (w_store w))(k \<mapsto> (sq_changeset X d d', e), mk \<mapsto> (encode_manifest nm, e'))"
      "man mk (view t) = Some nm" "coherent X mk (view t)" "replay X (view t) nm = Some d'" by blast
  let ?st = "st\<lparr>st_conn := OpenConn d', st_manifest := nm, st_etag := e', localSeq := Seq nm\<rparr>"
  obtain r st' w' where v: "releaseSave (Some d) ?st
      (w\<lparr>w_io := drop 4 (w_io w), w_uuid := Suc (w_uuid w), w_store := t\<rparr>) = (r, st', w')" by (metis prod_cases3)
  have "add64 (Seq ?m) 1 = Seq nm" by (simp add: nm_def appendLog_def)
  with u(1-3) v n' have "doUpdate X cfg None path fn st w = (None, st', w')"
    by (simp add: doUpdate_def updateAttempt_def phaseCommit_def)
  with u nms v show ?thesis by (intro exI conjI) auto
qed

lemma doUpdate_alone:
  assumes s: "invar (w_store w)" "good X mk (view (w_store w))" "fresh (view (w_store w)) (w_uuid w)"
    and io: "w_io w = []" and n: "0 < maxRetries cfg"
    and h: "st_conn st = OpenConn d" "current mk (view (w_store w)) st" "localSeq st = Seq (st_manifest st)"
      "snapshotKey st = bKey (Snapshot (st_manifest st))"
      "replay X (view (w_store w)) (st_manifest st) = Some d"
    and fn: "fn d = (None, d', delta)" "sq_changeset X d d' \<noteq> []" "recordable X fn"
  shows "\<exists>st' t nm. doUpdate X cfg None path fn st w =
      (None, st', w\<lparr>w_uuid := Suc (w_uuid w), w_store := t\<rparr>) \<and> invar t \<and>
    st_conn st' = OpenConn d' \<and> st_manifest st' = nm \<and> man mk (view t) = Some nm \<and>
    Seq nm = Seq (st_manifest st) + 1 \<and> Log nm = Log (st_manifest st) @ [last (Log nm)] \<and>
    coherent X mk (view t) \<and> replay X (view t) nm = Some d'"
proof -
  have "w\<lparr>w_io := [], w_uuid := Suc (w_uuid w), w_store := t\<rparr> = w\<lparr>w_uuid := Suc (w_uuid w), w_store := t\<rparr>"
    for t using io by (cases w) simp
  with doUpdate_cas [OF s calm_empty [OF io] n h fn, of path] io show ?thesis
    by (auto simp: releaseSave_def)
qed

lemma Update_alone:
  assumes a: "start db w m d" and n: "0 < maxRetries cfg" "autoCompactAfter (db_opts db) \<le> 0"
    and fn: "fn d = (None, d', delta)" "sq_changeset X d d' \<noteq> []" "recordable X fn"
  shows "\<exists>db' w' m'. Update X None fn db w = Done ((None, None), db', w') \<and> invar (w_store w') \<and>
    man mk (view (w_store w')) = Some m' \<and> coherent X mk (view (w_store w')) \<and>
    Seq m' = Seq m + 1 \<and> Log m' = Log m @ [last (Log m')] \<and>
    replay X (view (w_store w')) m' = Some d' \<and> st_conn (db_st db') = OpenConn d' \<and>
    st_manifest (db_st db') = m'"
proof -
  obtain st t f where r: "refreshManifest X cfg None (db_localPath db) (db_st db) w =
      (None, st, w\<lparr>w_store := t, w_disk := f\<rparr>)"
    and t: "invar t" "view t = view (w_store w)" "current mk (view t) st" "st_conn st = OpenConn d"
    "st_manifest st = m" "localSeq st = Seq m" "snapshotKey st = bKey (Snapshot m)"
    by (rule refreshed [OF a]) blast
  from a t doUpdate_alone [of "w\<lparr>w_store := t, w_disk := f\<rparr>" st d fn d' delta "db_localPath db"] n fn
  obtain st' t' nm where u: "doUpdate X cfg None (db_localPath db) fn st (w\<lparr>w_store := t, w_disk := f\<rparr>) =
      (None, st', w\<lparr>w_store := t, w_disk := f\<rparr>\<lparr>w_uuid := Suc (w_uuid w), w_store := t'\<rparr>)" "invar t'"
    "st_conn st' = OpenConn d'" "st_manifest st' = nm" "man mk (view t') = Some nm" "Seq nm = Seq m + 1"
    "Log nm = Log m @ [last (Log nm)]" "coherent X mk (view t')" "replay X (view t') nm = Some d'"
    by (auto simp: start_def)
  have "Update X None fn db w = Done ((None, None), db\<lparr>db_st := st'\<rparr>,
      w\<lparr>w_store := t, w_disk := f\<rparr>\<lparr>w_uuid := Suc (w_uuid w), w_store := t'\<rparr>)"
    using a r u(1,3) t(4) n(2)
    by (simp add: Update_def start_def withInterrupt_def set_interrupt_def)
  with u show ?thesis by (intro exI conjI) auto
qed

text \<open>A closure that fails, or that changes nothing, leaves the store and the content as they are.\<close>

lemma Update_failed:
  assumes a: "start db w m d" and n: "0 < maxRetries cfg"
    and fn: "fn d = (Some e, d', delta)"
  shows "\<exists>db' w'. Update X None fn db w = Done ((Some e, None), db', w') \<and> invar (w_store w') \<and>
    view (w_store w') = view (w_store w) \<and> st_conn (db_st db') = OpenConn d"
proof -
  obtain st t f where r: "refreshManifest X cfg None (db_localPath db) (db_st db) w =
      (None, st, w\<lparr>w_store := t, w_disk := f\<rparr>)"
    and t: "invar t" "view t = view (w_store w)" "st_conn st = OpenConn d"
    by (rule refreshed [OF a]) blast
  obtain n' where n': "nat (maxRetries cfg) = Suc n'" using n by (metis gr0_conv_Suc zero_less_nat_eq)
  have "doUpdate X cfg None (db_localPath db) fn st (w\<lparr>w_store := t, w_disk := f\<rparr>) =
      (Some e, st, w\<lparr>w_store := t, w_disk := f\<rparr>)"
    using a t fn n' by (simp add: doUpdate_def updateAttempt_def beginAttempt_def backoff_wait_def initLoop_def
        releaseSave_def phaseCapture_def capture_def start_def rollback_def Let_def)
  with a r t show ?thesis
    by (auto simp: Update_def start_def withInterrupt_def set_interrupt_def intro!: exI)
qed

lemma Update_nothing:
  assumes a: "start db w m d" and n: "0 < maxRetries cfg" "autoCompactAfter (db_opts db) \<le> 0"
    and fn: "fn d = (None, d, delta)" "sq_changeset X d d = []" "delta \<le> 0 \<or> findPKlessTables (sq_master X d) = []"
  shows "\<exists>db' w'. Update X None fn db w = Done ((None, None), db', w') \<and> invar (w_store w') \<and>
    view (w_store w') = view (w_store w) \<and> st_conn (db_st db') = OpenConn d"
proof -
  obtain st t f where r: "refreshManifest X cfg None (db_localPath db) (db_st db) w =
      (None, st, w\<lparr>w_store := t, w_disk := f\<rparr>)"
    and t: "invar t" "view t = view (w_store w)" "st_conn st = OpenConn d"
    by (rule refreshed [OF a]) blast
  obtain n' where n': "nat (maxRetries cfg) = Suc n'" using n by (metis gr0_conv_Suc zero_less_nat_eq)
  have "doUpdate X cfg None (db_localPath db) fn st (w\<lparr>w_store := t, w_disk := f\<rparr>) =
      (None, st, w\<lparr>w_store := t, w_disk := f\<rparr>)"
    using a t fn n' by (auto simp: doUpdate_def updateAttempt_def beginAttempt_def backoff_wait_def initLoop_def
        releaseSave_def phaseCapture_def capture_def start_def rollback_def Let_def)
  with a r t n show ?thesis
    by (auto simp: Update_def start_def withInterrupt_def set_interrupt_def intro!: exI)
qed

text \<open>A view sees the content of the store and leaves everything as it is, whatever the closure does.\<close>

lemma View_alone:
  assumes a: "start db w m d" and fn: "fn d = (x, d', delta)"
  shows "\<exists>db' w'. View X None fn db w = Done (x, db', w') \<and> invar (w_store w') \<and>
    view (w_store w') = view (w_store w) \<and> st_conn (db_st db') = OpenConn d \<and>
    localSeq (db_st db') = Seq m"
proof -
  obtain st t f where r: "refreshManifest X cfg None (db_localPath db) (db_st db) w =
      (None, st, w\<lparr>w_store := t, w_disk := f\<rparr>)"
    and t: "invar t" "view t = view (w_store w)" "st_conn st = OpenConn d" "localSeq st = Seq m"
    by (rule refreshed [OF a]) blast
  with a fn show ?thesis
    by (auto simp: View_def start_def withInterrupt_def set_interrupt_def viewTx_def intro!: exI)
qed

end

section \<open>Compaction\<close>

context sole_client
begin

lemma uploadFile_alone:
  assumes "invar (w_store w)" and "w_io w = []" and "w_disk w path = Some b"
  shows "\<exists>t e. uploadFile store None k path w = (Inr (int (length b)), w\<lparr>w_store := t\<rparr>) \<and> invar t \<and>
    view t = (view (w_store w))(k \<mapsto> (b, e))"
proof -
  have "\<not> (IfMatch NoCondition \<noteq> '''' \<and> IfNoneMatch NoCondition)" by (simp add: NoCondition_def)
  from put_alone [OF assms(1) cond_ok_NoCondition this, of k b] obtain e t where
    "Put store None k (Inr b) NoCondition (w_store w) = (Inr e, t)" "invar t"
    "view t = (view (w_store w))(k \<mapsto> (b, e))" by blast
  with assms show ?thesis by (auto simp: uploadFile_def on_store_def)
qed

lemma uploadSnapshot_alone:
  assumes s: "invar (w_store w)" and io: "w_io w = []" and d: "st_conn st = OpenConn d"
  shows "\<exists>t e. uploadSnapshot X store None what k path st w =
      (Inr (int (length (sq_file X d))), st, w\<lparr>w_store := t, w_disk := (w_disk w)(path \<mapsto> sq_file X d)\<rparr>) \<and>
    invar t \<and> view t = (view (w_store w))(k \<mapsto> (sq_file X d, e))"
proof -
  let ?w = "w\<lparr>w_disk := (w_disk w)(path \<mapsto> sq_file X d)\<rparr>"
  from uploadFile_alone [of ?w path "sq_file X d" k] s io obtain t e where
    u: "uploadFile store None k path ?w = (Inr (int (length (sq_file X d))), ?w\<lparr>w_store := t\<rparr>)" "invar t"
      "view t = (view (w_store w))(k \<mapsto> (sq_file X d, e))" by auto
  have "sq_open X (sq_file X d) = Inr d" using files by (simp add: file_law_def)
  moreover have "st\<lparr>st_conn := OpenConn d\<rparr> = st" using d by simp
  ultimately show ?thesis using u d io
    by (auto simp: uploadSnapshot_def conn_Close_def reopenConn_def openLocalConn_def sqlite_OpenConn_def)
qed

text \<open>Swapping in a snapshot that was uploaded under a new key.\<close>

lemma upload_new:
  assumes "invar s" "good X mk (view s)" "fresh (view s) n" "man mk (view s) = Some m"
    and k: "k \<in> snap_keys X cfg n" and t: "view t = (view s)(k \<mapsto> x)"
  shows "good X mk (view t) \<and> fresh (view t) n \<and> man mk (view t) = Some m \<and> view t mk = view s mk"
proof -
  have "k \<in> keys_at X cfg n" using k by (simp add: keys_at_def)
  with assms have k': "k \<noteq> mk" "k \<notin> refs m"
    using snap_key_facts(2) [OF k] fresh_keys_at [OF assms(3,4)] by auto
  then have "man mk (view t) = Some m" using t assms(4) by simp
  with unref_write(1,2) [OF assms(4) k'] assms k' t fresh_keys_cong [of cfg "view t" "view s" X gen n]
  show ?thesis by (auto simp: good_def)
qed

lemma install_alone:
  assumes s: "invar s" "good X mk (view s)" "fresh (view s) n" "man mk (view s) = Some m"
    and e: "view s mk = Some (b, e)" and k: "k \<in> snap_keys X cfg n"
    and f: "view s k = Some (sq_file X d, e1)" and ver: "0 \<le> ver" "is_int64 ver"
    and nm: "nm = \<lparr>FormatVersion = 1, Seq = Seq m, SchemaVersion = ver,
        Snapshot = \<lparr>bKey = k, bSeq = Seq m, bSize = int (length (sq_file X d))\<rparr>, Log = []\<rparr>"
  shows "\<exists>e2 t. Put store None mk (Inr (encode_manifest nm)) \<lparr>IfMatch = e, IfNoneMatch = False\<rparr> s =
      (Inr e2, t) \<and> invar t \<and> view t = (view s)(mk \<mapsto> (encode_manifest nm, e2)) \<and> validate nm = None \<and>
    manifest_inv nm \<and> coherent X mk (view t) \<and> fresh (view t) (Suc n) \<and> man mk (view t) = Some nm \<and>
    replay X (view t) nm = Some d"
proof -
  from cas_alone [OF s(1) e, of "encode_manifest nm"] obtain e2 t where
    p: "Put store None mk (Inr (encode_manifest nm)) \<lparr>IfMatch = e, IfNoneMatch = False\<rparr> s = (Inr e2, t)"
      "invar t" "view t = (view s)(mk \<mapsto> (encode_manifest nm, e2))" by blast
  have "body_at (view s) k = Some (sq_file X d)" "sq_open X (sq_file X d) = Inr d"
    "int (length (sq_file X d)) \<le> max_int64"
    using f files sizes by (simp_all add: body_at_def file_law_def size_law_def)
  from install_write [OF s(2,4,3) k this nm ver p(3)] p show ?thesis by (auto simp: settled_def)
qed

lemma installSnapshot_alone:
  assumes s: "invar (w_store w)" "good X mk (view (w_store w))" "fresh (view (w_store w)) n"
    and st: "current mk (view (w_store w)) st" and k: "k \<in> snap_keys X cfg n"
    and f: "view (w_store w) k = Some (sq_file X d, e1)"
  shows "\<exists>nm e2 t. installSnapshot cfg None \<lparr>bKey = k, bSeq = Seq (st_manifest st),
        bSize = int (length (sq_file X d))\<rparr> st w =
      (Return None, st\<lparr>st_manifest := nm, st_etag := e2, snapshotKey := k\<rparr>, w\<lparr>w_store := t\<rparr>) \<and> invar t \<and>
    coherent X mk (view t) \<and> man mk (view t) = Some nm \<and> replay X (view t) nm = Some d \<and>
    Seq nm = Seq (st_manifest st) \<and> SchemaVersion nm = SchemaVersion (st_manifest st) \<and> Log nm = []"
proof -
  let ?m = "st_manifest st"
  define nm where "nm = \<lparr>FormatVersion = 1, Seq = Seq ?m, SchemaVersion = SchemaVersion ?m,
      Snapshot = \<lparr>bKey = k, bSeq = Seq ?m, bSize = int (length (sq_file X d))\<rparr>, Log = []\<rparr>"
  from st obtain b where b: "man mk (view (w_store w)) = Some ?m" "view (w_store w) mk = Some (b, st_etag st)"
    by (auto simp: current_def)
  with s(2) have "0 \<le> SchemaVersion ?m" "is_int64 (SchemaVersion ?m)"
    by (auto simp: manifest_inv_def wire_ok_def elim: good_man)
  from install_alone [OF s b(1,2) k f this nm_def] obtain e2 t where
    p: "Put store None mk (Inr (encode_manifest nm)) \<lparr>IfMatch = st_etag st, IfNoneMatch = False\<rparr> (w_store w) =
      (Inr e2, t)" "invar t" "validate nm = None" "coherent X mk (view t)" "man mk (view t) = Some nm"
      "replay X (view t) nm = Some d" by blast
  have "stamp (withSnapshot ?m \<lparr>bKey = k, bSeq = Seq ?m, bSize = int (length (sq_file X d))\<rparr>) = nm"
    by (simp add: nm_def withSnapshot_def stamp_def manifestFormatVersion_def)
  then have "installSnapshot cfg None \<lparr>bKey = k, bSeq = Seq ?m, bSize = int (length (sq_file X d))\<rparr> st w =
      (Return None, st\<lparr>st_manifest := nm, st_etag := e2, snapshotKey := k\<rparr>, w\<lparr>w_store := t\<rparr>)"
    using p(1,3) by (simp add: installSnapshot_def on_store_def putManifest_def Let_def)
  with p show ?thesis by (intro exI [of _ nm] exI [of _ e2] exI [of _ t]) (simp add: nm_def)
qed

lemma vacuum_alone:
  assumes "st_conn st = OpenConn d" and "sq_vacuum X d = Inr d'" and "w_io w = []"
  shows "vacuum X st w = (None, st, w)"
proof -
  have "d' = d" using assms(2) vacuums by (simp add: vacuum_law_def)
  moreover have "st\<lparr>st_conn := OpenConn d\<rparr> = st" using assms(1) by simp
  ultimately show ?thesis using assms by (simp add: vacuum_def)
qed

text \<open>Compaction keeps the content and the sequence number, and empties the log.\<close>

lemma compact_alone:
  assumes a: "start db w m d" and n: "0 < maxRetries cfg" and v: "sq_vacuum X d = Inr d'"
  shows "\<exists>db' w' m'. db_Compact X None db w = (None, db', w') \<and> invar (w_store w') \<and>
    man mk (view (w_store w')) = Some m' \<and> coherent X mk (view (w_store w')) \<and>
    Seq m' = Seq m \<and> SchemaVersion m' = SchemaVersion m \<and> Log m' = [] \<and>
    replay X (view (w_store w')) m' = Some d \<and> st_conn (db_st db') = OpenConn d"
proof -
  let ?path = "db_localPath db"
  obtain st t f where r: "refreshManifest X cfg None ?path (db_st db) w =
      (None, st, w\<lparr>w_store := t, w_disk := f\<rparr>)"
    and t: "invar t" "view t = view (w_store w)" "current mk (view t) st" "st_conn st = OpenConn d"
    "st_manifest st = m" by (rule refreshed [OF a]) blast
  obtain n' where n': "nat (maxRetries cfg) = Suc n'" using n by (metis gr0_conv_Suc zero_less_nat_eq)
  have fr: "good X mk (view t)" "fresh (view t) (w_uuid w)" "man mk (view t) = Some m" "w_io w = []"
    "replay X (view t) m = Some d" "db_cfg db = cfg" using a t(2) by (auto simp: start_def)
  have vw: "vacuum X st (w\<lparr>w_store := t, w_disk := f\<rparr>) = (None, st, w\<lparr>w_store := t, w_disk := f\<rparr>)"
    by (simp add: vacuum_alone [OF t(4) v] fr(4))
  let ?k = "compactKey cfg (uuid_string X (w_uuid w))"
  let ?w = "w\<lparr>w_store := t, w_disk := f, w_uuid := Suc (w_uuid w)\<rparr>"
  have sk: "?k \<in> snap_keys X cfg (w_uuid w)" by (simp add: snap_keys_def)
  from uploadSnapshot_alone [of ?w st d "''compact''" ?k ?path] t fr(4) obtain t1 e1 f1 where
    u: "uploadSnapshot X store None ''compact'' ?k ?path st ?w =
      (Inr (int (length (sq_file X d))), st, ?w\<lparr>w_store := t1, w_disk := f1\<rparr>)" "invar t1"
      "view t1 = (view t)(?k \<mapsto> (sq_file X d, e1))" by auto
  from upload_new [OF t(1) fr(1-3) sk u(3)] t(3,5)
  have t1: "good X mk (view t1)" "fresh (view t1) (w_uuid w)" "current mk (view t1) st"
    by (auto simp: current_def)
  from installSnapshot_alone [of "?w\<lparr>w_store := t1, w_disk := f1\<rparr>" "w_uuid w" st ?k d e1] u sk t1 t(5)
  obtain nm e2 t2 where i: "installSnapshot cfg None \<lparr>bKey = ?k, bSeq = Seq m, bSize = int (length (sq_file X d))\<rparr> st
      (?w\<lparr>w_store := t1, w_disk := f1\<rparr>) = (Return None, st\<lparr>st_manifest := nm, st_etag := e2, snapshotKey := ?k\<rparr>,
       ?w\<lparr>w_store := t1, w_disk := f1\<rparr>\<lparr>w_store := t2\<rparr>)" "invar t2" "coherent X mk (view t2)"
      "man mk (view t2) = Some nm" "replay X (view t2) nm = Some d" "Seq nm = Seq m"
      "SchemaVersion nm = SchemaVersion m" "Log nm = []" by auto
  show ?thesis
  proof (cases "Log m = []")
    case True
    then have "db_Compact X None db w = (None, db\<lparr>db_st := st\<rparr>, w\<lparr>w_store := t, w_disk := f\<rparr>)"
      using fr(6) r t(5) n' by (simp add: db_Compact_def compactLocked_def compactAttempt_def)
    with t fr True show ?thesis
      by (intro exI [of _ "db\<lparr>db_st := st\<rparr>"] exI [of _ "w\<lparr>w_store := t, w_disk := f\<rparr>"] exI [of _ m])
        (simp add: good_def)
  next
    case False
    then have "compactAttempt X cfg None ?path (db_st db) w = (Return None,
        st\<lparr>st_manifest := nm, st_etag := e2, snapshotKey := ?k\<rparr>, ?w\<lparr>w_store := t1, w_disk := f1\<rparr>\<lparr>w_store := t2\<rparr>)"
      using r t(5) vw u(1) i(1) by (simp add: compactAttempt_def new_uuid_def)
    then have "db_Compact X None db w =
        (None, db\<lparr>db_st := st\<lparr>st_manifest := nm, st_etag := e2, snapshotKey := ?k\<rparr>\<rparr>,
         ?w\<lparr>w_store := t1, w_disk := f1\<rparr>\<lparr>w_store := t2\<rparr>)"
      using fr(6) n' by (simp add: db_Compact_def compactLocked_def)
    with i t(4) show ?thesis
      by (intro exI [of _ "db\<lparr>db_st := st\<lparr>st_manifest := nm, st_etag := e2, snapshotKey := ?k\<rparr>\<rparr>"]
          exI [of _ "?w\<lparr>w_store := t1, w_disk := f1\<rparr>\<lparr>w_store := t2\<rparr>"] exI [of _ nm]) simp
  qed
qed

end

end
