(* ===== verification/Migrate_Alone.thy ===== *)
theory Migrate_Alone
  imports Operations
begin

text \<open>
  Migrations by a client that has the store to itself: the loop ends, every migration above the
  version of the database runs once, in the order of the versions, and the schema version is then
  that of the last one.
\<close>

section \<open>The order of migrations\<close>

text \<open>The migrations still to run, and what they make of a content.\<close>

definition pending :: "int \<Rightarrow> 'db Migration list \<Rightarrow> 'db Migration list" where
  "pending ver migs = filter (\<lambda>m. ver < mig_Version m) migs"

definition migrate_content :: "'db Migration list \<Rightarrow> 'db \<Rightarrow> 'db" where
  "migrate_content migs d = fold (\<lambda>m d. fst (snd (mig_Up m d))) migs d"

lemma checkOrder_iff:
  "checkOrder prev migs = None \<longleftrightarrow>
     sorted_wrt (<) (map mig_Version migs) \<and> (\<forall>m \<in> set migs. prev < mig_Version m)"
  by (induction prev migs rule: checkOrder.induct) auto

lemma nextMigration_pending:
  "nextMigration ver migs = (case pending ver migs of [] \<Rightarrow> None | m # ms \<Rightarrow> Some m)"
  by (induction ver migs rule: nextMigration.induct) (auto simp: pending_def)

lemma pending_step:
  assumes "sorted_wrt (<) (map mig_Version migs)" and "pending ver migs = m # ms"
  shows "pending (mig_Version m) migs = ms \<and> ver < mig_Version m \<and> m \<in> set migs"
  using assms
proof (induction migs)
  case (Cons x xs)
  show ?case
  proof (cases "ver < mig_Version x")
    case True
    with Cons.prems(2) have "x = m" "filter (\<lambda>m. ver < mig_Version m) xs = ms" by (simp_all add: pending_def)
    moreover have "filter (\<lambda>m. ver < mig_Version m) xs = xs" "filter (\<lambda>y. mig_Version x < mig_Version y) xs = xs"
      using Cons.prems(1) True by (fastforce simp: filter_id_conv)+
    ultimately show ?thesis using True by (simp add: pending_def)
  next
    case False
    then have p: "pending ver xs = m # ms" using Cons.prems(2) by (simp add: pending_def)
    with Cons have ih: "pending (mig_Version m) xs = ms \<and> ver < mig_Version m \<and> m \<in> set xs" by simp
    then have "mig_Version x < mig_Version m" using Cons.prems(1) by auto
    with ih show ?thesis by (simp add: pending_def)
  qed
qed (simp add: pending_def)

lemma pending_maxVersion:
  assumes "checkOrder 0 migs = None" and "0 \<le> ver" and "ver \<le> maxVersion migs"
  shows "pending ver migs = [] \<longleftrightarrow> ver = maxVersion migs"
proof (cases "migs = []")
  case True
  then show ?thesis using assms by (simp add: pending_def maxVersion_def)
next
  case False
  then obtain ms l where m: "migs = ms @ [l]" by (meson rev_exhaust)
  from assms(1) m have "\<forall>x \<in> set ms. mig_Version x < mig_Version l"
    by (auto simp: checkOrder_iff sorted_wrt_append)
  with m assms(3) show ?thesis by (auto simp: pending_def maxVersion_def filter_empty_conv)
qed

section \<open>One migration\<close>

context sole_client
begin

abbreviation "stage \<equiv> staged X cfg gen view invar"

text \<open>Taking over the manifest in the store, by a full refresh if it is forced.\<close>

lemma adopt_alone:
  assumes a: "stage st w m d" and e: "view (w_store w) mk = Some (b, e)"
    and s1: "s1 = (if force then st\<lparr>st_manifest := m, st_etag := e, snapshotKey := ''''\<rparr>
                   else st\<lparr>st_manifest := m, st_etag := e\<rparr>)"
  shows "\<exists>t f. syncToManifest X cfg None path s1 w =
      (None, st\<lparr>st_manifest := m, st_etag := e, st_conn := OpenConn d, localSeq := Seq m,
                snapshotKey := bKey (Snapshot m)\<rparr>, w\<lparr>w_store := t, w_disk := f\<rparr>) \<and>
    invar t \<and> view t = view (w_store w)"
proof -
  let ?v = "view (w_store w)"
  from a have m: "man mk ?v = Some m" "replay X ?v m = Some d" and h: "handle_ok X gen mk ?v st"
    and w: "invar (w_store w)" "w_io w = []" "st_conn st \<noteq> ClosedConn" "good X mk ?v"
    by (simp_all add: staged_def)
  from w(4) m(1) have im: "manifest_inv m" "size_ok ?v (Snapshot m)" by (auto simp: good_def coherent_def)
  have "\<exists>t f. syncToManifest X cfg None path s1 w =
      (None, s1\<lparr>st_conn := OpenConn d, localSeq := Seq (st_manifest s1),
                snapshotKey := bKey (Snapshot (st_manifest s1))\<rparr>, w\<lparr>w_store := t, w_disk := f\<rparr>) \<and>
    invar t \<and> view t = ?v"
  proof (rule sync_alone)
    fix d0 assume n: "\<not> needRefresh s1" and d0: "st_conn s1 = OpenConn d0"
    have "bKey (Snapshot m) \<noteq> ''''" using im(1) by (simp add: manifest_inv_def)
    with n s1 have f: "\<not> force" by (auto simp: needRefresh_def)
    with conn_ok_adopt(2) [OF h _ m(1) im(1), of d0 e] n d0 s1 have "conn_ok X mk ?v s1 d0"
      by (simp add: needRefresh_def)
    with m(1) f s1 show "localSeq s1 \<le> Seq (st_manifest s1) \<and>
      replay_to X ?v (st_manifest s1) (localSeq s1) = Some d0"
      by (simp add: conn_ok_def Let_def tracks_current)
  qed (use w im m s1 in auto)
  with s1 show ?thesis by (auto split: if_splits)
qed

lemma applyMigration_alone:
  assumes a: "stage st w m d" and e: "view (w_store w) mk = Some (b, e)"
    and up: "mig_Up mig d = (None, d', n)" and v: "sq_vacuum X d' = Inr d''"
    and ver: "0 \<le> mig_Version mig" "is_int64 (mig_Version mig)"
  shows "\<exists>st' w' nm. applyMigration X cfg None path m e mig force st w = (None, st', w') \<and>
    stage st' w' nm d' \<and> SchemaVersion nm = mig_Version mig \<and> Seq nm = Seq m \<and> Log nm = []"
proof -
  let ?v = "view (w_store w)" and ?k = "migrationKey cfg (mig_Version mig) (uuid_string X (w_uuid w))"
  let ?st = "st\<lparr>st_manifest := m, st_etag := e, st_conn := OpenConn d, localSeq := Seq m,
                snapshotKey := bKey (Snapshot m)\<rparr>"
  let ?st1 = "?st\<lparr>st_conn := OpenConn d'\<rparr>" and ?z = "int (length (sq_file X d'))"
  from adopt_alone [OF a e refl, where force = force and path = path] obtain t f where
    s: "syncToManifest X cfg None path (if force then st\<lparr>st_manifest := m, st_etag := e, snapshotKey := ''''\<rparr>
        else st\<lparr>st_manifest := m, st_etag := e\<rparr>) w = (None, ?st, w\<lparr>w_store := t, w_disk := f\<rparr>)"
      "invar t" "view t = ?v" by blast
  from a s(3) have g: "good X mk (view t)" "fresh (view t) (w_uuid w)" "man mk (view t) = Some m" "w_io w = []"
    by (simp_all add: staged_def)
  let ?w = "w\<lparr>w_store := t, w_disk := f, w_uuid := Suc (w_uuid w)\<rparr>"
  have sk: "?k \<in> snap_keys X cfg (w_uuid w)" using ver(1) by (auto simp: snap_keys_def)
  from uploadSnapshot_alone [of ?w ?st1 d' "''migration''" ?k path] s(2) g(4) obtain t1 e1 f1 where
    u: "uploadSnapshot X store None ''migration'' ?k path ?st1 ?w = (Inr ?z, ?st1, ?w\<lparr>w_store := t1, w_disk := f1\<rparr>)"
      "invar t1" "view t1 = (view t)(?k \<mapsto> (sq_file X d', e1))" by auto
  have t1: "good X mk (view t1)" "fresh (view t1) (w_uuid w)" "man mk (view t1) = Some m" "view t1 mk = Some (b, e)"
    using upload_new [OF s(2) g(1-3) sk u(3)] e s(3) by auto
  define nm where "nm = \<lparr>FormatVersion = 1, Seq = Seq m, SchemaVersion = mig_Version mig,
        Snapshot = \<lparr>bKey = ?k, bSeq = Seq m, bSize = ?z\<rparr>, Log = []\<rparr>"
  have fk: "view t1 ?k = Some (sq_file X d', e1)" using u(3) by simp
  from install_alone [OF u(2) t1 sk fk ver nm_def] obtain e2 t2 where
    p: "Put store None mk (Inr (encode_manifest nm)) \<lparr>IfMatch = e, IfNoneMatch = False\<rparr> t1 = (Inr e2, t2)"
      "invar t2" "validate nm = None" "manifest_inv nm" "coherent X mk (view t2)" "fresh (view t2) (Suc (w_uuid w))"
      "man mk (view t2) = Some nm" "replay X (view t2) nm = Some d'" by blast
  define st' where "st' = ?st1\<lparr>st_manifest := nm, st_etag := e2, localSeq := Seq m, snapshotKey := ?k\<rparr>"
  define w' where "w' = w\<lparr>w_store := t2, w_disk := f1, w_uuid := Suc (w_uuid w)\<rparr>"
  have "vacuum X ?st1 (w\<lparr>w_store := t, w_disk := f\<rparr>) = (None, ?st1, w\<lparr>w_store := t, w_disk := f\<rparr>)"
    by (rule vacuum_alone [OF _ v]) (simp_all add: g(4))
  moreover have "stamp (migrationManifest m (mig_Version mig) ?k ?z) = nm"
    by (simp add: nm_def migrationManifest_def stamp_def manifestFormatVersion_def)
  ultimately have r: "applyMigration X cfg None path m e mig force st w = (None, st', w')"
    using s(1) up u(1) p(1,3)
    by (cases force)
      (simp_all add: applyMigration_def Let_def runUp_def new_uuid_def on_store_def putManifest_def st'_def w'_def)
  have "room mk (view t2)" using g(1,3) p(7) by (simp add: good_def room_def nm_def)
  moreover have "wire_ok nm" using p(5,7) by (auto elim: coherent_man)
  moreover have "replay_to X (view t2) nm (Seq m) = Some d'"
    using p(4,8) replay_to_Seq [of nm X "view t2"] by (simp add: nm_def)
  ultimately have "stage st' w' nm d'"
    using p(2,4-8) g(4) by (simp add: staged_def good_def handle_ok_def st'_def w'_def sees_current conn_ok_def Let_def)
      (simp add: nm_def)
  with r show ?thesis by (intro exI [of _ st'] exI [of _ w'] exI [of _ nm]) (simp add: nm_def)
qed

end

section \<open>The loop ends\<close>

text \<open>Migrations whose steps and vacuums do not fail, with versions in the range of \<^verbatim>\<open>int64\<close>.\<close>

definition migrations_run :: "'db ext \<Rightarrow> 'db Migration list \<Rightarrow> bool" where
  "migrations_run X migs \<longleftrightarrow>
     (\<forall>m \<in> set migs. is_int64 (mig_Version m) \<and>
        (\<forall>d. \<exists>d' n. mig_Up m d = (None, d', n)) \<and> (\<forall>d. \<exists>d'. sq_vacuum X d = Inr d'))"

context sole_client
begin

lemma migrateLoop_alone:
  assumes o: "checkOrder 0 migs = None" and r: "migrations_run X migs"
  shows "stage st w m d \<Longrightarrow> 0 \<le> SchemaVersion m \<Longrightarrow> SchemaVersion m \<le> maxVersion migs \<Longrightarrow>
    \<exists>st' w' m'. migrateLoop X cfg None path migs lastVer st w = Some (None, st', w') \<and>
      stage st' w' m' (migrate_content (pending (SchemaVersion m) migs) d) \<and>
      SchemaVersion m' = maxVersion migs \<and> Seq m' = Seq m \<and>
      st_conn st' = OpenConn (migrate_content (pending (SchemaVersion m) migs) d) \<and>
      localSeq st' = Seq m' \<and> st_manifest st' = m'"
proof (induction "pending (SchemaVersion m) migs" arbitrary: st w m d lastVer)
  case Nil
  then have mx: "SchemaVersion m = maxVersion migs" using pending_maxVersion [OF o] by metis
  from Nil.prems(1) obtain b e where e: "view (w_store w) mk = Some (b, e)" by (auto simp: staged_def man_eq)
  from Nil.prems(1) have a: "invar (w_store w)" "man mk (view (w_store w)) = Some m" by (simp_all add: staged_def)
  from load_alone [OF a(1) e a(2)] obtain t where
    l: "loadManifest store None mk (w_store w) = (Inr (m, e), t)" "invar t" "view t = view (w_store w)" by blast
  have st: "stage st (w\<lparr>w_store := t\<rparr>) m d" using Nil.prems(1) l by (simp add: staged_def)
  have "view (w_store (w\<lparr>w_store := t\<rparr>)) mk = Some (b, e)" using l e by simp
  from adopt_alone [OF st this refl, where force = False and path = path] obtain t' f where
    s: "syncToManifest X cfg None path (st\<lparr>st_manifest := m, st_etag := e\<rparr>) (w\<lparr>w_store := t\<rparr>) =
      (None, st\<lparr>st_manifest := m, st_etag := e, st_conn := OpenConn d, localSeq := Seq m,
         snapshotKey := bKey (Snapshot m)\<rparr>, w\<lparr>w_store := t', w_disk := f\<rparr>)" "invar t'" "view t' = view (w_store w)"
    using l by auto
  define st' where "st' = st\<lparr>st_manifest := m, st_etag := e, st_conn := OpenConn d, localSeq := Seq m,
         snapshotKey := bKey (Snapshot m)\<rparr>"
  have "migrateTurn X cfg None path migs lastVer st w = (Inl None, st', w\<lparr>w_store := t', w_disk := f\<rparr>)"
    using l(1) s(1) mx by (simp add: migrateTurn_def Let_def on_store_def st'_def)
  then have "migrateLoop X cfg None path migs lastVer st w = Some (None, st', w\<lparr>w_store := t', w_disk := f\<rparr>)"
    by (simp add: migrateLoop.simps)
  moreover have "stage st' (w\<lparr>w_store := t', w_disk := f\<rparr>) m d"
    using Nil.prems(1) s(2,3) replay_to_Seq [of m X "view (w_store w)"]
    by (auto simp: staged_def st'_def handle_ok_def sees_current conn_ok_def Let_def manifest_inv_def elim!: good_man)
  ultimately show ?case using Nil.hyps mx
    by (intro exI [of _ st'] exI [of _ "w\<lparr>w_store := t', w_disk := f\<rparr>"] exI [of _ m])
      (simp add: migrate_content_def st'_def)
next
  case (Cons mig ms)
  from o have so: "sorted_wrt (<) (map mig_Version migs)" "\<And>x. x \<in> set migs \<Longrightarrow> 0 < mig_Version x"
    by (auto simp: checkOrder_iff)
  from pending_step [OF so(1) Cons.hyps(2) [symmetric]] have ps: "pending (mig_Version mig) migs = ms"
    "SchemaVersion m < mig_Version mig" "mig \<in> set migs" by auto
  have ne: "SchemaVersion m \<noteq> maxVersion migs"
    using pending_maxVersion [OF o Cons.prems(2,3)] Cons.hyps(2) by auto
  have mv: "mig_Version mig \<le> maxVersion migs"
    using ps(3) so(1) by (cases migs rule: rev_cases) (auto simp: maxVersion_def sorted_wrt_append)
  from r ps(3) obtain d' n d'' where up: "mig_Up mig d = (None, d', n)" "sq_vacuum X d' = Inr d''"
    "is_int64 (mig_Version mig)" by (fastforce simp: migrations_run_def)
  have v0: "0 \<le> mig_Version mig" using so(2) [OF ps(3)] by simp
  from Cons.prems(1) obtain b e where e: "view (w_store w) mk = Some (b, e)" by (auto simp: staged_def man_eq)
  from Cons.prems(1) have a: "invar (w_store w)" "man mk (view (w_store w)) = Some m" by (simp_all add: staged_def)
  from load_alone [OF a(1) e a(2)] obtain t where
    l: "loadManifest store None mk (w_store w) = (Inr (m, e), t)" "invar t" "view t = view (w_store w)" by blast
  have st: "stage st (w\<lparr>w_store := t\<rparr>) m d" using Cons.prems(1) l by (simp add: staged_def)
  have ve: "view (w_store (w\<lparr>w_store := t\<rparr>)) mk = Some (b, e)" using l e by simp
  from applyMigration_alone [OF st ve up(1,2) v0 up(3), of path "mig_Version mig = lastVer"] obtain st1 w1 nm where
    am: "applyMigration X cfg None path m e mig (mig_Version mig = lastVer) st (w\<lparr>w_store := t\<rparr>) = (None, st1, w1)"
      "stage st1 w1 nm d'" "SchemaVersion nm = mig_Version mig" "Seq nm = Seq m" by blast
  have "migrateTurn X cfg None path migs lastVer st w = (Inr (mig_Version mig), st1, w1)"
    using l(1) am(1) ne Cons.prems(3) Cons.hyps(2) [symmetric]
    by (simp add: migrateTurn_def Let_def on_store_def nextMigration_pending)
  then have lp: "migrateLoop X cfg None path migs lastVer st w = migrateLoop X cfg None path migs (mig_Version mig) st1 w1"
    by (subst migrateLoop.simps) simp
  have "migrate_content (mig # ms) d = migrate_content ms d'" using up(1) by (simp add: migrate_content_def)
  with Cons.hyps(1) [of nm st1 w1 d' "mig_Version mig"] am ps(1) mv v0 lp Cons.hyps(2) show ?case by simp
qed

text \<open>\<^verbatim>\<open>runMigrations\<close> returns, and the database is at the last version.\<close>

lemma runMigrations_alone:
  assumes "checkOrder 0 migs = None" and "migrations_run X migs" and a: "stage st w m d"
    and "SchemaVersion m \<le> maxVersion migs"
  shows "\<exists>st' w' m'. runMigrations X cfg None path migs st w = Some (None, st', w') \<and>
    stage st' w' m' (migrate_content (pending (SchemaVersion m) migs) d) \<and>
    SchemaVersion m' = maxVersion migs \<and> Seq m' = Seq m \<and>
    st_conn st' = OpenConn (migrate_content (pending (SchemaVersion m) migs) d) \<and>
      localSeq st' = Seq m' \<and> st_manifest st' = m'"
proof -
  from a have "0 \<le> SchemaVersion m" by (auto simp: staged_def manifest_inv_def elim!: good_man)
  from migrateLoop_alone [OF assms(1-3) this assms(4), of path "-1"] assms(1) show ?thesis
    by (auto simp: runMigrations_def)
qed

end

end
