(* ===== verification/Blob_Mem.thy ===== *)
theory Blob_Mem
  imports Blob
begin

text \<open>
  \<^verbatim>\<open>MemBlobStore\<close> (\<^verbatim>\<open>blob_mem.go\<close>): a map from keys to entries, as an association list
  with distinct keys, and the clock that \<^verbatim>\<open>time.Now\<close> reads.  The mutex makes each
  operation atomic, so an operation is a function of the state.  The store implements the
  sequential contract for every digest without collisions.
\<close>

section \<open>State and operations\<close>

record memEntry =
  mem_body :: bytes
  mem_etag :: string
  mem_modTime :: int

record MemBlobStore =
  objects :: "(string \<times> memEntry) list"
  clock :: int

definition NewMemBlobStore :: "int \<Rightarrow> MemBlobStore" where
  "NewMemBlobStore t = \<lparr>objects = [], clock = t\<rparr>"

definition mem_Get ::
  "ctx \<Rightarrow> string \<Rightarrow> MemBlobStore \<Rightarrow> (body \<times> string) result \<times> MemBlobStore" where
  "mem_Get ctx key s =
     (case ctx of Some e \<Rightarrow> (Inl (CtxErr e), s)
      | None \<Rightarrow>
          (case map_of (objects s) key of
             None \<Rightarrow> (Inl ErrNotFound, s)
           | Some e \<Rightarrow> (Inr (Inr (mem_body e), mem_etag e), s)))"

text \<open>A slice expression out of range is a panic in Go, here an error value of its own.\<close>

definition mem_GetRange ::
  "ctx \<Rightarrow> string \<Rightarrow> int \<Rightarrow> int \<Rightarrow> MemBlobStore \<Rightarrow> body result \<times> MemBlobStore" where
  "mem_GetRange ctx key start end s =
     (case ctx of Some e \<Rightarrow> (Inl (CtxErr e), s)
      | None \<Rightarrow>
          (case map_of (objects s) key of
             None \<Rightarrow> (Inl ErrNotFound, s)
           | Some e \<Rightarrow>
               (let n = int (length (mem_body e))
                in if n \<le> start then (Inr (Inr []), s)
                   else let end' = (if n \<le> end then n - 1 else end)
                        in if start < 0 \<or> end' + 1 < start
                           then (Inl (OtherErr ''panic: slice bounds out of range''), s)
                           else (Inr (Inr (take (nat (end' + 1 - start))
                                        (drop (nat start) (mem_body e)))), s))))"

definition mem_Stat ::
  "ctx \<Rightarrow> string \<Rightarrow> MemBlobStore \<Rightarrow> BlobInfo result \<times> MemBlobStore" where
  "mem_Stat ctx key s =
     (case ctx of Some e \<Rightarrow> (Inl (CtxErr e), s)
      | None \<Rightarrow>
          (case map_of (objects s) key of
             None \<Rightarrow> (Inl ErrNotFound, s)
           | Some e \<Rightarrow>
               (Inr \<lparr>ETag = mem_etag e, Size = int (length (mem_body e)),
                     LastModified = mem_modTime e\<rparr>, s)))"

definition mem_Put ::
  "(bytes \<Rightarrow> bytes) \<Rightarrow> ctx \<Rightarrow> string \<Rightarrow> body \<Rightarrow> PutCondition \<Rightarrow> MemBlobStore \<Rightarrow>
     string result \<times> MemBlobStore" where
  "mem_Put md5 ctx key body cond s =
     (case ctx of Some e \<Rightarrow> (Inl (CtxErr e), s)
      | None \<Rightarrow>
          if IfMatch cond \<noteq> '''' \<and> IfNoneMatch cond then (Inl errBothConditions, s)
          else
            (case body of Inl e \<Rightarrow> (Inl e, s)
             | Inr stored \<Rightarrow>
                 (let existing = map_of (objects s) key
                  in if IfNoneMatch cond \<and> existing \<noteq> None then (Inl ErrPreconditionFailed, s)
                     else if IfMatch cond \<noteq> '''' \<and>
                             (case existing of None \<Rightarrow> True
                              | Some e \<Rightarrow> mem_etag e \<noteq> Normalize (IfMatch cond))
                     then (Inl ErrPreconditionFailed, s)
                     else let newETag = Compute md5 stored
                          in (Inr newETag,
                              s\<lparr>objects := AList.update key
                                  \<lparr>mem_body = stored, mem_etag = newETag,
                                   mem_modTime = clock s\<rparr> (objects s)\<rparr>))))"

definition mem_List ::
  "ctx \<Rightarrow> string \<Rightarrow> MemBlobStore \<Rightarrow> string list result \<times> MemBlobStore" where
  "mem_List ctx pre s =
     (case ctx of Some e \<Rightarrow> (Inl (CtxErr e), s)
      | None \<Rightarrow> (Inr (sort (filter (\<lambda>k. HasPrefix k pre) (map fst (objects s)))), s))"

definition mem_Delete ::
  "ctx \<Rightarrow> string \<Rightarrow> MemBlobStore \<Rightarrow> err option \<times> MemBlobStore" where
  "mem_Delete ctx key s =
     (case ctx of Some e \<Rightarrow> (Some (CtxErr e), s)
      | None \<Rightarrow> (None, s\<lparr>objects := AList.delete key (objects s)\<rparr>))"

definition mem_DeletePrefix ::
  "ctx \<Rightarrow> string \<Rightarrow> MemBlobStore \<Rightarrow> err option \<times> MemBlobStore" where
  "mem_DeletePrefix ctx pre s =
     (case ctx of Some e \<Rightarrow> (Some (CtxErr e), s)
      | None \<Rightarrow> (None, s\<lparr>objects := filter (\<lambda>(k, e). \<not> HasPrefix k pre) (objects s)\<rparr>))"

definition mem_store :: "(bytes \<Rightarrow> bytes) \<Rightarrow> MemBlobStore BlobStore" where
  "mem_store md5 =
     \<lparr>Get = mem_Get, GetRange = mem_GetRange, Stat = mem_Stat, Put = mem_Put md5,
      ListKeys = mem_List, Delete = mem_Delete, DeletePrefix = mem_DeletePrefix\<rparr>"

section \<open>View and invariant\<close>

definition mem_view :: "MemBlobStore \<Rightarrow> objs" where
  "mem_view s k = map_option (\<lambda>e. (mem_body e, mem_etag e)) (map_of (objects s) k)"

definition mem_invar :: "(bytes \<Rightarrow> bytes) \<Rightarrow> MemBlobStore \<Rightarrow> bool" where
  "mem_invar md5 s \<longleftrightarrow>
     distinct (map fst (objects s)) \<and>
     (\<forall>e \<in> snd ` set (objects s). mem_etag e = Compute md5 (mem_body e))"

lemmas mem_ops = mem_store_def mem_Get_def mem_GetRange_def mem_Stat_def mem_Put_def
  mem_List_def mem_Delete_def mem_DeletePrefix_def

lemma mem_invar_new: "mem_invar md5 (NewMemBlobStore t)"
  by (simp add: mem_invar_def NewMemBlobStore_def)

lemma mem_view_etag:
  "mem_invar md5 s \<Longrightarrow> mem_view s k = Some (b, e) \<Longrightarrow> e = Compute md5 b"
  by (force simp: mem_invar_def mem_view_def dest: map_of_SomeD)

lemma mem_view_update:
  "mem_view (s\<lparr>objects := AList.update k e (objects s)\<rparr>) = (mem_view s)(k \<mapsto> (mem_body e, mem_etag e))"
  by (rule ext) (simp add: mem_view_def update_conv')

lemma mem_view_delete:
  "mem_view (s\<lparr>objects := AList.delete k (objects s)\<rparr>) = (mem_view s)(k := None)"
  by (rule ext) (simp add: mem_view_def delete_conv')

lemma map_of_filter_key: "map_of (filter (\<lambda>(k, e). P k) xs) k = (if P k then map_of xs k else None)"
  by (induction xs) auto

lemma mem_view_deletePrefix:
  "mem_view (s\<lparr>objects := filter (\<lambda>(k, e). \<not> HasPrefix k p) (objects s)\<rparr>)
     = (\<lambda>k. if HasPrefix k p then None else mem_view s k)"
  by (rule ext) (simp add: mem_view_def map_of_filter_key)

lemma set_update_subset: "set (AList.update k v xs) \<subseteq> insert (k, v) (set xs)"
  by (induction xs) auto

lemma mem_invar_update:
  assumes "mem_invar md5 s" and "mem_etag e = Compute md5 (mem_body e)"
  shows "mem_invar md5 (s\<lparr>objects := AList.update k e (objects s)\<rparr>)"
  using assms set_update_subset [of k e "objects s"]
  by (force simp: mem_invar_def distinct_update)

lemma mem_invar_filter:
  "mem_invar md5 s \<Longrightarrow> mem_invar md5 (s\<lparr>objects := filter P (objects s)\<rparr>)"
  by (auto simp: mem_invar_def distinct_map_filter)

lemma mem_invar_delete:
  "mem_invar md5 s \<Longrightarrow> mem_invar md5 (s\<lparr>objects := AList.delete k (objects s)\<rparr>)"
  by (simp add: AList.delete_eq mem_invar_filter)

lemma mem_cond:
  "(if IfNoneMatch c \<and> map_of (objects s) k \<noteq> None then False
    else \<not> (IfMatch c \<noteq> '''' \<and>
          (case map_of (objects s) k of None \<Rightarrow> True
           | Some e \<Rightarrow> mem_etag e \<noteq> Normalize (IfMatch c)))) = cond_ok c (mem_view s k)"
  by (auto simp: cond_ok_def mem_view_def split: option.splits)

lemma mem_Put_cases:
  "mem_Put md5 ctx k rd c s =
     (case ctx of Some e \<Rightarrow> (Inl (CtxErr e), s)
      | None \<Rightarrow> if IfMatch c \<noteq> '''' \<and> IfNoneMatch c then (Inl errBothConditions, s)
        else case rd of Inl e \<Rightarrow> (Inl e, s)
          | Inr b \<Rightarrow> if cond_ok c (mem_view s k)
              then (Inr (Compute md5 b), s\<lparr>objects := AList.update k
                     \<lparr>mem_body = b, mem_etag = Compute md5 b, mem_modTime = clock s\<rparr> (objects s)\<rparr>)
              else (Inl ErrPreconditionFailed, s))"
  unfolding mem_cond [symmetric]
  by (simp add: mem_Put_def Let_def split: option.splits sum.splits)

section \<open>The contract holds\<close>

context digest
begin

lemma mem_exclusive: "exclusive_store (mem_store md5) mem_view (mem_invar md5)"
proof (unfold_locales, goal_cases)
  case (3 s t k b e l c)
  then show ?case by (metis mem_view_etag Compute_inj)
next
  case (4 s k b e)
  then have "e = Compute md5 b" by (rule mem_view_etag)
  then show ?case by (simp add: Compute_nonempty)
next
  case (9 s ctx k i j p t)
  then show ?case
    by (auto simp: mem_store_def mem_GetRange_def mem_view_def Let_def
        split: option.splits if_splits)
next
  case (12 s ctx k rd c e t)
  then show ?case
    by (auto simp: mem_store_def mem_Put_cases mem_view_update mem_invar_update
        split: option.splits if_splits sum.splits)
next
  case (13 s ctx k rd c x t)
  then show ?case
    by (auto simp: mem_store_def mem_Put_cases split: option.splits if_splits sum.splits)
next
  case (15 s ctx p d t)
  then have "\<forall>k. mem_view t k = mem_view s k \<or> (HasPrefix k p \<and> mem_view t k = None)" and "mem_invar md5 t"
    by (auto simp: mem_store_def mem_DeletePrefix_def mem_view_deletePrefix mem_invar_filter
        split: option.splits if_splits)
  then show ?case by (blast intro: sweeps.intros)
next
  case (19 s c k b)
  then show ?case by (auto simp: mem_store_def mem_Put_cases)
next
  case (20 s c k b)
  then show ?case by (auto simp: mem_store_def mem_Put_cases)
next
  case (21 s p)
  then show ?case
    by (auto simp: mem_store_def mem_List_def mem_invar_def mem_view_def map_of_eq_None_iff)
qed (auto simp: mem_ops mem_view_def mem_view_delete mem_view_deletePrefix mem_invar_delete
      mem_invar_filter map_of_filter_key Let_def split: option.splits if_splits)

end

sublocale digest \<subseteq> mem: exclusive_store "mem_store md5" mem_view "mem_invar md5"
  by (rule mem_exclusive)

section \<open>Properties\<close>

text \<open>
  C24: \<^verbatim>\<open>MemBlobStore\<close> implements the contract of the interface comment: for a digest without
  collisions its operations, seen through the flat view of the objects, satisfy every law of the
  sequential contract (reads, conditional writes, sorted listings, deletions, errors).
\<close>

theorem mem_contract:
  assumes "\<And>a b. md5 a = md5 b \<Longrightarrow> a = b" and "\<And>a. md5 a \<noteq> []"
  shows "exclusive_store (mem_store md5) mem_view (mem_invar md5)"
proof -
  have "digest md5" using assms by unfold_locales blast+
  then show ?thesis by (rule digest.mem_exclusive)
qed

theorem mem_contract_witness:
  "exclusive_store (mem_store (\<lambda>b. CHR ''x'' # b)) mem_view (mem_invar (\<lambda>b. CHR ''x'' # b))"
  by (rule mem_contract) simp_all

end
