(* ===== verification/Blob_Shared.thy ===== *)
theory Blob_Shared
  imports Blob_Mem
begin

text \<open>
  An environment for concrete runs; it models no code of the repository.  A store that is shared
  with other clients and reached over a network: before every call the next of a list of
  interferences happens, and the call itself may be lost before or after it took effect.  It is an
  instance of the contract \<open>cas_store\<close> if the store behind it keeps the sequential one and the
  interferences stay within a relation; the witnesses of the theorems on clients that share a
  database run on it.
\<close>

section \<open>Definitions\<close>

datatype fault = NoFault | Lost | Phantom

record 's shared =
  sh_base :: 's
  sh_script :: "('s \<Rightarrow> 's) list"
  sh_faults :: "fault list"

definition net_err :: err where
  "net_err = OtherErr ''connection reset by peer''"

definition sh_turn :: "'s shared \<Rightarrow> 's shared" where
  "sh_turn s =
     (case sh_script s of [] \<Rightarrow> s | f # fs \<Rightarrow> s\<lparr>sh_base := f (sh_base s), sh_script := fs\<rparr>)"

definition sh_op :: "('s \<Rightarrow> 'r \<times> 's) \<Rightarrow> (err \<Rightarrow> 'r) \<Rightarrow> 's shared \<Rightarrow> 'r \<times> 's shared" where
  "sh_op f bad s0 =
     (let s = sh_turn s0; s1 = s\<lparr>sh_faults := tl (sh_faults s)\<rparr>; r = f (sh_base s)
      in case sh_faults s of
           Lost # fs \<Rightarrow> (bad net_err, s1)
         | Phantom # fs \<Rightarrow> (bad net_err, s1\<lparr>sh_base := snd r\<rparr>)
         | _ \<Rightarrow> (fst r, s1\<lparr>sh_base := snd r\<rparr>))"

definition shared_store :: "'s BlobStore \<Rightarrow> 's shared BlobStore" where
  "shared_store st =
     \<lparr>Get = \<lambda>ctx k. sh_op (Get st ctx k) Inl,
      GetRange = \<lambda>ctx k i j. sh_op (GetRange st ctx k i j) Inl,
      Stat = \<lambda>ctx k. sh_op (Stat st ctx k) Inl,
      Put = \<lambda>ctx k b c. sh_op (Put st ctx k b c) Inl,
      ListKeys = \<lambda>ctx p. sh_op (ListKeys st ctx p) Inl,
      Delete = \<lambda>ctx k. sh_op (Delete st ctx k) Some,
      DeletePrefix = \<lambda>ctx p. sh_op (DeletePrefix st ctx p) Some\<rparr>"

definition shared_view :: "('s \<Rightarrow> objs) \<Rightarrow> 's shared \<Rightarrow> objs" where
  "shared_view view s = view (sh_base s)"

definition shared_invar ::
  "('s \<Rightarrow> objs) \<Rightarrow> ('s \<Rightarrow> bool) \<Rightarrow> (objs \<Rightarrow> objs \<Rightarrow> bool) \<Rightarrow> 's shared \<Rightarrow> bool" where
  "shared_invar view invar R s \<longleftrightarrow>
     invar (sh_base s) \<and>
     (\<forall>f \<in> set (sh_script s). \<forall>b. invar b \<longrightarrow> invar (f b) \<and> R (view b) (view (f b)))"

section \<open>The contract\<close>

lemma sh_op_cases:
  assumes "sh_op f bad s = (r, t)"
  obtains (run) "r = fst (f (sh_base (sh_turn s)))" "sh_base t = snd (f (sh_base (sh_turn s)))"
      "sh_script t = sh_script (sh_turn s)"
    | (lost) "r = bad net_err" "sh_base t = sh_base (sh_turn s)" "sh_script t = sh_script (sh_turn s)"
    | (phantom) "r = bad net_err" "sh_base t = snd (f (sh_base (sh_turn s)))"
      "sh_script t = sh_script (sh_turn s)"
  using assms by (auto simp: sh_op_def Let_def split: list.splits fault.splits)

lemma sh_turn_invar:
  assumes "shared_invar view invar R s" and "\<And>v. R v v"
  shows "shared_invar view invar R (sh_turn s)"
    and "R (shared_view view s) (shared_view view (sh_turn s))"
  using assms by (auto simp: shared_invar_def shared_view_def sh_turn_def split: list.splits)

context exclusive_store
begin

text \<open>A call that only reads.\<close>

lemma shared_read:
  assumes R: "\<And>v. R v v" and s: "shared_invar view invar R s"
    and f: "\<And>b r' b'. invar b \<Longrightarrow> f b = (r', b') \<Longrightarrow> invar b' \<and> view b = view b'"
    and o: "sh_op f bad s = (r, t)"
  shows "shared_invar view invar R t" "R (shared_view view s) (shared_view view t)"
    "r \<noteq> bad net_err \<Longrightarrow> \<exists>b'. f (sh_base (sh_turn s)) = (r, b') \<and> sh_base t = b'"
proof -
  note tn = sh_turn_invar [OF s R]
  obtain r' b' where fb: "f (sh_base (sh_turn s)) = (r', b')" by fastforce
  have "invar (sh_base (sh_turn s))" using tn(1) by (simp add: shared_invar_def)
  from f [OF this fb] have b': "invar b'" "view (sh_base (sh_turn s)) = view b'" by auto
  show "shared_invar view invar R t" "R (shared_view view s) (shared_view view t)"
    by (cases rule: sh_op_cases [OF o]; use tn fb b' in \<open>auto simp: shared_invar_def shared_view_def\<close>)+
  show "r \<noteq> bad net_err \<Longrightarrow> \<exists>b'. f (sh_base (sh_turn s)) = (r, b') \<and> sh_base t = b'"
    by (cases rule: sh_op_cases [OF o]) (use fb in auto)
qed

text \<open>A call that may write: it takes effect on the store after the interference, or not at all.\<close>

lemma shared_write:
  assumes R: "\<And>v. R v v" and s: "shared_invar view invar R s"
    and f: "\<forall>b r' b'. invar b \<longrightarrow> f b = (r', b') \<longrightarrow> invar b'"
    and o: "sh_op f bad s = (r, t)"
  shows "shared_invar view invar R t" "shared_invar view invar R (sh_turn s)"
    "R (shared_view view s) (shared_view view (sh_turn s))"
    "f (sh_base (sh_turn s)) = (r, sh_base t) \<or>
     r = bad net_err \<and> (sh_base t = sh_base (sh_turn s) \<or>
       (\<exists>r'. f (sh_base (sh_turn s)) = (r', sh_base t)))"
proof -
  note tn = sh_turn_invar [OF s R]
  obtain r' b' where fb: "f (sh_base (sh_turn s)) = (r', b')" by fastforce
  have "invar (sh_base (sh_turn s))" using tn(1) by (simp add: shared_invar_def)
  with f fb have b': "invar b'" by blast
  show "shared_invar view invar R (sh_turn s)" "R (shared_view view s) (shared_view view (sh_turn s))"
    by (rule tn)+
  show "shared_invar view invar R t"
    by (cases rule: sh_op_cases [OF o]) (use tn fb b' in \<open>auto simp: shared_invar_def\<close>)
  show "f (sh_base (sh_turn s)) = (r, sh_base t) \<or>
     r = bad net_err \<and> (sh_base t = sh_base (sh_turn s) \<or>
       (\<exists>r'. f (sh_base (sh_turn s)) = (r', sh_base t)))"
    by (cases rule: sh_op_cases [OF o]) (use fb in auto)
qed

lemma shared_cas:
  assumes R: "\<And>v. R v v" and T: "\<And>u v w. R u v \<Longrightarrow> R v w \<Longrightarrow> R u w"
  shows "cas_store (shared_store store) (shared_view view) (shared_invar view invar R) R"
proof (unfold_locales, goal_cases)
  case 1 then show ?case by (rule R)
next
  case 2 then show ?case by (rule T)
next
  case 3 then show ?case by (auto simp: shared_invar_def shared_view_def intro: etag_unique)
next
  case 4 then show ?case by (auto simp: shared_invar_def shared_view_def dest: etag_normal)
next
  case (5 s ctx k r t)
  then show ?case using shared_read [OF R 5(1), of "Get store ctx k" Inl r t] Get_step
    by (auto simp: shared_store_def)
next
  case (6 s ctx k rd e t)
  then have "\<exists>b'. Get store ctx k (sh_base (sh_turn s)) = (Inr (rd, e), b') \<and> sh_base t = b'"
    using shared_read(3) [OF R 6(1), of "Get store ctx k" Inl] Get_step
    by (auto simp: shared_store_def)
  moreover have "invar (sh_base (sh_turn s))" using sh_turn_invar [OF 6(1) R] by (simp add: shared_invar_def)
  ultimately show ?case using Get_some by (auto simp: shared_view_def)
next
  case (7 s ctx k x t)
  then have "x \<noteq> net_err" by (auto simp: net_err_def)
  with 7 have "\<exists>b'. Get store ctx k (sh_base (sh_turn s)) = (Inl x, b') \<and> sh_base t = b'"
    using shared_read(3) [OF R 7(1), of "Get store ctx k" Inl "Inl x" t] Get_step
    by (auto simp: shared_store_def)
  moreover have "invar (sh_base (sh_turn s))" using sh_turn_invar [OF 7(1) R] by (simp add: shared_invar_def)
  ultimately show ?case using Get_none 7(3) by (auto simp: shared_view_def)
next
  case (8 s ctx k i j g t)
  then show ?case using shared_read [OF R 8(1), of "GetRange store ctx k i j" Inl g t] GetRange_step
    by (auto simp: shared_store_def)
next
  case (9 s ctx k i j p t)
  then have "\<exists>b'. GetRange store ctx k i j (sh_base (sh_turn s)) = (Inr (Inr p), b') \<and> sh_base t = b'"
    using shared_read(3) [OF R 9(1), of "GetRange store ctx k i j" Inl] GetRange_step
    by (auto simp: shared_store_def)
  moreover have "invar (sh_base (sh_turn s))" using sh_turn_invar [OF 9(1) R] by (simp add: shared_invar_def)
  ultimately show ?case using GetRange_some 9(3,4) by (auto simp: shared_view_def)
next
  case (10 s ctx k info t)
  then show ?case using shared_read [OF R 10(1), of "Stat store ctx k" Inl info t] Stat_step
    by (auto simp: shared_store_def)
next
  case (11 s ctx p ks t)
  then show ?case using shared_read [OF R 11(1), of "ListKeys store ctx p" Inl ks t] List_step
    by (auto simp: shared_store_def)
next
  case (12 s ctx k rd c e t)
  have inv: "\<forall>b r' b'. invar b \<longrightarrow> Put store ctx k rd c b = (r', b') \<longrightarrow> invar b'"
    using Put_done Put_fail by (metis sum.exhaust)
  note w = shared_write [OF R 12(1), of "Put store ctx k rd c" Inl "Inr e" t, OF inv]
  have o: "sh_op (Put store ctx k rd c) Inl s = (Inr e, t)" using 12(2) by (simp add: shared_store_def)
  have u: "invar (sh_base (sh_turn s))" using w(2) [OF o] by (simp add: shared_invar_def)
  have "Put store ctx k rd c (sh_base (sh_turn s)) = (Inr e, sh_base t)" using w(4) [OF o] by simp
  from Put_done [OF u this] w(1-3) [OF o] show ?case by (auto simp: shared_view_def)
next
  case (13 s ctx k rd c x t)
  have inv: "\<forall>b r' b'. invar b \<longrightarrow> Put store ctx k rd c b = (r', b') \<longrightarrow> invar b'"
    using Put_done Put_fail by (metis sum.exhaust)
  note w = shared_write [OF R 13(1), of "Put store ctx k rd c" Inl "Inl x" t, OF inv]
  have o: "sh_op (Put store ctx k rd c) Inl s = (Inl x, t)" using 13(2) by (simp add: shared_store_def)
  have u: "invar (sh_base (sh_turn s))" using w(2) [OF o] by (simp add: shared_invar_def)
  have "view (sh_base t) = view (sh_base (sh_turn s)) \<or>
      \<not> errors_Is x ErrPreconditionFailed \<and> (\<exists>b e. rd = Inr b \<and> cond_ok c (view (sh_base (sh_turn s)) k) \<and>
        view (sh_base t) = (view (sh_base (sh_turn s)))(k \<mapsto> (b, e)))"
    using w(4) [OF o]
  proof (elim disjE conjE exE)
    assume "Put store ctx k rd c (sh_base (sh_turn s)) = (Inl x, sh_base t)"
    from Put_fail [OF u this] show ?thesis by auto
  next
    assume "sh_base t = sh_base (sh_turn s)"
    then show ?thesis by simp
  next
    fix r' assume "Inl x = (Inl net_err :: string result)"
      and p: "Put store ctx k rd c (sh_base (sh_turn s)) = (r', sh_base t)"
    then have "\<not> errors_Is x ErrPreconditionFailed" by (simp add: net_err_def)
    moreover have "view (sh_base t) = view (sh_base (sh_turn s)) \<or>
      (\<exists>b e. rd = Inr b \<and> cond_ok c (view (sh_base (sh_turn s)) k) \<and>
        view (sh_base t) = (view (sh_base (sh_turn s)))(k \<mapsto> (b, e)))"
    proof (cases r')
      case (Inl y)
      with Put_fail [OF u p [unfolded Inl]] show ?thesis by auto
    next
      case (Inr y)
      with Put_done [OF u p [unfolded Inr]] show ?thesis by auto
    qed
    ultimately show ?thesis by blast
  qed
  with w(1-3) [OF o] show ?case unfolding shared_view_def by blast
next
  case (14 s ctx k d t)
  note w = shared_write [OF R 14(1), of "Delete store ctx k" Some d t]
  have inv: "\<forall>b r' b'. invar b \<longrightarrow> Delete store ctx k b = (r', b') \<longrightarrow> invar b'"
    using Delete_step by blast
  have o: "sh_op (Delete store ctx k) Some s = (d, t)" using 14(2) by (simp add: shared_store_def)
  have u: "invar (sh_base (sh_turn s))" using w(2) [OF inv o] by (simp add: shared_invar_def)
  have "view (sh_base t) = view (sh_base (sh_turn s)) \<or>
      view (sh_base t) = (view (sh_base (sh_turn s)))(k := None)"
    using w(4) [OF inv o] Delete_step [OF u] by fastforce
  with w(1-3) [OF inv o] show ?case unfolding shared_view_def by blast
next
  case (15 s ctx p d t)
  note w = shared_write [OF R 15(1), of "DeletePrefix store ctx p" Some d t]
  have inv: "\<forall>b r' b'. invar b \<longrightarrow> DeletePrefix store ctx p b = (r', b') \<longrightarrow> invar b'"
    using DeletePrefix_step by blast
  have o: "sh_op (DeletePrefix store ctx p) Some s = (d, t)" using 15(2) by (simp add: shared_store_def)
  have u: "invar (sh_base (sh_turn s))" using w(2) [OF inv o] by (simp add: shared_invar_def)
  have "\<forall>k. view (sh_base t) k = view (sh_base (sh_turn s)) k \<or>
      (HasPrefix k p \<and> view (sh_base t) k = None)"
    using w(4) [OF inv o] DeletePrefix_step [OF u] sweeps_alone by metis
  then have "sweeps R p (view (sh_base s)) (view (sh_base t))"
    using w(3) [OF inv o] unfolding shared_view_def by (blast intro: sweeps.intros)
  with w(1) [OF inv o] show ?case by (simp add: shared_view_def)
qed

end

end
