(* ===== verification/Sample.thy ===== *)
theory Sample
  imports Migrate_Alone Blob_Shared
begin

text \<open>
  Concrete instances of the parameters, for the witnesses: a database of two rows whose
  changesets carry before-images, a digest without collisions, an enumeration of UUIDs, and a
  small database in the in-memory store.
\<close>

section \<open>A database of two rows\<close>

type_synonym rows = "char \<times> char"

definition rows_changeset :: "rows \<Rightarrow> rows \<Rightarrow> bytes" where
  "rows_changeset d d' =
     (if fst d = fst d' then [] else [CHR ''a'', fst d, fst d']) @
     (if snd d = snd d' then [] else [CHR ''b'', snd d, snd d'])"

fun rows_apply :: "bytes \<Rightarrow> rows \<Rightarrow> rows applied" where
  "rows_apply [] d = Applied d"
| "rows_apply (r # old # new # rest) (a, b) =
     (if r = CHR ''a'' then (if a = old then rows_apply rest (new, b) else Conflict 1)
      else if r = CHR ''b'' then (if b = old then rows_apply rest (a, new) else Conflict 1)
      else ApplyErr (OtherErr ''no such row''))"
| "rows_apply _ d = ApplyErr (OtherErr ''malformed changeset'')"

definition rows_ext :: "rows ext" where
  "rows_ext =
     \<lparr>sq_open = \<lambda>f. case f of [a, b] \<Rightarrow> Inr (a, b) | _ \<Rightarrow> Inl (OtherErr ''file is not a database''),
      sq_file = \<lambda>d. [fst d, snd d],
      sq_changeset = rows_changeset,
      sq_apply = rows_apply,
      sq_vacuum = Inr,
      sq_master = \<lambda>d. [\<lparr>tbl_type = ''table'', tbl_name = ''t'', tbl_pks = [1, 0]\<rparr>],
      sq_quick_check = \<lambda>f. Inr [''ok''],
      sq_empty = (CHR ''0'', CHR ''0''),
      uuid_string = \<lambda>n. replicate n CHR ''a''\<rparr>"

lemma rows_file_law: "file_law rows_ext"
  by (auto simp: file_law_def rows_ext_def)

lemma rows_vacuum_law: "vacuum_law rows_ext"
  by (simp add: vacuum_law_def rows_ext_def)

lemma rows_uuid_law: "uuid_law rows_ext"
  by (auto simp: uuid_law_def rows_ext_def inj_def set_replicate_conv_if)

lemma rows_size_law: "size_law rows_ext"
  by (simp add: size_law_def rows_ext_def rows_changeset_def max_int64_def)

lemma rows_rebase_law: "rebase_law rows_ext"
  unfolding rebase_law_def recorded_def rows_ext_def
  by (auto simp: rows_changeset_def split: if_splits)

lemma rows_recordable: "recordable rows_ext fn"
  unfolding recordable_def
proof (intro allI impI)
  fix d d' n assume "fn d = (None, d', n :: int)"
  show "if sq_changeset rows_ext d d' = [] then d' = d
        else sq_apply rows_ext (sq_changeset rows_ext d d') d = Applied d'"
    by (cases d; cases d') (auto simp: rows_ext_def rows_changeset_def)
qed

lemmas rows_laws = rows_file_law rows_vacuum_law rows_uuid_law rows_size_law rows_rebase_law

section \<open>A digest, and an order of snapshots\<close>

definition sample_md5 :: "bytes \<Rightarrow> bytes" where
  "sample_md5 b = CHR ''x'' # b"

interpretation sample: digest sample_md5
  by unfold_locales (auto simp: sample_md5_def)

text \<open>How often the letter \<^verbatim>\<open>a\<close> occurs before the extension: the number of the UUID.\<close>

definition sample_gen :: "string \<Rightarrow> nat" where
  "sample_gen k = length (takeWhile (\<lambda>c. c = CHR ''a'') (drop 7 (rev k)))"

lemma takeWhile_replicate:
  "x \<noteq> c \<Longrightarrow> length (takeWhile (\<lambda>y. y = c) (replicate n c @ x # xs)) = n"
  by (induction n) auto

lemma sample_gen_compact: "sample_gen (compactKey cfg (replicate n CHR ''a'')) = n"
  by (simp add: sample_gen_def compactKey_def takeWhile_replicate)

lemma sample_gen_migration: "sample_gen (migrationKey cfg ver (replicate n CHR ''a'')) = n"
  by (simp add: sample_gen_def migrationKey_def takeWhile_replicate)

lemma sample_gen_snap: "k \<in> snap_keys rows_ext cfg n \<Longrightarrow> sample_gen k = n"
  by (auto simp: snap_keys_def rows_ext_def sample_gen_compact sample_gen_migration)

lemma sample_gen_law: "gen_law rows_ext cfg sample_gen"
  by (simp add: gen_law_def sample_gen_snap)

section \<open>A small database\<close>

definition sample_config :: "'s BlobStore \<Rightarrow> int \<Rightarrow> 's commitConfig" where
  "sample_config st n =
     \<lparr>cfg_store = st, cfg_prefix = ''p/'', manifestKey = ''p/manifest.json'', maxRetries = n,
      schemaVer = 0\<rparr>"

text \<open>The store alone, and the store shared with others.\<close>

definition mem_cfg :: "MemBlobStore commitConfig" where
  "mem_cfg = sample_config (mem_store sample_md5) 10"

definition sample_cfg :: "MemBlobStore shared commitConfig" where
  "sample_cfg = sample_config (shared_store (mem_store sample_md5)) 10"

definition sample_put :: "string \<Rightarrow> bytes \<Rightarrow> MemBlobStore \<Rightarrow> MemBlobStore" where
  "sample_put k b s = snd (mem_Put sample_md5 None k (Inr b) NoCondition s)"

definition base_manifest :: manifest where
  "base_manifest =
     \<lparr>FormatVersion = 1, Seq = 0, SchemaVersion = 0,
      Snapshot = \<lparr>bKey = ''p/snapshots/s.sqlite'', bSeq = 0, bSize = 2\<rparr>, Log = []\<rparr>"

definition base_store :: MemBlobStore where
  "base_store =
     sample_put ''p/manifest.json'' (encode_manifest base_manifest)
       (sample_put ''p/snapshots/s.sqlite'' ''00'' (NewMemBlobStore 0))"

text \<open>A handle that is up to date with it.\<close>

definition base_handle :: "rows commitState" where
  "base_handle =
     \<lparr>st_conn = OpenConn (CHR ''0'', CHR ''0''), localSeq = 0, snapshotKey = ''p/snapshots/s.sqlite'',
      st_manifest = base_manifest, st_etag = Compute sample_md5 (encode_manifest base_manifest)\<rparr>"

text \<open>The same database one commit later, which set row \<^verbatim>\<open>b\<close>; the handle above is then behind.\<close>

definition next_manifest :: manifest where
  "next_manifest =
     \<lparr>FormatVersion = 1, Seq = 1, SchemaVersion = 0,
      Snapshot = \<lparr>bKey = ''p/snapshots/s.sqlite'', bSeq = 0, bSize = 2\<rparr>,
      Log = [\<lparr>eKey = ''p/changesets/s/cs-z.bin'', eSeq = 1, eSize = 3\<rparr>]\<rparr>"

definition next_store :: MemBlobStore where
  "next_store =
     sample_put ''p/manifest.json'' (encode_manifest next_manifest)
       (sample_put ''p/changesets/s/cs-z.bin'' ''b05'' base_store)"

definition sample_db :: "'s commitConfig \<Rightarrow> ('s, rows) DB" where
  "sample_db cfg =
     \<lparr>db_cfg = cfg, db_st = base_handle, db_localPath = ''db'', db_opts = defaultOptions,
      ownLocalFile = False\<rparr>"

definition mem_world :: "MemBlobStore \<Rightarrow> MemBlobStore world" where
  "mem_world s = \<lparr>w_store = s, w_disk = Map.empty, w_io = [], w_uuid = 1\<rparr>"

text \<open>A world on the shared store, with the interferences to come.\<close>

definition sample_world :: "(MemBlobStore \<Rightarrow> MemBlobStore) list \<Rightarrow> MemBlobStore shared world" where
  "sample_world fs =
     \<lparr>w_store = \<lparr>sh_base = base_store, sh_script = fs, sh_faults = []\<rparr>, w_disk = Map.empty, w_io = [],
      w_uuid = 1\<rparr>"

text \<open>Setting row \<^verbatim>\<open>a\<close>, or row \<^verbatim>\<open>b\<close>.\<close>

definition set_a :: "char \<Rightarrow> rows txn" where
  "set_a c d = (None, (c, snd d), 1)"

definition set_b :: "char \<Rightarrow> rows txn" where
  "set_b c d = (None, (fst d, c), 1)"

section \<open>It is a database\<close>

lemma sample_put_view [simp]:
  "mem_view (sample_put k b s) = (mem_view s)(k \<mapsto> (b, Compute sample_md5 b))"
  by (simp add: sample_put_def mem_Put_cases mem_view_update NoCondition_def cond_ok_def)

lemma sample_put_invar [simp]: "mem_invar sample_md5 s \<Longrightarrow> mem_invar sample_md5 (sample_put k b s)"
  by (simp add: sample_put_def mem_Put_cases mem_invar_update NoCondition_def cond_ok_def)

lemma new_view [simp]: "mem_view (NewMemBlobStore t) = Map.empty"
  by (rule ext) (simp add: mem_view_def NewMemBlobStore_def)

lemma base_wire: "wire_ok base_manifest" "validate base_manifest = None" "manifest_inv base_manifest"
  by (simp_all add: wire_ok_def validate_def manifest_inv_def base_manifest_def is_int64_def
      min_int64_def max_int64_def is_ascii_def manifestFormatVersion_def)

lemma next_wire: "wire_ok next_manifest" "validate next_manifest = None" "manifest_inv next_manifest"
  by (simp_all add: wire_ok_def validate_def manifest_inv_def next_manifest_def is_int64_def add64_def
      wrap64_def min_int64_def max_int64_def is_ascii_def manifestFormatVersion_def)

lemma base_view:
  "mem_view base_store =
     [''p/snapshots/s.sqlite'' \<mapsto> (''00'', Compute sample_md5 ''00''),
      ''p/manifest.json'' \<mapsto> (encode_manifest base_manifest, Compute sample_md5 (encode_manifest base_manifest))]"
  by (simp add: base_store_def)

lemma next_view:
  "mem_view next_store =
     (mem_view base_store)(''p/changesets/s/cs-z.bin'' \<mapsto> (''b05'', Compute sample_md5 ''b05''),
      ''p/manifest.json'' \<mapsto> (encode_manifest next_manifest, Compute sample_md5 (encode_manifest next_manifest)))"
  by (simp add: next_store_def)

lemma base_invar: "mem_invar sample_md5 base_store" "mem_invar sample_md5 next_store"
  by (simp_all add: base_store_def next_store_def mem_invar_new)

lemma base_man: "man ''p/manifest.json'' (mem_view base_store) = Some base_manifest"
  by (simp add: base_view man_put base_wire)

lemma next_man: "man ''p/manifest.json'' (mem_view next_store) = Some next_manifest"
  by (simp add: next_view man_put next_wire)

lemma base_replay: "replay rows_ext (mem_view base_store) base_manifest = Some (CHR ''0'', CHR ''0'')"
  by (simp add: base_view replay_def base_of_def base_manifest_def rows_ext_def body_at_def)

lemma next_replay: "replay rows_ext (mem_view next_store) next_manifest = Some (CHR ''0'', CHR ''5'')"
  by (simp add: base_view next_view replay_def base_of_def next_manifest_def rows_ext_def body_at_def
      apply_bytes_def)

lemma rows_recorded: "recorded rows_ext ''b05''"
proof -
  have "''b05'' = sq_changeset rows_ext (CHR ''0'', CHR ''0'') (CHR ''0'', CHR ''5'')"
    by (simp add: rows_ext_def rows_changeset_def)
  then show ?thesis unfolding recorded_def by blast
qed

lemma sample_good:
  "good rows_ext ''p/manifest.json'' (mem_view base_store)"
  "good rows_ext ''p/manifest.json'' (mem_view next_store)"
  by (simp_all add: good_def coherent_def room_def base_man next_man base_replay next_replay base_wire
      next_wire refs_def size_ok_def parallelDownloadThreshold_def log_recorded_def)
    (simp_all add: base_manifest_def next_manifest_def max_int64_def next_view body_at_def rows_recorded)

section \<open>Its clients\<close>

text \<open>What the others may do.\<close>

definition sample_env :: "objs \<Rightarrow> objs \<Rightarrow> bool" where
  "sample_env = rely rows_ext sample_cfg sample_gen (\<lambda>ep. {})"

lemmas sample_cfg_defs = mem_cfg_def sample_cfg_def sample_config_def

lemma sample_wf: "wf_cfg mem_cfg" "wf_cfg sample_cfg"
  by (simp_all add: wf_cfg_def sample_cfg_defs is_ascii_def)

interpretation alone: sole_client mem_cfg mem_view "mem_invar sample_md5" rows_ext sample_gen
proof (rule sole_client.intro)
  show "exclusive_store (cfg_store mem_cfg) mem_view (mem_invar sample_md5)"
    using sample.mem_exclusive by (simp add: sample_cfg_defs)
  show "sole_client_axioms mem_cfg rows_ext sample_gen"
    using rows_laws sample_gen_law sample_wf by unfold_locales
qed

interpretation together: client sample_cfg "shared_view mem_view"
  "shared_invar mem_view (mem_invar sample_md5) sample_env" sample_env rows_ext sample_gen "\<lambda>ep. {}"
proof (rule client.intro)
  have "cas_store (shared_store (mem_store sample_md5)) (shared_view mem_view)
      (shared_invar mem_view (mem_invar sample_md5) sample_env) sample_env"
    unfolding sample_env_def by (rule sample.mem.shared_cas) (rule rely_refl, rule rely_trans)
  then show "cas_store (cfg_store sample_cfg) (shared_view mem_view)
      (shared_invar mem_view (mem_invar sample_md5) sample_env) sample_env"
    by (simp add: sample_cfg_defs)
  show "client_axioms sample_cfg sample_env rows_ext sample_gen (\<lambda>ep. {})"
    using rows_laws sample_gen_law sample_wf by unfold_locales (auto simp: sample_env_def)
qed

lemma gen_base: "sample_gen ''p/snapshots/s.sqlite'' = 0"
  by (simp add: sample_gen_def)

lemma own_key_other:
  assumes "0 < i"
  shows "own_key rows_ext cfg ep i \<noteq> ''p/changesets/s/cs-z.bin''"
proof
  assume e: "own_key rows_ext cfg ep i = ''p/changesets/s/cs-z.bin''"
  have u: "uuid_string rows_ext i = replicate i CHR ''a''" by (simp add: rows_ext_def)
  then have "rev (takeWhile (\<lambda>c. c \<noteq> CHR ''/'') (rev (own_key rows_ext cfg ep i))) =
      ''cs-'' @ replicate i CHR ''a'' @ ''.bin''"
    using own_key_suffix [of rows_ext i cfg ep] by (simp add: set_replicate_conv_if)
  with e assms show False by (cases i) simp_all
qed

lemma sample_fresh_man:
  assumes p: "cfg_prefix cfg = ''p/''" and m: "man (manifestKey cfg) v = Some m"
    and r: "refs m \<subseteq> {''p/snapshots/s.sqlite'', ''p/changesets/s/cs-z.bin''}"
      "bKey (Snapshot m) = ''p/snapshots/s.sqlite''"
  shows "fresh_keys rows_ext cfg sample_gen v (Suc 0)"
  unfolding fresh_keys_def m
proof (intro allI impI conjI ballI, goal_cases)
  case (1 m' i ep)
  then have "own_key rows_ext cfg ep i \<noteq> ''p/changesets/s/cs-z.bin''"
    by (intro own_key_other) simp
  moreover have "own_key rows_ext cfg ep i \<noteq> ''p/snapshots/s.sqlite''" using p by (simp add: own_key_def)
  ultimately show ?case using 1 r(1) by auto
next
  case (2 m' i k)
  have "k \<noteq> ''p/changesets/s/cs-z.bin''" using snap_key_form [OF 2(3)] p by auto
  moreover have "sample_gen k \<noteq> sample_gen ''p/snapshots/s.sqlite''"
    using sample_gen_snap [OF 2(3)] gen_base 2(2) by simp
  ultimately show ?case using 2 r(1) by auto
next
  case (3 m' i k)
  then show ?case using sample_gen_snap [OF 3(3)] gen_base r(2) by simp
qed

lemma sample_fresh:
  "fresh_keys rows_ext mem_cfg sample_gen (mem_view next_store) (Suc 0)"
  "fresh_keys rows_ext mem_cfg sample_gen (mem_view base_store) (Suc 0)"
  "fresh_keys rows_ext sample_cfg sample_gen (mem_view base_store) (Suc 0)"
  using base_man next_man
  by (auto simp: sample_cfg_defs refs_def base_manifest_def next_manifest_def intro!: sample_fresh_man)

lemma base_handle_ok:
  "handle_ok rows_ext sample_gen ''p/manifest.json'' (mem_view base_store) base_handle"
  "handle_ok rows_ext sample_gen ''p/manifest.json'' (mem_view next_store) base_handle"
proof -
  have h: "st_manifest base_handle = base_manifest" "st_conn base_handle = OpenConn (CHR ''0'', CHR ''0'')"
    "localSeq base_handle = 0" "snapshotKey base_handle = bKey (Snapshot base_manifest)"
    "bSeq (Snapshot base_manifest) = 0" "Seq base_manifest = 0" "Log base_manifest = []"
    "extends base_manifest next_manifest"
    by (simp_all add: base_handle_def base_manifest_def next_manifest_def extends_def)
  have "base_of rows_ext (mem_view base_store) (Snapshot base_manifest) = Some (CHR ''0'', CHR ''0'')"
    "base_of rows_ext (mem_view next_store) (Snapshot base_manifest) = Some (CHR ''0'', CHR ''0'')"
    by (simp_all add: base_view next_view base_of_def base_manifest_def rows_ext_def body_at_def)
  then show "handle_ok rows_ext sample_gen ''p/manifest.json'' (mem_view base_store) base_handle"
    "handle_ok rows_ext sample_gen ''p/manifest.json'' (mem_view next_store) base_handle"
    by (simp_all add: handle_ok_def h base_wire sees_def tracks_def base_man next_man conn_ok_def
        replay_to_def)
qed

lemma sample_opened:
  "opened rows_ext sample_gen mem_view (mem_invar sample_md5) (sample_db mem_cfg) (mem_world next_store)
     next_manifest (CHR ''0'', CHR ''5'')"
proof -
  have k: "manifestKey mem_cfg = ''p/manifest.json''" "schemaVer mem_cfg = SchemaVersion next_manifest"
    "st_conn base_handle \<noteq> ClosedConn"
    by (simp_all add: sample_cfg_defs next_manifest_def base_handle_def)
  show ?thesis
    by (simp add: opened_def staged_def sample_db_def mem_world_def k base_invar sample_good sample_fresh
        base_handle_ok next_man next_replay)
qed

section \<open>Migrations and files\<close>

definition sample_migrations :: "rows Migration list" where
  "sample_migrations =
     [\<lparr>mig_Version = 1, mig_Name = ''one'', mig_Up = set_a CHR ''1''\<rparr>,
      \<lparr>mig_Version = 2, mig_Name = ''two'', mig_Up = set_b CHR ''2''\<rparr>]"

lemma sample_migrations_ok:
  "checkOrder 0 sample_migrations = None" "migrations_run rows_ext sample_migrations"
  "SchemaVersion next_manifest \<le> maxVersion sample_migrations"
  by (simp_all add: sample_migrations_def migrations_run_def is_int64_def min_int64_def max_int64_def set_a_def
      set_b_def rows_ext_def next_manifest_def maxVersion_def)

text \<open>A world with a file.\<close>

definition file_world :: "MemBlobStore \<Rightarrow> MemBlobStore world" where
  "file_world s = (mem_world s)\<lparr>w_disk := [''f'' \<mapsto> ''34'']\<rparr>"

end
