(* ===== verification/Gc_Safety.thy ===== *)
theory Gc_Safety
  imports Operations
begin

text \<open>
  Garbage collection: what \<^verbatim>\<open>groupByEpoch\<close> computes, which objects a sweep removes, and that a
  sweep on the current manifest removes no object the manifest references.
\<close>

section \<open>Grouping\<close>

text \<open>The epoch a key below the changeset prefix belongs to.\<close>

definition epochOf :: "string \<Rightarrow> string \<Rightarrow> string option" where
  "epochOf csPrefix k =
     (let rest = TrimPrefix k csPrefix; i = IndexByte rest CHR ''/''
      in if i \<le> 0 then None else Some (take (nat i) rest))"

lemma addTo_map:
  "map_of (addTo ep k g) e =
     (if e = ep then Some ((case map_of g ep of None \<Rightarrow> [] | Some ks \<Rightarrow> ks) @ [k]) else map_of g e)"
  by (induction g) (auto split: option.splits)

lemma addTo_keys: "set (map fst (addTo ep k g)) = insert ep (set (map fst g))"
  by (induction ep k g rule: addTo.induct) (simp_all, blast)

lemma addTo_distinct: "distinct (map fst g) \<Longrightarrow> distinct (map fst (addTo ep k g))"
proof (induction ep k g rule: addTo.induct)
  case (2 ep k e ks rest)
  then show ?case using addTo_keys [of ep k rest] by auto
qed simp

lemma groupLoop_map:
  "map_of (groupLoop p keys g) ep =
     (let ks = filter (\<lambda>k. epochOf p k = Some ep) keys
      in if ks = [] then map_of g ep
         else Some ((case map_of g ep of None \<Rightarrow> [] | Some xs \<Rightarrow> xs) @ ks))"
proof (induction keys arbitrary: g)
  case (Cons k keys)
  show ?case
  proof (cases "epochOf p k")
    case None
    then have "groupLoop p (k # keys) g = groupLoop p keys g"
      by (auto simp: epochOf_def Let_def split: if_splits)
    with Cons None show ?thesis by simp
  next
    case (Some e)
    then have "groupLoop p (k # keys) g = groupLoop p keys (addTo e k g)"
      by (auto simp: epochOf_def Let_def split: if_splits)
    with Cons Some show ?thesis by (auto simp: addTo_map Let_def split: option.splits)
  qed
qed (simp add: Let_def)

lemma groupLoop_distinct: "distinct (map fst g) \<Longrightarrow> distinct (map fst (groupLoop p keys g))"
  by (induction keys arbitrary: g) (auto simp: Let_def addTo_distinct)

lemma groupByEpoch_map:
  "map_of (groupByEpoch keys p) ep =
     (let ks = filter (\<lambda>k. epochOf p k = Some ep) keys in if ks = [] then None else Some ks)"
  by (simp add: groupByEpoch_def groupLoop_map Let_def)

lemma groupByEpoch_distinct: "distinct (map fst (groupByEpoch keys p))"
  by (simp add: groupByEpoch_def groupLoop_distinct)

lemma groupByEpoch_set:
  "(ep, ks) \<in> set (groupByEpoch keys p) \<longleftrightarrow> ks = filter (\<lambda>k. epochOf p k = Some ep) keys \<and> ks \<noteq> []"
  unfolding map_of_eq_Some_iff [OF groupByEpoch_distinct, symmetric] groupByEpoch_map Let_def by auto

text \<open>The keys of an epoch are those below its directory.\<close>

lemma epochOf_directory:
  assumes "epochOf p k0 = Some ep"
  shows "HasPrefix k (p @ ep @ ''/'') \<longleftrightarrow> HasPrefix k p \<and> epochOf p k = Some ep"
proof -
  let ?r = "TrimPrefix k0 p" and ?i = "\<lambda>s. IndexByte s CHR ''/''"
  from assms have i: "0 < ?i ?r" "ep = take (nat (?i ?r)) ?r" by (auto simp: epochOf_def Let_def split: if_splits)
  then have ep: "CHR ''/'' \<notin> set ep" "ep \<noteq> []"
    using IndexByte_split [of ?r "CHR ''/''"] by (auto dest: arg_cong [of _ _ length])
  show ?thesis
  proof
    assume "HasPrefix k (p @ ep @ ''/'')"
    then obtain t where "k = p @ ep @ CHR ''/'' # t" by (auto simp: HasPrefix_iff prefix_def)
    then show "HasPrefix k p \<and> epochOf p k = Some ep"
      using ep by (simp add: epochOf_def Let_def IndexByte_append)
  next
    assume h: "HasPrefix k p \<and> epochOf p k = Some ep"
    then obtain t where k: "k = p @ t" by (auto simp: HasPrefix_iff prefix_def)
    with h have j: "0 < ?i t" "ep = take (nat (?i t)) t" by (auto simp: epochOf_def Let_def split: if_splits)
    then have "t = ep @ CHR ''/'' # drop (Suc (nat (?i t))) t"
      using IndexByte_split [of t "CHR ''/''"] by simp
    with k show "HasPrefix k (p @ ep @ ''/'')" by (auto simp: HasPrefix_iff prefix_def)
  qed
qed

section \<open>What a sweep removes\<close>

text \<open>
  The objects that are garbage for a manifest: other snapshots, and changesets of other epochs
  that hold no entry of the log.
\<close>

definition garbage :: "'s commitConfig \<Rightarrow> manifest \<Rightarrow> string \<Rightarrow> bool" where
  "garbage cfg m k \<longleftrightarrow>
     HasPrefix k (cfg_prefix cfg @ ''snapshots/'') \<and> k \<noteq> bKey (Snapshot m) \<or>
     HasPrefix k (cfg_prefix cfg @ ''changesets/'') \<and>
     (case epochOf (cfg_prefix cfg @ ''changesets/'') k of None \<Rightarrow> False
      | Some ep \<Rightarrow> ep \<noteq> epoch m \<and>
          (\<forall>e \<in> set (Log m). \<not> (HasPrefix (eKey e) (cfg_prefix cfg @ ''changesets/'') \<and>
             epochOf (cfg_prefix cfg @ ''changesets/'') (eKey e) = Some ep)))"

text \<open>Where the code puts snapshots and changesets.\<close>

definition layout_ok :: "'s commitConfig \<Rightarrow> manifest \<Rightarrow> bool" where
  "layout_ok cfg m \<longleftrightarrow>
     HasPrefix (bKey (Snapshot m)) (cfg_prefix cfg @ ''snapshots/'') \<and>
     (\<forall>e \<in> set (Log m). HasPrefix (eKey e) (cfg_prefix cfg @ ''changesets/''))"

lemma snapshots_changesets: "\<not> (HasPrefix k (p @ ''snapshots/'') \<and> HasPrefix k (p @ ''changesets/''))"
  by (auto simp: HasPrefix_iff prefix_def)

lemma refs_not_garbage:
  assumes "layout_ok cfg m" and "k \<in> refs m"
  shows "\<not> garbage cfg m k"
  using assms snapshots_changesets [of k "cfg_prefix cfg"]
  by (auto simp: garbage_def layout_ok_def refs_def split: option.splits)

lemma manifest_not_garbage: "wf_cfg cfg \<Longrightarrow> \<not> garbage cfg m (manifestKey cfg)"
  by (auto simp: garbage_def wf_cfg_def HasPrefix_iff prefix_def split: option.splits)

text \<open>The groups that are removed.\<close>

fun swept :: "string \<Rightarrow> string \<Rightarrow> string set \<Rightarrow> string \<Rightarrow> string \<times> string list \<Rightarrow> bool" where
  "swept p cur live k (ep, ks) \<longleftrightarrow>
     ep \<noteq> cur \<and> (\<forall>x \<in> set ks. x \<notin> live) \<and> HasPrefix k (p @ ep @ ''/'')"

context exclusive_store
begin

lemma sweepEpochs_alone:
  "invar s \<Longrightarrow> \<exists>t. sweepEpochs store None p cur live es s = (None, t) \<and> invar t \<and>
     (\<forall>k. view t k = (if list_ex (swept p cur live k) es then None else view s k))"
proof (induction es arbitrary: s)
  case (Cons x es)
  obtain ep ks where x: "x = (ep, ks)" by (cases x)
  show ?case
  proof (cases "ep = cur \<or> (\<exists>k \<in> set ks. k \<in> live)")
    case True
    then have "\<not> swept p cur live k x" for k using x by auto
    with Cons.IH [OF Cons.prems] True x show ?thesis by auto
  next
    case False
    from DeletePrefix_gone [OF Cons.prems] obtain t where
      d: "DeletePrefix store None (p @ ep @ ''/'') s = (None, t)"
        "view t = (\<lambda>k. if HasPrefix k (p @ ep @ ''/'') then None else view s k)" by blast
    have "invar t" using DeletePrefix_step [OF Cons.prems d(1)] by simp
    from Cons.IH [OF this] obtain u where u: "sweepEpochs store None p cur live es t = (None, u)" "invar u"
      "\<And>k. view u k = (if list_ex (swept p cur live k) es then None else view t k)" by blast
    have "swept p cur live k x \<longleftrightarrow> HasPrefix k (p @ ep @ ''/'')" for k using x False by auto
    with u d(2) have "\<forall>k. view u k = (if list_ex (swept p cur live k) (x # es) then None else view s k)" by simp
    moreover have "sweepEpochs store None p cur live (x # es) s = (None, u)" using x False d u by auto
    ultimately show ?thesis using u(2) by blast
  qed
qed auto

lemma graceOver_alone:
  assumes "invar s"
  shows "\<exists>b t. graceOver store None k grace now s = (b, t) \<and> invar t \<and> view t = view s \<and> (grace \<le> 0 \<longrightarrow> b)"
proof (cases "0 < grace")
  case True
  obtain r t where st: "Stat store None k s = (r, t)" by fastforce
  with Stat_step [OF assms st] True show ?thesis by (cases r) (auto simp: graceOver_def)
qed (use assms in \<open>auto simp: graceOver_def\<close>)

lemma sweepSnapshots_alone:
  "invar s \<Longrightarrow> \<exists>t. sweepSnapshots store None cur grace now ks s = (None, t) \<and> invar t \<and>
     (\<forall>k. view t k = view s k \<or> (k \<in> set ks \<and> k \<noteq> cur \<and> view t k = None)) \<and>
     (grace \<le> 0 \<longrightarrow> (\<forall>k \<in> set ks. k \<noteq> cur \<longrightarrow> view t k = None))"
proof (induction ks arbitrary: s)
  case (Cons x ks)
  show ?case
  proof (cases "x = cur")
    case True
    with Cons show ?thesis by fastforce
  next
    case False
    obtain b s1 where g: "graceOver store None x grace now s = (b, s1)" "invar s1" "view s1 = view s" "grace \<le> 0 \<longrightarrow> b"
      using graceOver_alone [OF Cons.prems] by blast
    obtain s2 where d: "Delete store None x s1 = (None, s2)" "view s2 = (view s1)(x := None)"
      using Delete_gone [OF g(2)] by blast
    have i2: "invar s2" using Delete_step [OF g(2) d(1)] by simp
    define s' where "s' = (if b then s2 else s1)"
    have s': "invar s'" "view s' = (if b then (view s)(x := None) else view s)"
      using i2 g d(2) by (auto simp: s'_def)
    from Cons.IH [OF s'(1)] obtain t where t: "sweepSnapshots store None cur grace now ks s' = (None, t)" "invar t"
      "\<forall>k. view t k = view s' k \<or> (k \<in> set ks \<and> k \<noteq> cur \<and> view t k = None)"
      "grace \<le> 0 \<longrightarrow> (\<forall>k \<in> set ks. k \<noteq> cur \<longrightarrow> view t k = None)" by blast
    have "sweepSnapshots store None cur grace now (x # ks) s = (None, t)"
      using False g d t by (auto simp: s'_def split: if_splits)
    moreover have "\<forall>k. view t k = view s k \<or> (k \<in> set (x # ks) \<and> k \<noteq> cur \<and> view t k = None)"
    proof
      fix k
      show "view t k = view s k \<or> (k \<in> set (x # ks) \<and> k \<noteq> cur \<and> view t k = None)"
      proof (cases "k = x \<and> b")
        case True
        then have "view s' k = None" using s'(2) by simp
        with t(3) have "view t k = None" by metis
        with True False show ?thesis by simp
      next
        case False
        then have "view s' k = view s k" using s'(2) by auto
        then show ?thesis using t(3) by (metis list.set_intros(2))
      qed
    qed
    moreover have "grace \<le> 0 \<longrightarrow> (\<forall>k \<in> set (x # ks). k \<noteq> cur \<longrightarrow> view t k = None)"
    proof (intro impI ballI)
      fix k assume z: "grace \<le> 0" and k: "k \<in> set (x # ks)" "k \<noteq> cur"
      have "view s' x = None" using z g(4) s'(2) by simp
      with t(3) have "view t x = None" by metis
      with k t(4) z show "view t k = None" by auto
    qed
    ultimately show ?thesis using t(2) by blast
  qed
qed auto

end

lemma swept_garbage:
  assumes keys: "set keys = {k. HasPrefix k p \<and> v k \<noteq> None}" and log: "\<forall>e \<in> set es. v (eKey e) \<noteq> None"
    and g: "set g = set (groupByEpoch keys p)"
  shows "list_ex (swept p cur (eKey ` set es) k) g \<Longrightarrow> HasPrefix k p \<and>
      (\<exists>ep. epochOf p k = Some ep \<and> ep \<noteq> cur \<and>
         (\<forall>e \<in> set es. \<not> (HasPrefix (eKey e) p \<and> epochOf p (eKey e) = Some ep)))"
    and "HasPrefix k p \<Longrightarrow> v k \<noteq> None \<Longrightarrow> epochOf p k = Some ep \<Longrightarrow> ep \<noteq> cur \<Longrightarrow>
      \<forall>e \<in> set es. \<not> (HasPrefix (eKey e) p \<and> epochOf p (eKey e) = Some ep) \<Longrightarrow>
      list_ex (swept p cur (eKey ` set es) k) g"
proof -
  assume "list_ex (swept p cur (eKey ` set es) k) g"
  then obtain ep ks where x: "(ep, ks) \<in> set g" "ep \<noteq> cur" "\<forall>x \<in> set ks. x \<notin> eKey ` set es"
    "HasPrefix k (p @ ep @ ''/'')" by (auto simp: list_ex_iff)
  with g have ks: "ks = filter (\<lambda>k. epochOf p k = Some ep) keys" "ks \<noteq> []" by (auto simp: groupByEpoch_set)
  then obtain k0 where "epochOf p k0 = Some ep" by (metis (mono_tags) filter_False)
  from epochOf_directory [OF this, of k] x(4) have k: "HasPrefix k p" "epochOf p k = Some ep" by auto
  have "\<forall>e \<in> set es. \<not> (HasPrefix (eKey e) p \<and> epochOf p (eKey e) = Some ep)"
    using x(3) ks(1) keys log by auto
  with k x(2) show "HasPrefix k p \<and> (\<exists>ep. epochOf p k = Some ep \<and> ep \<noteq> cur \<and>
      (\<forall>e \<in> set es. \<not> (HasPrefix (eKey e) p \<and> epochOf p (eKey e) = Some ep)))" by blast
next
  assume k: "HasPrefix k p" "v k \<noteq> None" "epochOf p k = Some ep" and ep: "ep \<noteq> cur"
    and n: "\<forall>e \<in> set es. \<not> (HasPrefix (eKey e) p \<and> epochOf p (eKey e) = Some ep)"
  let ?ks = "filter (\<lambda>k. epochOf p k = Some ep) keys"
  have "k \<in> set ?ks" using k keys by simp
  then have "?ks \<noteq> []" by (metis empty_iff empty_set)
  then have "(ep, ?ks) \<in> set g" using g by (simp add: groupByEpoch_set)
  moreover have "swept p cur (eKey ` set es) k (ep, ?ks)"
    using ep n keys k(1) epochOf_directory [OF k(3), of k] k(3) by auto
  ultimately show "list_ex (swept p cur (eKey ` set es) k) g" unfolding list_ex_iff by blast
qed

context sole_client
begin

lemma list_alone:
  assumes "invar s"
  obtains ks t where "ListKeys store None p s = (Inr ks, t)" "invar t" "view t = view s"
    "set ks = {k. HasPrefix k p \<and> view s k \<noteq> None}"
  using List_all [OF assms, of p] List_step [OF assms] by (metis (no_types, lifting))

text \<open>The first half of a sweep.\<close>

lemma sweep_changesets:
  assumes s: "invar s" and log: "\<forall>e \<in> set (Log m). view s (eKey e) \<noteq> None"
    and order: "\<forall>g. set (ord g) = set g" and p: "p = cfg_prefix cfg @ ''changesets/''"
  shows "\<exists>t. (if over then (case ListKeys store None p s of
            (Inl e, s) \<Rightarrow> (Some (Wrapped ''gc: list changesets'' e), s)
          | (Inr keys, s) \<Rightarrow> sweepEpochs store None p (epoch m) (eKey ` set (Log m)) (ord (groupByEpoch keys p)) s)
         else (None, s)) = (None, t) \<and> invar t \<and>
    (\<forall>k. view t k = view s k \<or> (HasPrefix k p \<and> garbage cfg m k \<and> view t k = None)) \<and>
    (over \<longrightarrow> (\<forall>k. HasPrefix k p \<longrightarrow> garbage cfg m k \<longrightarrow> view t k = None))"
proof (cases over)
  case True
  obtain keys t where l: "ListKeys store None p s = (Inr keys, t)" "invar t" "view t = view s"
    "set keys = {k. HasPrefix k p \<and> view s k \<noteq> None}" by (rule list_alone [OF s])
  from sweepEpochs_alone [OF l(2)] obtain u where u:
    "sweepEpochs store None p (epoch m) (eKey ` set (Log m)) (ord (groupByEpoch keys p)) t = (None, u)"
    "invar u" "\<And>k. view u k = (if list_ex (swept p (epoch m) (eKey ` set (Log m)) k) (ord (groupByEpoch keys p))
      then None else view t k)" by blast
  have "set (ord (groupByEpoch keys p)) = set (groupByEpoch keys p)" using order by blast
  note sg = swept_garbage(1) [OF l(4) log this, of "epoch m"] swept_garbage(2) [OF l(4) log this]
  have "view u k = view s k \<or> (HasPrefix k p \<and> garbage cfg m k \<and> view u k = None)" for k
    using u(3) [of k] l(3) sg(1) [of k] by (auto simp: garbage_def p split: if_splits)
  moreover have "view u k = None" if k: "HasPrefix k p" "garbage cfg m k" for k
  proof (cases "view s k = None")
    case False
    have "\<not> HasPrefix k (cfg_prefix cfg @ ''snapshots/'')"
      using k(1) p snapshots_changesets [of k "cfg_prefix cfg"] by auto
    with k p obtain ep where "epochOf p k = Some ep" "ep \<noteq> epoch m"
      "\<forall>e \<in> set (Log m). \<not> (HasPrefix (eKey e) p \<and> epochOf p (eKey e) = Some ep)"
      by (auto simp: garbage_def split: option.splits)
    with sg(2) [OF k(1) False] u(3) [of k] show ?thesis by simp
  qed (use u(3) [of k] l(3) in simp)
  ultimately show ?thesis using True l(1) u(1,2) by auto
qed (use s in auto)

lemma sweep_alone:
  assumes s: "invar s" and log: "\<forall>e \<in> set (Log m). view s (eKey e) \<noteq> None"
    and order: "\<forall>g. set (ord g) = set g"
  shows "\<exists>t. sweep cfg None m grace now ord s = (None, t) \<and> invar t \<and>
    (\<forall>k. view t k = view s k \<or> (garbage cfg m k \<and> view t k = None)) \<and>
    (grace \<le> 0 \<longrightarrow> (\<forall>k. garbage cfg m k \<longrightarrow> view t k = None))"
proof -
  let ?p = "cfg_prefix cfg @ ''changesets/''" and ?q = "cfg_prefix cfg @ ''snapshots/''"
  obtain over s1 where g: "graceOver store None (bKey (Snapshot m)) grace now s = (over, s1)" "invar s1"
    "view s1 = view s" "grace \<le> 0 \<longrightarrow> over" using graceOver_alone [OF s] by blast
  have "\<forall>e \<in> set (Log m). view s1 (eKey e) \<noteq> None" using log g(3) by simp
  from sweep_changesets [OF g(2) this order refl, of over] obtain s2 where
    c: "(if over then (case ListKeys store None ?p s1 of
            (Inl e, s) \<Rightarrow> (Some (Wrapped ''gc: list changesets'' e), s)
          | (Inr keys, s) \<Rightarrow> sweepEpochs store None ?p (epoch m) (eKey ` set (Log m)) (ord (groupByEpoch keys ?p)) s)
         else (None, s1)) = (None, s2)" "invar s2"
      "\<And>k. view s2 k = view s1 k \<or> (HasPrefix k ?p \<and> garbage cfg m k \<and> view s2 k = None)"
      "over \<Longrightarrow> \<forall>k. HasPrefix k ?p \<longrightarrow> garbage cfg m k \<longrightarrow> view s2 k = None" by blast
  obtain ks s3 where l: "ListKeys store None ?q s2 = (Inr ks, s3)" "invar s3" "view s3 = view s2"
    "set ks = {k. HasPrefix k ?q \<and> view s2 k \<noteq> None}" by (rule list_alone [OF c(2)])
  from sweepSnapshots_alone [OF l(2), of "bKey (Snapshot m)" grace now ks] obtain t where
    t: "sweepSnapshots store None (bKey (Snapshot m)) grace now ks s3 = (None, t)" "invar t"
      "\<And>k. view t k = view s3 k \<or> (k \<in> set ks \<and> k \<noteq> bKey (Snapshot m) \<and> view t k = None)"
      "grace \<le> 0 \<Longrightarrow> \<forall>k \<in> set ks. k \<noteq> bKey (Snapshot m) \<longrightarrow> view t k = None" by blast
  have "sweep cfg None m grace now ord s = (None, t)" using g c(1) l(1) t(1) by (simp add: sweep_def Let_def)
  moreover have "view t k = view s k \<or> (garbage cfg m k \<and> view t k = None)" for k
    using t(3) [of k] c(3) [of k] l(3,4) g(3) by (auto simp: garbage_def)
  moreover have "view t k = None" if z: "grace \<le> 0" and k: "garbage cfg m k" for k
  proof (cases "view s2 k = None")
    case True
    then show ?thesis using t(3) [of k] l(3) by auto
  next
    case False
    have "\<not> HasPrefix k ?p" using False c(4) g(4) z k by auto
    then have "HasPrefix k ?q" "k \<noteq> bKey (Snapshot m)" using k by (auto simp: garbage_def)
    with False t(4) [OF z] l(4) show ?thesis by auto
  qed
  ultimately show ?thesis using t(2) by blast
qed

text \<open>\<^verbatim>\<open>GC\<close> removes garbage only, all of it if there is no grace period, and keeps the database.\<close>

lemma GC_alone:
  assumes a: "start db w m d" and order: "\<forall>g. set (ord g) = set g" and l: "layout_ok cfg m"
  shows "\<exists>db' w'. db_GC X None now ord db w = (None, db', w') \<and> invar (w_store w') \<and>
    (\<forall>k. view (w_store w') k = view (w_store w) k \<or> (garbage cfg m k \<and> view (w_store w') k = None)) \<and>
    (gcGracePeriod (db_opts db) \<le> 0 \<longrightarrow> (\<forall>k. garbage cfg m k \<longrightarrow> view (w_store w') k = None)) \<and>
    man mk (view (w_store w')) = Some m \<and> replay X (view (w_store w')) m = Some d"
proof -
  obtain st t f where r: "refreshManifest X cfg None (db_localPath db) (db_st db) w =
      (None, st, w\<lparr>w_store := t, w_disk := f\<rparr>)"
    and t: "invar t" "view t = view (w_store w)" "st_manifest st = m" by (rule refreshed [OF a]) blast
  have m: "man mk (view t) = Some m" "replay X (view t) m = Some d" "db_cfg db = cfg"
    using a t(2) by (auto simp: start_def)
  then have "apply_entries X (view t) (Log m) (the (base_of X (view t) (Snapshot m))) = Some d"
    by (auto simp: replay_def split: option.splits)
  then have "\<forall>e \<in> set (Log m). view t (eKey e) \<noteq> None"
    using apply_entries_bodies by (fastforce simp: body_at_def)
  from sweep_alone [OF t(1) this order, of "gcGracePeriod (db_opts db)" now] obtain u where
    u: "sweep cfg None m (gcGracePeriod (db_opts db)) now ord t = (None, u)" "invar u"
      "\<And>k. view u k = view t k \<or> (garbage cfg m k \<and> view u k = None)"
      "gcGracePeriod (db_opts db) \<le> 0 \<longrightarrow> (\<forall>k. garbage cfg m k \<longrightarrow> view u k = None)" by blast
  have "db_GC X None now ord db w = (None, db\<lparr>db_st := st\<rparr>, w\<lparr>w_store := u, w_disk := f\<rparr>)"
    using r t(3) m(3) u(1) by (simp add: db_GC_def GC_def on_store_def)
  moreover have "man mk (view u) = Some m"
    using u(3) [of mk] manifest_not_garbage [OF cfg_law] m(1) by (metis man_cong)
  moreover have "replay X (view u) m = Some d"
  proof -
    have "body_at (view u) k = body_at (view t) k" if "k \<in> refs m" for k
      using u(3) [of k] refs_not_garbage [OF l that] by (simp add: body_at_def)
    then show ?thesis using m(2) replay_cong [of m "view u" "view t" X] by simp
  qed
  ultimately show ?thesis using u t(2)
    by (intro exI [of _ "db\<lparr>db_st := st\<rparr>"] exI [of _ "w\<lparr>w_store := u, w_disk := f\<rparr>"]) simp
qed

end

section \<open>Properties\<close>

text \<open>
  C38: \<^verbatim>\<open>groupByEpoch\<close> partitions the keys: each epoch is listed once, with exactly the keys whose
  first path segment below the prefix it is, in their order, and no epoch without keys.
\<close>

theorem groupByEpoch_partitions:
  "distinct (map fst (groupByEpoch keys p)) \<and>
   ((ep, ks) \<in> set (groupByEpoch keys p) \<longleftrightarrow> ks = filter (\<lambda>k. epochOf p k = Some ep) keys \<and> ks \<noteq> [])"
  using groupByEpoch_distinct groupByEpoch_set by blast

end
