(* ===== verification/Runs.thy ===== *)
theory Runs
  imports Sample Gc_Safety
begin

text \<open>
  Concrete runs of the commit loop on the sample database while another client commits: one in
  which the closure's changeset is rebased and committed, and one in which a rebased attempt is
  rolled back.  The runs are computed step by step on the views of the stores, so no manifest has
  to be encoded.
\<close>

section \<open>The store, step by step\<close>

abbreviation sh :: "'s \<Rightarrow> ('s \<Rightarrow> 's) list \<Rightarrow> 's shared" where
  "sh s fs \<equiv> \<lparr>sh_base = s, sh_script = fs, sh_faults = []\<rparr>"

lemma Compute_eq [simp]: "Compute sample_md5 a = Compute sample_md5 b \<longleftrightarrow> a = b"
  using sample.Compute_inj by auto

lemma sample_Put:
  "\<not> (IfMatch c \<noteq> '''' \<and> IfNoneMatch c) \<Longrightarrow> mem_Put sample_md5 None k (Inr b) c s =
     (if cond_ok c (mem_view s k) then (Inr (Compute sample_md5 b), sample_put k b s)
      else (Inl ErrPreconditionFailed, s))"
  by (auto simp: mem_Put_cases sample_put_def NoCondition_def cond_ok_def)

lemma sample_Get:
  "mem_Get None k s = (case mem_view s k of None \<Rightarrow> (Inl ErrNotFound, s)
     | Some (b, e) \<Rightarrow> (Inr (Inr b, e), s))"
  by (simp add: mem_Get_def mem_view_def split: option.splits)

lemma sh_op_turn:
  "sh_op f bad (sh s []) = (case f s of (r, t) \<Rightarrow> (r, sh t []))"
  "sh_op f bad (sh s (g # fs)) = (case f (g s) of (r, t) \<Rightarrow> (r, sh t fs))"
  by (simp_all add: sh_op_def sh_turn_def split: prod.splits)

lemma sample_store:
  "Put (cfg_store sample_cfg) None k b c = sh_op (mem_Put sample_md5 None k b c) Inl"
  "Get (cfg_store sample_cfg) None k = sh_op (mem_Get None k) Inl"
  "Delete (cfg_store sample_cfg) None k = sh_op (mem_Delete None k) Some"
  by (simp_all add: sample_cfg_defs shared_store_def mem_store_def)

lemma sample_cfg_sel [simp]:
  "manifestKey sample_cfg = ''p/manifest.json''" "cfg_prefix sample_cfg = ''p/''" "schemaVer sample_cfg = 0"
  "maxRetries sample_cfg = 10"
  by (simp_all add: sample_cfg_defs)

lemma cond_etag:
  "cond_ok \<lparr>IfMatch = Compute sample_md5 a, IfNoneMatch = False\<rparr> x \<longleftrightarrow>
     (\<exists>b. x = Some (b, Compute sample_md5 a))"
  by (simp add: cond_ok_def sample.Compute_nonempty)

lemma sample_load:
  assumes "mem_view s ''p/manifest.json'' = Some (encode_manifest m, e)" and "wire_ok m"
    and "validate m = None"
  shows "loadManifest (cfg_store sample_cfg) None ''p/manifest.json'' (sh s []) = (Inr (m, e), sh s [])"
    "loadManifest (cfg_store sample_cfg) None ''p/manifest.json'' (sh s (id # fs)) = (Inr (m, e), sh s fs)"
  using assms by (simp_all add: loadManifest_def sample_store sh_op_turn sample_Get decode_encode_manifest)

lemma cond_none [simp]: "cond_ok \<lparr>IfMatch = '''', IfNoneMatch = False\<rparr> x"
  by (simp add: cond_ok_def)

lemmas run_simps = on_store_def sample_store sh_op_turn sample_Put sample_Get cond_etag Let_def

section \<open>A clean rebase\<close>

text \<open>The other client commits before the changeset is uploaded.\<close>

definition join :: "MemBlobStore \<Rightarrow> MemBlobStore" where
  "join s = (if s = base_store then next_store else s)"

lemma base_epoch: "epoch base_manifest = ''s''" "epoch next_manifest = ''s''"
  by (simp_all add: epoch_def base_manifest_def next_manifest_def) code_simp+

lemma base_neq_next: "encode_manifest base_manifest \<noteq> encode_manifest next_manifest"
  using encode_manifest_inj [OF base_wire(1) next_wire(1)]
  by (auto simp: base_manifest_def next_manifest_def)

lemma rebase_capture:
  "phaseCapture rows_ext sample_cfg None (set_a CHR ''1'') initLoop base_handle (sample_world [join]) =
     (Again, \<lparr>needCapture = False, ls_cs = ''a01'', csKey = ''p/changesets/s/cs-a.bin'',
              release = Some (CHR ''0'', CHR ''0''), orphan = ''''\<rparr>,
      base_handle\<lparr>st_conn := OpenConn (CHR ''1'', CHR ''0'')\<rparr>,
      \<lparr>w_store = sh (sample_put ''p/changesets/s/cs-a.bin'' ''a01'' next_store) [], w_disk = Map.empty,
       w_io = [], w_uuid = 2\<rparr>)"
  by (simp add: phaseCapture_def capture_def base_handle_def sample_world_def set_a_def initLoop_def
      uploadChangeset_def new_uuid_def base_epoch rows_ext_def rows_changeset_def run_simps NoCondition_def
      join_def)

text \<open>The changeset on top of the base, and on top of the other commit.\<close>

definition first_try :: manifest where
  "first_try = stamp (appendLog base_manifest
     \<lparr>eKey = ''p/changesets/s/cs-a.bin'', eSeq = 1, eSize = 3\<rparr>)"

definition rebased_manifest :: manifest where
  "rebased_manifest = stamp (appendLog next_manifest
     \<lparr>eKey = ''p/changesets/s/cs-a.bin'', eSeq = 2, eSize = 3\<rparr>)"

lemma try_wire: "validate first_try = None" "validate rebased_manifest = None"
  by (simp_all add: first_try_def rebased_manifest_def validate_def base_manifest_def next_manifest_def
      appendLog_def stamp_def is_int64_def add64_def wrap64_def manifestFormatVersion_def)

lemma rebase_rebase:
  "phaseCommit rows_ext sample_cfg None ''db''
     \<lparr>needCapture = False, ls_cs = ''a01'', csKey = ''p/changesets/s/cs-a.bin'',
      release = Some (CHR ''0'', CHR ''0''), orphan = ''''\<rparr>
     (base_handle\<lparr>st_conn := OpenConn (CHR ''1'', CHR ''0'')\<rparr>)
     \<lparr>w_store = sh (sample_put ''p/changesets/s/cs-a.bin'' ''a01'' next_store) [], w_disk = Map.empty,
      w_io = [], w_uuid = 2\<rparr> =
   (Again, \<lparr>needCapture = False, ls_cs = ''a01'', csKey = ''p/changesets/s/cs-a.bin'',
            release = Some (CHR ''0'', CHR ''0''), orphan = ''''\<rparr>,
    \<lparr>st_conn = OpenConn (CHR ''1'', CHR ''5''), localSeq = 1, snapshotKey = ''p/snapshots/s.sqlite'',
     st_manifest = next_manifest, st_etag = Compute sample_md5 (encode_manifest next_manifest)\<rparr>,
    \<lparr>w_store = sh (sample_put ''p/changesets/s/cs-a.bin'' ''a01'' next_store) [], w_disk = Map.empty,
     w_io = [], w_uuid = 2\<rparr>)"
proof -
  let ?s = "sample_put ''p/changesets/s/cs-a.bin'' ''a01'' next_store"
  have "add64 (Seq base_manifest) 1 = 1" by (simp add: base_manifest_def add64_def wrap64_def)
  then have p: "putManifest (cfg_store sample_cfg) None ''p/manifest.json''
      (appendLog base_manifest \<lparr>eKey = ''p/changesets/s/cs-a.bin'', eSeq = add64 (Seq base_manifest) 1, eSize = 3\<rparr>)
      \<lparr>IfMatch = Compute sample_md5 (encode_manifest base_manifest), IfNoneMatch = False\<rparr> (sh ?s []) =
      ((Inl ErrPreconditionFailed, first_try), sh ?s [])"
    using try_wire base_neq_next by (simp add: putManifest_def run_simps first_try_def next_view)
  have l: "loadManifest (cfg_store sample_cfg) None ''p/manifest.json'' (sh ?s []) =
      (Inr (next_manifest, Compute sample_md5 (encode_manifest next_manifest)), sh ?s [])"
    by (rule sample_load) (simp_all add: next_view next_wire)
  have r: "rebase rows_ext (cfg_store sample_cfg) None 0 (Log next_manifest) (OpenConn (CHR ''1'', CHR ''0'')) (sh ?s [])
      = (Inr True, OpenConn (CHR ''1'', CHR ''5''), sh ?s [])"
    by (simp add: next_manifest_def applyMissingEntry_def run_simps next_view applyChangeset_def rows_ext_def)
  have n: "bSeq (Snapshot next_manifest) = 0" "bKey (Snapshot next_manifest) = ''p/snapshots/s.sqlite''"
    "Seq next_manifest = 1" by (simp_all add: next_manifest_def)
  show ?thesis
    by (simp add: phaseCommit_def casManifest_def phaseRebase_def base_handle_def Let_def on_store_def p l r n)
qed

lemma rebase_commit:
  "\<exists>ls st w. phaseCommit rows_ext sample_cfg None ''db''
     \<lparr>needCapture = False, ls_cs = ''a01'', csKey = ''p/changesets/s/cs-a.bin'',
      release = Some (CHR ''0'', CHR ''0''), orphan = ''''\<rparr>
     \<lparr>st_conn = OpenConn (CHR ''1'', CHR ''5''), localSeq = 1, snapshotKey = ''p/snapshots/s.sqlite'',
      st_manifest = next_manifest, st_etag = Compute sample_md5 (encode_manifest next_manifest)\<rparr>
     \<lparr>w_store = sh (sample_put ''p/changesets/s/cs-a.bin'' ''a01'' next_store) [], w_disk = Map.empty,
      w_io = [], w_uuid = 2\<rparr> = (Return None, ls, st, w) \<and>
   mem_view (sh_base (w_store w)) ''p/manifest.json'' =
     Some (encode_manifest rebased_manifest, Compute sample_md5 (encode_manifest rebased_manifest))"
proof -
  have "add64 (Seq next_manifest) 1 = 2" by (simp add: next_manifest_def add64_def wrap64_def)
  then show ?thesis
    using try_wire by (simp add: phaseCommit_def casManifest_def releaseSave_def putManifest_def run_simps next_view rebased_manifest_def)
qed

text \<open>The run commits at the second attempt, and no rebased attempt is rolled back.\<close>

lemma loop_again:
  assumes "updateAttempt X cfg ctx path fn a ls st w = (Again, ls', st', w')"
  shows "rolls_back_rebase X cfg ctx path fn (Suc n) a ls st w \<longleftrightarrow>
      \<not> needCapture ls \<and> needCapture ls' \<or> rolls_back_rebase X cfg ctx path fn n (Suc a) ls' st' w'"
    "updateLoop X cfg ctx path fn (Suc n) a ls st w = updateLoop X cfg ctx path fn n (Suc a) ls' st' w'"
  using assms by simp_all

lemma loop_return:
  assumes "updateAttempt X cfg ctx path fn a ls st w = (Return r, ls', st', w')"
  shows "rolls_back_rebase X cfg ctx path fn (Suc n) a ls st w \<longleftrightarrow> \<not> needCapture ls \<and> r \<noteq> None"
    "updateLoop X cfg ctx path fn (Suc n) a ls st w = (r, ls', st', w')"
  using assms by simp_all

lemma attempt_eq:
  assumes "w_io w = []"
  shows "needCapture ls \<Longrightarrow> phaseCapture X cfg ctx fn ls st w = (Again, ls', st', w') \<Longrightarrow>
      updateAttempt X cfg ctx path fn a ls st w = phaseCommit X cfg ctx path ls' st' w'"
    "\<not> needCapture ls \<Longrightarrow>
      updateAttempt X cfg ctx path fn a ls st w = phaseCommit X cfg ctx path ls st w"
  using assms by (simp_all add: updateAttempt_def beginAttempt_def backoff_wait_def)

lemma interrupt_again:
  assumes "beginAttempt X cfg ctx fn a ls st w = (Again, ls1, st1, w1)" and "w_io w1 = []"
    and "phaseCommit X cfg ctx path ls1 st1 w1 = (res, ls2, st2, w2)"
  shows "interrupted_release X cfg ctx path fn (Suc n) a ls st w \<longleftrightarrow>
    res = Again \<and> interrupted_release X cfg ctx path fn n (Suc a) ls2 st2 w2"
  using assms by (cases res) (simp_all add: calm_release)

lemma phaseCommit_released:
  "phaseCommit X cfg ctx path ls st w = (Return None, ls', st', w') \<Longrightarrow> release ls' = None"
  by (auto simp: phaseCommit_def phaseRebase_def Let_def
      split: prod.splits sum.splits if_splits option.splits bool.splits)

lemma rebase_run:
  "\<not> rolls_back_rebase rows_ext sample_cfg None ''db'' (set_a CHR ''1'') 10 0 initLoop base_handle
     (sample_world [join])"
  "\<not> interrupted_release rows_ext sample_cfg None ''db'' (set_a CHR ''1'') 10 0 initLoop base_handle
     (sample_world [join])"
  "\<exists>st w. doUpdate rows_ext sample_cfg None ''db'' (set_a CHR ''1'') base_handle (sample_world [join]) =
     (None, st, w) \<and> man ''p/manifest.json'' (mem_view (sh_base (w_store w))) = Some rebased_manifest"
proof -
  let ?ls = "\<lparr>needCapture = False, ls_cs = ''a01'', csKey = ''p/changesets/s/cs-a.bin'',
      release = Some (CHR ''0'', CHR ''0''), orphan = ''''\<rparr>"
  have io: "w_io (sample_world [join]) = []" "needCapture initLoop"
    by (simp_all add: sample_world_def initLoop_def)
  note u1 = attempt_eq(1) [OF io rebase_capture, of "''db''" 0, unfolded rebase_rebase]
  obtain ls st w where c: "phaseCommit rows_ext sample_cfg None ''db'' ?ls
     \<lparr>st_conn = OpenConn (CHR ''1'', CHR ''5''), localSeq = 1, snapshotKey = ''p/snapshots/s.sqlite'',
      st_manifest = next_manifest, st_etag = Compute sample_md5 (encode_manifest next_manifest)\<rparr>
     \<lparr>w_store = sh (sample_put ''p/changesets/s/cs-a.bin'' ''a01'' next_store) [], w_disk = Map.empty,
      w_io = [], w_uuid = 2\<rparr> = (Return None, ls, st, w)" and
    m: "mem_view (sh_base (w_store w)) ''p/manifest.json'' =
     Some (encode_manifest rebased_manifest, Compute sample_md5 (encode_manifest rebased_manifest))"
    using rebase_commit by blast
  have u2: "updateAttempt rows_ext sample_cfg None ''db'' (set_a CHR ''1'') (Suc 0) ?ls
     \<lparr>st_conn = OpenConn (CHR ''1'', CHR ''5''), localSeq = 1, snapshotKey = ''p/snapshots/s.sqlite'',
      st_manifest = next_manifest, st_etag = Compute sample_md5 (encode_manifest next_manifest)\<rparr>
     \<lparr>w_store = sh (sample_put ''p/changesets/s/cs-a.bin'' ''a01'' next_store) [], w_disk = Map.empty,
      w_io = [], w_uuid = 2\<rparr> = (Return None, ls, st, w)"
    unfolding c [symmetric] by (rule attempt_eq(2)) simp_all
  have n: "(10 :: nat) = Suc (Suc 8)" by simp
  show "\<not> rolls_back_rebase rows_ext sample_cfg None ''db'' (set_a CHR ''1'') 10 0 initLoop base_handle
     (sample_world [join])"
    unfolding n loop_again(1) [OF u1] loop_return(1) [OF u2] by simp
  have b1: "beginAttempt rows_ext sample_cfg None (set_a CHR ''1'') 0 initLoop base_handle (sample_world [join]) =
     (Again, ?ls, base_handle\<lparr>st_conn := OpenConn (CHR ''1'', CHR ''0'')\<rparr>,
      \<lparr>w_store = sh (sample_put ''p/changesets/s/cs-a.bin'' ''a01'' next_store) [], w_disk = Map.empty,
       w_io = [], w_uuid = 2\<rparr>)"
    using rebase_capture io by (simp add: beginAttempt_def backoff_wait_def initLoop_def)
  have b2: "beginAttempt rows_ext sample_cfg None (set_a CHR ''1'') (Suc 0) ?ls st' w' = (Again, ?ls, st', w')"
    if "w_io w' = []" for st' and w' :: "MemBlobStore shared world"
    using that by (simp add: beginAttempt_def backoff_wait_def)
  show "\<not> interrupted_release rows_ext sample_cfg None ''db'' (set_a CHR ''1'') 10 0 initLoop base_handle
     (sample_world [join])"
    using interrupt_again [OF b1 _ rebase_rebase, of "Suc 8"] interrupt_again [OF b2 _ c, of 8] by simp
  have "nat (maxRetries sample_cfg) = Suc (Suc 8)" by simp
  then have "doUpdate rows_ext sample_cfg None ''db'' (set_a CHR ''1'') base_handle (sample_world [join]) = (None, st, w)"
    unfolding doUpdate_def
    by (simp only: loop_again(2) [OF u1] loop_return(2) [OF u2] phaseCommit_released [OF c] prod.case if_True simp_thms)
  moreover have "wire_ok rebased_manifest"
    by (simp add: rebased_manifest_def wire_ok_def appendLog_def stamp_def next_manifest_def is_int64_def
        min_int64_def max_int64_def is_ascii_def manifestFormatVersion_def)
  ultimately show "\<exists>st w. doUpdate rows_ext sample_cfg None ''db'' (set_a CHR ''1'') base_handle (sample_world [join]) =
     (None, st, w) \<and> man ''p/manifest.json'' (mem_view (sh_base (w_store w))) = Some rebased_manifest"
    using m try_wire by (auto simp: man_eq decode_encode_manifest)
qed

section \<open>A rebase that is rolled back\<close>

text \<open>
  The closure: row \<^verbatim>\<open>b\<close> becomes 7 if row \<^verbatim>\<open>a\<close> is 2, otherwise row \<^verbatim>\<open>a\<close> becomes 1.
\<close>

definition flip :: "rows txn" where
  "flip d = (None, if fst d = CHR ''2'' then (fst d, CHR ''7'') else (CHR ''1'', snd d), 1)"

text \<open>Two commits of another client, each on top of the manifest before it.\<close>

definition extended :: "manifest \<Rightarrow> string \<Rightarrow> manifest" where
  "extended m k = stamp (appendLog m \<lparr>eKey = k, eSeq = Seq m + 1, eSize = 3\<rparr>)"

definition man_b :: manifest where "man_b = extended base_manifest ''p/changesets/s/cs-b.bin''"
definition man_c :: manifest where "man_c = extended man_b ''p/changesets/s/cs-c.bin''"
definition man_d :: manifest where "man_d = extended man_c ''p/changesets/s/cs-aa.bin''"

definition commit_b :: "MemBlobStore \<Rightarrow> MemBlobStore" where
  "commit_b s = sample_put ''p/manifest.json'' (encode_manifest man_b)
     (sample_put ''p/changesets/s/cs-b.bin'' ''b01'' s)"

definition commit_c :: "MemBlobStore \<Rightarrow> MemBlobStore" where
  "commit_c s = sample_put ''p/manifest.json'' (encode_manifest man_c)
     (sample_put ''p/changesets/s/cs-c.bin'' ''a02'' s)"

definition sample_del :: "string \<Rightarrow> MemBlobStore \<Rightarrow> MemBlobStore" where
  "sample_del k s = snd (mem_Delete None k s)"

lemma sample_Delete: "mem_Delete None k s = (None, sample_del k s)"
  by (simp add: sample_del_def mem_Delete_def)

lemma sample_del_view [simp]: "mem_view (sample_del k s) = (mem_view s)(k := None)"
  by (simp add: sample_del_def mem_Delete_def mem_view_delete)

lemma wedge_log:
  "Log man_b = [\<lparr>eKey = ''p/changesets/s/cs-b.bin'', eSeq = 1, eSize = 3\<rparr>]"
  "Log man_c = Log man_b @ [\<lparr>eKey = ''p/changesets/s/cs-c.bin'', eSeq = 2, eSize = 3\<rparr>]"
  "Log man_d = Log man_c @ [\<lparr>eKey = ''p/changesets/s/cs-aa.bin'', eSeq = 3, eSize = 3\<rparr>]"
  "Seq man_b = 1" "Seq man_c = 2" "Seq man_d = 3" "FormatVersion man_b = 1" "FormatVersion man_c = 1"
  "FormatVersion man_d = 1" "SchemaVersion man_b = 0" "SchemaVersion man_c = 0" "SchemaVersion man_d = 0"
  "Snapshot man_b = Snapshot base_manifest" "Snapshot man_c = Snapshot base_manifest"
  "Snapshot man_d = Snapshot base_manifest"
  by (simp_all add: man_b_def man_c_def man_d_def extended_def appendLog_def base_manifest_def
      manifestFormatVersion_def)

lemma wedge_snap:
  "Snapshot base_manifest = \<lparr>bKey = ''p/snapshots/s.sqlite'', bSeq = 0, bSize = 2\<rparr>"
  "Seq base_manifest = 0" "Log base_manifest = []"
  by (simp_all add: base_manifest_def)

lemma wedge_valid: "validate man_b = None" "validate man_c = None" "validate man_d = None"
  by (simp_all add: validate_def wedge_log wedge_snap is_int64_def add64_def wrap64_def manifestFormatVersion_def)

lemma wedge_wire: "wire_ok man_b" "wire_ok man_c" "wire_ok man_d"
  by (simp_all add: wire_ok_def wedge_log wedge_snap is_int64_def min_int64_def max_int64_def is_ascii_def)

lemma wedge_distinct:
  "encode_manifest base_manifest \<noteq> encode_manifest man_b" "encode_manifest man_b \<noteq> encode_manifest man_c"
  using encode_manifest_inj [OF base_wire(1) wedge_wire(1)] encode_manifest_inj [OF wedge_wire(1,2)]
    wedge_log(4,5) wedge_snap(2) by (metis zero_neq_one, metis one_neq_zero numeral_One numeral_eq_iff semiring_norm(83))

text \<open>The states of the run.\<close>

definition wedge_st :: "char \<Rightarrow> char \<Rightarrow> manifest \<Rightarrow> rows commitState" where
  "wedge_st a b m =
     \<lparr>st_conn = OpenConn (a, b), localSeq = Seq m, snapshotKey = ''p/snapshots/s.sqlite'',
      st_manifest = m, st_etag = Compute sample_md5 (encode_manifest m)\<rparr>"

definition wedge_ls :: "rows loopState" where
  "wedge_ls = \<lparr>needCapture = False, ls_cs = ''a01'', csKey = ''p/changesets/s/cs-a.bin'',
     release = Some (CHR ''0'', CHR ''0''), orphan = ''''\<rparr>"

definition wedge_world ::
  "MemBlobStore \<Rightarrow> (MemBlobStore \<Rightarrow> MemBlobStore) list \<Rightarrow> nat \<Rightarrow> MemBlobStore shared world" where
  "wedge_world s fs n = \<lparr>w_store = sh s fs, w_disk = Map.empty, w_io = [], w_uuid = n\<rparr>"

abbreviation "store_a \<equiv> sample_put ''p/changesets/s/cs-a.bin'' ''a01'' base_store"
abbreviation "store_b \<equiv> commit_b store_a"
abbreviation "store_c \<equiv> commit_c store_b"
abbreviation "store_aa \<equiv> sample_put ''p/changesets/s/cs-aa.bin'' ''b07''
  (sample_del ''p/changesets/s/cs-a.bin'' store_c)"

lemma wedge_capture:
  "phaseCapture rows_ext sample_cfg None flip initLoop base_handle
     (sample_world [id, commit_b, id, id, commit_c]) =
   (Again, wedge_ls, wedge_st CHR ''1'' CHR ''0'' base_manifest, wedge_world store_a [commit_b, id, id, commit_c] 2)"
  by (simp add: phaseCapture_def capture_def base_handle_def sample_world_def flip_def initLoop_def
      uploadChangeset_def new_uuid_def base_epoch rows_ext_def rows_changeset_def run_simps NoCondition_def
      wedge_st_def wedge_ls_def wedge_world_def wedge_snap)

lemma wedge_rebase:
  "phaseCommit rows_ext sample_cfg None ''db'' wedge_ls (wedge_st CHR ''1'' CHR ''0'' base_manifest)
     (wedge_world store_a [commit_b, id, id, commit_c] 2) =
   (Again, wedge_ls, wedge_st CHR ''1'' CHR ''1'' man_b, wedge_world store_b [commit_c] 2)"
proof -
  have "validate (stamp (appendLog base_manifest \<lparr>eKey = ''p/changesets/s/cs-a.bin'', eSeq = 1, eSize = 3\<rparr>)) = None"
    using try_wire(1) by (simp add: first_try_def)
  moreover have "add64 (Seq base_manifest) 1 = 1" by (simp add: wedge_snap add64_def wrap64_def)
  ultimately have p: "\<exists>m. putManifest (cfg_store sample_cfg) None ''p/manifest.json'' (appendLog base_manifest
      \<lparr>eKey = ''p/changesets/s/cs-a.bin'', eSeq = add64 (Seq base_manifest) 1, eSize = 3\<rparr>)
      \<lparr>IfMatch = Compute sample_md5 (encode_manifest base_manifest), IfNoneMatch = False\<rparr>
      (sh store_a [commit_b, id, id, commit_c]) = ((Inl ErrPreconditionFailed, m), sh store_b [id, id, commit_c])"
    using wedge_distinct by (simp add: putManifest_def run_simps commit_b_def)
  have l: "loadManifest (cfg_store sample_cfg) None ''p/manifest.json'' (sh store_b [id, id, commit_c]) =
      (Inr (man_b, Compute sample_md5 (encode_manifest man_b)), sh store_b [id, commit_c])"
    by (rule sample_load) (simp_all add: commit_b_def wedge_wire wedge_valid)
  have r: "rebase rows_ext (cfg_store sample_cfg) None 0 (Log man_b) (OpenConn (CHR ''1'', CHR ''0''))
      (sh store_b [id, commit_c]) = (Inr True, OpenConn (CHR ''1'', CHR ''1''), sh store_b [commit_c])"
    by (simp add: wedge_log applyMissingEntry_def run_simps commit_b_def applyChangeset_def rows_ext_def)
  show ?thesis
    using p by (auto simp: phaseCommit_def casManifest_def phaseRebase_def wedge_st_def wedge_ls_def wedge_world_def Let_def
        on_store_def l r wedge_snap wedge_log(4,13))
qed

lemma wedge_rollback:
  "phaseCommit rows_ext sample_cfg None ''db'' wedge_ls (wedge_st CHR ''1'' CHR ''1'' man_b)
     (wedge_world store_b [commit_c] 2) =
   (Again, wedge_ls\<lparr>needCapture := True, release := None, orphan := ''p/changesets/s/cs-a.bin''\<rparr>,
    wedge_st CHR ''2'' CHR ''0'' man_c, wedge_world store_c [] 2)"
proof -
  have "validate (stamp (appendLog man_b \<lparr>eKey = ''p/changesets/s/cs-a.bin'', eSeq = 2, eSize = 3\<rparr>)) = None"
    by (simp add: validate_def appendLog_def stamp_def wedge_log wedge_snap is_int64_def add64_def wrap64_def
        manifestFormatVersion_def)
  moreover have "add64 (Seq man_b) 1 = 2" by (simp add: wedge_log add64_def wrap64_def)
  ultimately have p: "\<exists>m. putManifest (cfg_store sample_cfg) None ''p/manifest.json'' (appendLog man_b
      \<lparr>eKey = ''p/changesets/s/cs-a.bin'', eSeq = add64 (Seq man_b) 1, eSize = 3\<rparr>)
      \<lparr>IfMatch = Compute sample_md5 (encode_manifest man_b), IfNoneMatch = False\<rparr>
      (sh store_b [commit_c]) = ((Inl ErrPreconditionFailed, m), sh store_c [])"
    using wedge_distinct by (simp add: putManifest_def run_simps commit_c_def)
  have l: "loadManifest (cfg_store sample_cfg) None ''p/manifest.json'' (sh store_c []) =
      (Inr (man_c, Compute sample_md5 (encode_manifest man_c)), sh store_c [])"
    by (rule sample_load) (simp_all add: commit_c_def wedge_wire wedge_valid)
  have r: "rebase rows_ext (cfg_store sample_cfg) None 1 (Log man_c) (OpenConn (CHR ''1'', CHR ''1''))
      (sh store_c []) = (Inr False, OpenConn (CHR ''1'', CHR ''1''), sh store_c [])"
    by (simp add: wedge_log applyMissingEntry_def run_simps commit_c_def applyChangeset_def rows_ext_def)
  have a: "applyLog rows_ext (cfg_store sample_cfg) None (Log man_c) 1 (OpenConn (CHR ''0'', CHR ''0''))
      (sh store_c []) = ((2, None), OpenConn (CHR ''2'', CHR ''0''), sh store_c [])"
    by (simp add: applyLog_def wedge_log run_simps commit_c_def applyChangeset_def rows_ext_def)
  show ?thesis
    using p by (auto simp: phaseCommit_def casManifest_def phaseRebase_def rollbackAndResync_def rollback_def syncToManifest_def
        needRefresh_def wedge_st_def wedge_ls_def wedge_world_def Let_def on_store_def l r a wedge_snap
        wedge_log(4,5,14))
qed

lemma wedge_again:
  "phaseCapture rows_ext sample_cfg None flip
     (wedge_ls\<lparr>needCapture := True, release := None, orphan := ''p/changesets/s/cs-a.bin''\<rparr>)
     (wedge_st CHR ''2'' CHR ''0'' man_c) (wedge_world store_c [] 2) =
   (Again, wedge_ls\<lparr>ls_cs := ''b07'', csKey := ''p/changesets/s/cs-aa.bin'', release := Some (CHR ''2'', CHR ''0'')\<rparr>,
    wedge_st CHR ''2'' CHR ''7'' man_c, wedge_world store_aa [] 3)"
proof -
  have "epoch man_c = ''s''" using base_epoch(1) epoch_cong [of man_c base_manifest] by (simp add: wedge_log)
  moreover have "uuid_string rows_ext 2 = ''aa''" by (simp add: rows_ext_def numeral_2_eq_2)
  moreover have "sq_changeset rows_ext (CHR ''2'', CHR ''0'') (CHR ''2'', CHR ''7'') = ''b07''"
    by (simp add: rows_ext_def rows_changeset_def)
  ultimately show ?thesis
    by (simp add: phaseCapture_def capture_def flip_def uploadChangeset_def new_uuid_def run_simps sample_Delete
        NoCondition_def wedge_st_def wedge_ls_def wedge_world_def)
qed

lemma wedge_commit:
  "phaseCommit rows_ext sample_cfg None ''db''
     (wedge_ls\<lparr>ls_cs := ''b07'', csKey := ''p/changesets/s/cs-aa.bin'', release := Some (CHR ''2'', CHR ''0'')\<rparr>)
     (wedge_st CHR ''2'' CHR ''7'' man_c) (wedge_world store_aa [] 3) =
   (Return None, wedge_ls\<lparr>ls_cs := ''b07'', csKey := ''p/changesets/s/cs-aa.bin'', release := None\<rparr>,
    wedge_st CHR ''2'' CHR ''7'' man_d,
    wedge_world (sample_put ''p/manifest.json'' (encode_manifest man_d) store_aa) [] 3)"
proof -
  have "add64 (Seq man_c) 1 = 3" by (simp add: wedge_log add64_def wrap64_def)
  moreover have "stamp (appendLog man_c \<lparr>eKey = ''p/changesets/s/cs-aa.bin'', eSeq = 3, eSize = 3\<rparr>) = man_d"
    by (simp add: man_d_def extended_def wedge_log)
  ultimately show ?thesis
    by (simp add: phaseCommit_def casManifest_def releaseSave_def putManifest_def run_simps commit_c_def wedge_valid wedge_st_def wedge_ls_def
        wedge_world_def wedge_log(6))
qed

text \<open>The run: three attempts, the last of which commits.\<close>

lemma wedge_run:
  "doUpdate rows_ext sample_cfg None ''db'' flip base_handle (sample_world [id, commit_b, id, id, commit_c]) =
     (None, wedge_st CHR ''2'' CHR ''7'' man_d,
      wedge_world (sample_put ''p/manifest.json'' (encode_manifest man_d) store_aa) [] 3)"
proof -
  have io: "w_io (sample_world [id, commit_b, id, id, commit_c]) = []" "needCapture initLoop"
    "\<And>s fs n. w_io (wedge_world s fs n) = []" "\<not> needCapture wedge_ls"
    "needCapture (wedge_ls\<lparr>needCapture := True, release := None, orphan := ''p/changesets/s/cs-a.bin''\<rparr>)"
    by (simp_all add: sample_world_def initLoop_def wedge_world_def wedge_ls_def)
  note u1 = attempt_eq(1) [OF io(1,2) wedge_capture, of "''db''" 0, unfolded wedge_rebase]
  note u2 = attempt_eq(2) [OF io(3,4), of rows_ext sample_cfg None "''db''" flip "Suc 0"
      "wedge_st CHR ''1'' CHR ''1'' man_b" store_b "[commit_c]" 2, unfolded wedge_rollback]
  note u3 = attempt_eq(1) [OF io(3,5) wedge_again, of "''db''" "Suc (Suc 0)", unfolded wedge_commit]
  have "nat (maxRetries sample_cfg) = Suc (Suc (Suc 7))" by simp
  then show ?thesis
    unfolding doUpdate_def
    by (simp only: loop_again(2) [OF u1] loop_again(2) [OF u2] loop_return(2) [OF u3] prod.case if_True simp_thms) simp
qed

lemma wedge_replay:
  "replay rows_ext (mem_view (sample_put ''p/manifest.json'' (encode_manifest man_d) store_aa)) man_d = None"
  by (simp add: replay_def base_of_def body_at_def wedge_log wedge_snap base_view commit_b_def commit_c_def
      rows_ext_def apply_bytes_def)

section \<open>The other client keeps to the rules\<close>

lemma own_key_not_z: "own_key rows_ext cfg ep i \<noteq> ''p/changesets/s/cs-z.bin''"
proof (cases i)
  case 0
  have "rev (takeWhile (\<lambda>c. c \<noteq> CHR ''/'') (rev (own_key rows_ext cfg ep 0))) = ''cs-.bin''"
    using own_key_suffix [of rows_ext 0 cfg ep] by (simp add: rows_ext_def)
  with 0 show ?thesis by auto
next
  case (Suc n)
  then show ?thesis by (intro own_key_other) simp
qed

lemma own_not_z: "''p/changesets/s/cs-z.bin'' \<notin> own rows_ext sample_cfg ep"
  using own_key_not_z snap_key_form by (fastforce simp: own_def)

lemma own_not_mk: "''p/manifest.json'' \<notin> own rows_ext sample_cfg ep"
proof -
  have "own_key rows_ext sample_cfg ep i \<noteq> ''p/manifest.json''" for i by (simp add: own_key_def)
  then show ?thesis using snap_key_form by (fastforce simp: own_def)
qed

lemma join_env: "sample_env (mem_view base_store) (mem_view next_store)"
proof -
  have e: "extends base_manifest next_manifest" by (simp add: extends_def base_manifest_def next_manifest_def)
  have r: "refs next_manifest = insert ''p/changesets/s/cs-z.bin'' (refs base_manifest)"
    "''p/manifest.json'' \<notin> refs base_manifest" "''p/changesets/s/cs-z.bin'' \<notin> refs base_manifest"
    by (auto simp: refs_def base_manifest_def next_manifest_def)
  have b: "body_at (mem_view next_store) k = body_at (mem_view base_store) k"
    if "k \<noteq> ''p/manifest.json''" "k \<noteq> ''p/changesets/s/cs-z.bin''" for k
    using that by (simp add: next_view body_at_def)
  have "evolves sample_gen ''p/manifest.json'' K (mem_view base_store) (mem_view next_store)"
    if "\<And>ep. ''p/manifest.json'' \<notin> K ep" "\<And>ep. ''p/changesets/s/cs-z.bin'' \<notin> K ep" for K
    unfolding evolves_def base_man next_man option.inject
  proof (intro allI impI exI conjI disjI1 ballI)
    fix m k assume "base_manifest = m" and "k \<in> refs m \<union> K (epoch m)"
    then show "body_at (mem_view next_store) k = body_at (mem_view base_store) k"
      using that r(2,3) by (intro b) auto
  qed (use that e r in auto)
  moreover have "fresh_keys rows_ext sample_cfg sample_gen (mem_view next_store) n"
    if f: "fresh_keys rows_ext sample_cfg sample_gen (mem_view base_store) n" for n
  proof -
    have z: "k \<noteq> ''p/changesets/s/cs-z.bin''" if "k \<in> snap_keys rows_ext sample_cfg i" for k i
      using snap_key_form [OF that] by auto
    have s: "bKey (Snapshot next_manifest) = bKey (Snapshot base_manifest)"
      by (simp add: base_manifest_def next_manifest_def)
    show ?thesis
      using f z unfolding fresh_keys_def sample_cfg_sel base_man next_man option.inject
      by (auto simp: r(1) s own_key_not_z)
  qed
  ultimately show ?thesis
    using sample_good own_not_z own_not_mk by (simp add: sample_env_def rely_def)
qed

lemma join_invar: "shared_invar mem_view (mem_invar sample_md5) sample_env (w_store (sample_world [join]))"
  using join_env rely_refl
  by (auto simp: shared_invar_def sample_world_def join_def base_invar sample_env_def)

lemma base_linked:
  "linked_to ''p/manifest.json'' (shared_view mem_view) (shared_invar mem_view (mem_invar sample_md5) sample_env)
     base_manifest (Compute sample_md5 (encode_manifest base_manifest))"
proof -
  have "shared_invar mem_view (mem_invar sample_md5) sample_env (sh base_store [])"
    by (simp add: shared_invar_def base_invar)
  moreover have "shared_view mem_view (sh base_store []) ''p/manifest.json'' =
      Some (encode_manifest base_manifest, Compute sample_md5 (encode_manifest base_manifest))"
    by (simp add: shared_view_def base_view)
  ultimately show ?thesis
    unfolding linked_to_def using decode_encode_manifest [OF base_wire(1)] base_wire(2) by blast
qed

text \<open>Without the commit in between, the two commits of the other client leave a good database.\<close>

lemma wedge_others: "coherent rows_ext ''p/manifest.json'' (mem_view (commit_c (commit_b base_store)))"
proof -
  have m: "man ''p/manifest.json'' (mem_view (commit_c (commit_b base_store))) = Some man_c"
    by (simp add: commit_c_def man_put wedge_wire wedge_valid)
  have "''b01'' = sq_changeset rows_ext (CHR ''0'', CHR ''0'') (CHR ''0'', CHR ''1'')"
    "''a02'' = sq_changeset rows_ext (CHR ''0'', CHR ''0'') (CHR ''2'', CHR ''0'')"
    by (simp_all add: rows_ext_def rows_changeset_def)
  then have r: "recorded rows_ext ''b01''" "recorded rows_ext ''a02''" unfolding recorded_def by blast+
  have "manifest_inv man_c"
    by (simp add: manifest_inv_def wedge_log wedge_snap manifestFormatVersion_def)
  moreover have "replay rows_ext (mem_view (commit_c (commit_b base_store))) man_c \<noteq> None"
    by (simp add: replay_def base_of_def body_at_def wedge_log wedge_snap base_view commit_b_def commit_c_def
        rows_ext_def apply_bytes_def)
  moreover have "log_recorded rows_ext (mem_view (commit_c (commit_b base_store))) (Log man_c)"
    using r by (simp add: log_recorded_def body_at_def wedge_log commit_b_def commit_c_def)
  ultimately show ?thesis
    by (simp add: coherent_def m wedge_wire refs_def size_ok_def parallelDownloadThreshold_def wedge_log wedge_snap)
qed

lemma sample_start:
  "shared_view mem_view (w_store (sample_world fs)) = mem_view base_store" "w_uuid (sample_world fs) = Suc 0"
  "st_manifest base_handle = base_manifest" "synced base_handle"
  "st_etag base_handle = Compute sample_md5 (encode_manifest base_manifest)"
  "good rows_ext ''p/manifest.json'' (mem_view base_store)"
  "fresh_keys rows_ext sample_cfg sample_gen (mem_view base_store) (Suc 0)"
  "handle_ok rows_ext sample_gen ''p/manifest.json'' (mem_view base_store) base_handle"
  "linked_to ''p/manifest.json'' (shared_view mem_view) (shared_invar mem_view (mem_invar sample_md5) sample_env)
     base_manifest (Compute sample_md5 (encode_manifest base_manifest))"
  using sample_good sample_fresh base_handle_ok base_linked
  by (simp_all add: shared_view_def sample_world_def base_handle_def synced_def base_manifest_def)

section \<open>A sweep on an outdated manifest\<close>

text \<open>
  While \<^verbatim>\<open>GC\<close> runs on the manifest it has loaded, another client compacts and then commits into
  the new epoch, ten minutes after the objects of the database were written.
\<close>

definition ten_minutes :: int where "ten_minutes = 10 * 60 * 1000000000"

definition man_t :: manifest where
  "man_t =
     \<lparr>FormatVersion = 1, Seq = 2, SchemaVersion = 0,
      Snapshot = \<lparr>bKey = ''p/snapshots/t.sqlite'', bSeq = 1, bSize = 2\<rparr>,
      Log = [\<lparr>eKey = ''p/changesets/t/cs-x.bin'', eSeq = 2, eSize = 3\<rparr>]\<rparr>"

definition compact_commit :: "MemBlobStore \<Rightarrow> MemBlobStore" where
  "compact_commit s =
     sample_put ''p/manifest.json'' (encode_manifest man_t)
       (sample_put ''p/changesets/t/cs-x.bin'' ''a01''
         (sample_put ''p/snapshots/t.sqlite'' ''05'' (s\<lparr>clock := ten_minutes\<rparr>)))"

lemma clock_view [simp]: "mem_view (s\<lparr>clock := t\<rparr>) = mem_view s"
  by (rule ext) (simp add: mem_view_def)

lemma clock_invar [simp]: "mem_invar md5 (s\<lparr>clock := t\<rparr>) = mem_invar md5 s"
  by (simp add: mem_invar_def)

lemma sample_put_objects:
  "sample_put k b s = s\<lparr>objects := AList.update k
     \<lparr>mem_body = b, mem_etag = Compute sample_md5 b, mem_modTime = clock s\<rparr> (objects s)\<rparr>"
  by (simp add: sample_put_def mem_Put_cases NoCondition_def cond_ok_def)

lemma compact_commit_invar: "mem_invar sample_md5 (compact_commit next_store)"
  by (simp add: compact_commit_def base_invar)

lemma man_t_wire: "wire_ok man_t" "validate man_t = None" "manifest_inv man_t"
  by (simp_all add: wire_ok_def validate_def manifest_inv_def man_t_def is_int64_def add64_def
      wrap64_def min_int64_def max_int64_def is_ascii_def manifestFormatVersion_def)

lemma next_stat:
  "mem_Stat None ''p/snapshots/s.sqlite'' next_store =
     (Inr \<lparr>ETag = Compute sample_md5 ''00'', Size = 2, LastModified = 0\<rparr>, next_store)"
  by (simp add: mem_Stat_def next_store_def base_store_def sample_put_objects NewMemBlobStore_def)

lemma sh_List: "ListKeys (cfg_store sample_cfg) None p = sh_op (mem_List None p) Inl"
  "Stat (cfg_store sample_cfg) None k = sh_op (mem_Stat None k) Inl"
  "DeletePrefix (cfg_store sample_cfg) None k = sh_op (mem_DeletePrefix None k) Some"
  by (simp_all add: sample_cfg_defs shared_store_def mem_store_def)

lemma sh_sweepEpochs:
  "sweepEpochs (cfg_store sample_cfg) None p cur live es (sh s []) =
     (case sweepEpochs (mem_store sample_md5) None p cur live es s of (r, t) \<Rightarrow> (r, sh t []))"
proof (induction es arbitrary: s)
  case (Cons x es)
  obtain ep ks where x: "x = (ep, ks)" by (cases x)
  obtain r t where "mem_DeletePrefix None (p @ ep @ ''/'') s = (r, t)" by fastforce
  with Cons x show ?case by (cases r) (auto simp: sh_List sh_op_turn mem_store_def)
qed simp

lemma sh_sweepSnapshots:
  "sweepSnapshots (cfg_store sample_cfg) None cur grace now ks (sh s []) =
     (case sweepSnapshots (mem_store sample_md5) None cur grace now ks s of (r, t) \<Rightarrow> (r, sh t []))"
proof (induction ks arbitrary: s)
  case (Cons k ks)
  have g: "graceOver (cfg_store sample_cfg) None k grace now (sh s []) =
      (case graceOver (mem_store sample_md5) None k grace now s of (r, t) \<Rightarrow> (r, sh t []))" for s
    by (auto simp: graceOver_def sh_List sh_op_turn mem_store_def split: prod.splits sum.splits)
  obtain b t where "graceOver (mem_store sample_md5) None k grace now s = (b, t)" by fastforce
  moreover obtain r u where "mem_Delete None k t = (r, u)" by fastforce
  ultimately show ?case using Cons g
    by (cases b; cases r) (auto simp: sample_store sh_op_turn mem_store_def)
qed simp

lemma mem_List_alone:
  "\<exists>ks. mem_List None p s = (Inr ks, s) \<and> set ks = {k. HasPrefix k p \<and> mem_view s k \<noteq> None}"
  by (auto simp: mem_List_def mem_view_def map_of_eq_None_iff)

text \<open>The refresh reads the manifest and the log entry that is missing.\<close>

lemma stale_refresh:
  "refreshManifest rows_ext sample_cfg None ''db'' base_handle
     (wedge_world next_store [id, id, id, compact_commit] 1) =
   (None, wedge_st CHR ''0'' CHR ''5'' next_manifest, wedge_world next_store [id, compact_commit] 1)"
proof -
  have l: "loadManifest (cfg_store sample_cfg) None ''p/manifest.json'' (sh next_store [id, id, id, compact_commit]) =
      (Inr (next_manifest, Compute sample_md5 (encode_manifest next_manifest)), sh next_store [id, id, compact_commit])"
    by (rule sample_load) (simp_all add: next_view next_wire)
  have a: "applyLog rows_ext (cfg_store sample_cfg) None (Log next_manifest) 0 (OpenConn (CHR ''0'', CHR ''0''))
      (sh next_store [id, id, compact_commit]) = ((1, None), OpenConn (CHR ''0'', CHR ''5''), sh next_store [id, compact_commit])"
    by (simp add: applyLog_def next_manifest_def run_simps next_view applyChangeset_def rows_ext_def)
  have n: "Seq next_manifest = 1" "SchemaVersion next_manifest = 0"
    "Snapshot next_manifest = \<lparr>bKey = ''p/snapshots/s.sqlite'', bSeq = 0, bSize = 2\<rparr>"
    by (simp_all add: next_manifest_def)
  show ?thesis
    by (simp add: refreshManifest_def on_store_def wedge_world_def l schemaCheck_def syncToManifest_def
        needRefresh_def base_handle_def a n wedge_st_def)
qed

text \<open>The sweep, with the grace period of the default options.\<close>

lemma stale_sweep:
  obtains t where "sweep sample_cfg None next_manifest (gcGracePeriod (defaultOptions :: rows options)) ten_minutes id
      (sh next_store [id, compact_commit]) = (None, sh t [])"
    "man ''p/manifest.json'' (mem_view t) = Some man_t" "mem_view t ''p/changesets/t/cs-x.bin'' = None"
proof -
  let ?s = "compact_commit next_store" and ?p = "''p/changesets/''" and ?g = "gcGracePeriod (defaultOptions :: rows options)"
  let ?es = "Log next_manifest"
  obtain keys where k: "mem_List None ?p ?s = (Inr keys, ?s)"
    "set keys = {k. HasPrefix k ?p \<and> mem_view ?s k \<noteq> None}" using mem_List_alone by blast
  obtain s1 where s1: "sweepEpochs (mem_store sample_md5) None ?p ''s'' (eKey ` set ?es) (groupByEpoch keys ?p) ?s =
      (None, s1)" "mem_invar sample_md5 s1"
      "\<And>k. mem_view s1 k = (if list_ex (swept ?p ''s'' (eKey ` set ?es) k) (groupByEpoch keys ?p) then None
        else mem_view ?s k)"
    using exclusive_store.sweepEpochs_alone [OF sample.mem_exclusive compact_commit_invar] by blast
  obtain sn where sn: "mem_List None ''p/snapshots/'' s1 = (Inr sn, s1)"
    "set sn = {k. HasPrefix k ''p/snapshots/'' \<and> mem_view s1 k \<noteq> None}" using mem_List_alone by blast
  obtain t where t: "sweepSnapshots (mem_store sample_md5) None ''p/snapshots/s.sqlite'' ?g ten_minutes sn s1 = (None, t)"
      "\<And>k. mem_view t k = mem_view s1 k \<or> (k \<in> set sn \<and> k \<noteq> ''p/snapshots/s.sqlite'' \<and> mem_view t k = None)"
    using exclusive_store.sweepSnapshots_alone [OF sample.mem_exclusive s1(2)] by blast
  have log: "\<forall>e \<in> set ?es. mem_view ?s (eKey e) \<noteq> None"
    by (simp add: next_manifest_def compact_commit_def next_view)
  note sg = swept_garbage(1) [OF k(2) log refl, of "''s''"] swept_garbage(2) [OF k(2) log refl]
  have ep: "epochOf ?p ''p/changesets/t/cs-x.bin'' = Some ''t''" "epochOf ?p ''p/changesets/s/cs-z.bin'' = Some ''s''"
    by (simp_all add: epochOf_def TrimPrefix_def HasPrefix_def)
  have x: "mem_view t ''p/changesets/t/cs-x.bin'' = None"
  proof -
    have "list_ex (swept ?p ''s'' (eKey ` set ?es) ''p/changesets/t/cs-x.bin'') (groupByEpoch keys ?p)"
      by (rule sg(2) [OF _ _ ep(1)]) (simp_all add: HasPrefix_def compact_commit_def next_manifest_def ep)
    then show ?thesis using s1(3) t(2) by metis
  qed
  have "mem_view t ''p/manifest.json'' = mem_view ?s ''p/manifest.json''"
  proof -
    have "\<not> HasPrefix ''p/manifest.json'' ?p" "\<not> HasPrefix ''p/manifest.json'' ''p/snapshots/''"
      by (simp_all add: HasPrefix_def)
    with sg(1) [of "''p/manifest.json''"] s1(3) [of "''p/manifest.json''"] t(2) [of "''p/manifest.json''"] sn(2)
    show ?thesis by auto
  qed
  then have m: "man ''p/manifest.json'' (mem_view t) = Some man_t"
    using man_t_wire by (simp add: man_eq compact_commit_def decode_encode_manifest)
  have "graceOver (cfg_store sample_cfg) None ''p/snapshots/s.sqlite'' ?g ten_minutes (sh next_store [id, compact_commit]) =
      (True, sh next_store [compact_commit])"
    by (simp add: graceOver_def sh_List sh_op_turn next_stat defaultOptions_def ten_minutes_def time_Sub_def
        wrap64_def max_int64_def min_int64_def)
  moreover have "bKey (Snapshot next_manifest) = ''p/snapshots/s.sqlite''" by (simp add: next_manifest_def)
  ultimately have "sweep sample_cfg None next_manifest ?g ten_minutes id (sh next_store [id, compact_commit]) = (None, sh t [])"
    using k(1) s1(1) sn(1) t(1)
    by (simp add: sweep_def Let_def sh_List sh_op_turn sh_sweepEpochs sh_sweepSnapshots base_epoch)
  from this m x show ?thesis by (rule that)
qed

lemma compact_commit_coherent: "coherent rows_ext ''p/manifest.json'' (mem_view (compact_commit next_store))"
proof -
  have m: "man ''p/manifest.json'' (mem_view (compact_commit next_store)) = Some man_t"
    by (simp add: compact_commit_def man_put man_t_wire)
  have "''a01'' = sq_changeset rows_ext (CHR ''0'', CHR ''0'') (CHR ''1'', CHR ''0'')"
    by (simp add: rows_ext_def rows_changeset_def)
  then have "recorded rows_ext ''a01''" unfolding recorded_def by blast
  moreover have "replay rows_ext (mem_view (compact_commit next_store)) man_t \<noteq> None"
    by (simp add: replay_def base_of_def body_at_def man_t_def compact_commit_def rows_ext_def apply_bytes_def)
  ultimately show ?thesis
    by (simp add: coherent_def m man_t_wire)
      (simp add: man_t_def refs_def size_ok_def parallelDownloadThreshold_def log_recorded_def body_at_def
        compact_commit_def)
qed

lemma stale_gc:
  "\<exists>st' w'. GC rows_ext sample_cfg None ''db'' (gcGracePeriod (defaultOptions :: rows options)) ten_minutes id base_handle
       (wedge_world next_store [id, id, id, compact_commit] 1) = (None, st', w') \<and>
     man ''p/manifest.json'' (mem_view (sh_base (w_store w'))) = Some man_t \<and>
     replay rows_ext (mem_view (sh_base (w_store w'))) man_t = None"
proof -
  obtain t where t: "sweep sample_cfg None next_manifest (gcGracePeriod (defaultOptions :: rows options)) ten_minutes id
      (sh next_store [id, compact_commit]) = (None, sh t [])"
    "man ''p/manifest.json'' (mem_view t) = Some man_t" "mem_view t ''p/changesets/t/cs-x.bin'' = None"
    by (rule stale_sweep)
  have "replay rows_ext (mem_view t) man_t = None"
    using t(3) by (simp add: replay_def man_t_def body_at_def split: option.splits)
  with t(1,2) show ?thesis
    unfolding GC_def stale_refresh by (simp add: on_store_def wedge_world_def wedge_st_def)
qed

end
