(* ===== verification/Pullpush.thy ===== *)
theory Pullpush
  imports Database
begin

text \<open>
  \<^verbatim>\<open>pullpush.go\<close>: creating a database from a file, and moving the whole database to and from
  a local file.
\<close>

section \<open>Checking a file\<close>

text \<open>
  \<^verbatim>\<open>validateSQLiteFile\<close>: the local calls are \<^verbatim>\<open>OpenConn\<close> (read-only) and \<^verbatim>\<open>PrepareTransient\<close>;
  the first row of \<^verbatim>\<open>PRAGMA quick_check\<close> must be \<^verbatim>\<open>ok\<close>.
\<close>

definition validateSQLiteFile :: "'db ext \<Rightarrow> string \<Rightarrow> 's world \<Rightarrow> err option \<times> 's world" where
  "validateSQLiteFile X path w =
     (case sqlite_OpenConn X path w of
        (Inl e, w) \<Rightarrow> (Some (Wrapped ''not a valid SQLite file'' e), w)
      | (Inr d, w) \<Rightarrow>
          (case local_call w of
             (Some e, w) \<Rightarrow> (Some (Wrapped ''quick_check prepare'' e), w)
           | (None, w) \<Rightarrow>
               (case sq_quick_check X (case w_disk w path of None \<Rightarrow> [] | Some b \<Rightarrow> b) of
                  Inl e \<Rightarrow> (Some (Wrapped ''quick_check'' e), w)
                | Inr [] \<Rightarrow> (Some (OtherErr ''quick_check returned no rows''), w)
                | Inr (row # _) \<Rightarrow>
                    if row \<noteq> ''ok'' then (Some (OtherErr ''integrity check failed''), w)
                    else (None, w))))"

section \<open>Init\<close>

definition initKey :: "string \<Rightarrow> string \<Rightarrow> string" where
  "initKey pre u = pre @ ''snapshots/snap-init-'' @ u @ ''.sqlite''"

text \<open>The snapshot of the new database: the file given, or an empty one.\<close>

definition initSnapshot ::
  "'db ext \<Rightarrow> 's BlobStore \<Rightarrow> ctx \<Rightarrow> string \<Rightarrow> string \<Rightarrow> string \<Rightarrow> 's world \<Rightarrow>
     (string \<times> int) result \<times> 's world" where
  "initSnapshot X store ctx tmpPath pre srcPath w =
     (if srcPath \<noteq> '''' then
        (case validateSQLiteFile X srcPath w of
           (Some e, w) \<Rightarrow> (Inl (Wrapped ''init'' e), w)
         | (None, w) \<Rightarrow>
             (case new_uuid X w of
                (u, w) \<Rightarrow>
                  (case uploadFile store ctx (initKey pre u) srcPath w of
                     (Inl e, w) \<Rightarrow> (Inl (Wrapped ''init: upload snapshot'' e), w)
                   | (Inr n, w) \<Rightarrow> (Inr (initKey pre u, n), w))))
      else
        (let snapKey = pre @ ''snapshots/snap-init.sqlite''
         in case uploadEmptySQLite X store ctx tmpPath snapKey w of
              (Inl e, w) \<Rightarrow> (Inl (Wrapped ''init'' e), w)
            | (Inr n, w) \<Rightarrow> (Inr (snapKey, n), w)))"

definition Init ::
  "'db ext \<Rightarrow> 's BlobStore \<Rightarrow> ctx \<Rightarrow> string \<Rightarrow> string \<Rightarrow> string \<Rightarrow> 's world \<Rightarrow> err option \<times> 's world" where
  "Init X store ctx tmpPath pre srcPath w =
     (if \<not> HasSuffix pre ''/'' then (Some (OtherErr ''s3db: prefix must end with /''), w)
      else
        let mk = pre @ ''manifest.json''
        in case on_store (Stat store ctx mk) w of
             (Inr info, w) \<Rightarrow> (Some (Wrapped ''init: database already exists'' ErrPreconditionFailed), w)
           | (Inl e, w) \<Rightarrow>
               if \<not> errors_Is e ErrNotFound then (Some (Wrapped ''init: stat manifest'' e), w)
               else case initSnapshot X store ctx tmpPath pre srcPath w of
                   (Inl e, w) \<Rightarrow> (Some e, w)
                 | (Inr (snapKey, snapSize), w) \<Rightarrow>
                     (case on_store (putManifest store ctx mk (initManifest snapKey snapSize)
                                       \<lparr>IfMatch = '''', IfNoneMatch = True\<rparr>) w of
                        ((Inl e, _), w) \<Rightarrow>
                          if errors_Is e ErrPreconditionFailed
                          then (Some (Wrapped ''init: database already exists (concurrent init)'' e), w)
                          else (Some (Wrapped ''init: put manifest'' e), w)
                      | ((Inr _, _), w) \<Rightarrow> (None, w)))"

section \<open>Pull\<close>

record PullInfo =
  pull_Seq :: int
  pull_SchemaVersion :: int
  pull_SnapshotSize :: int
  pull_LogEntries :: int

text \<open>The replay on the downloaded file; the file holds the result once the connection is closed.\<close>

definition pullReplay ::
  "'db ext \<Rightarrow> 's BlobStore \<Rightarrow> ctx \<Rightarrow> manifest \<Rightarrow> string \<Rightarrow> 's world \<Rightarrow> err option \<times> 's world" where
  "pullReplay X store ctx m destPath w =
     (if Log m = [] then (None, w)
      else case openLocalConn X destPath w of
          (Inl e, w) \<Rightarrow> (Some (Wrapped ''pull: open for replay'' e), w)
        | (Inr d, w) \<Rightarrow>
            (case applyLog X store ctx (Log m) (bSeq (Snapshot m)) (OpenConn d) (w_store w) of
               ((seq, aerr), c, s) \<Rightarrow>
                 (case conn_Close X destPath c (w\<lparr>w_store := s\<rparr>) of
                    (cerr, w) \<Rightarrow>
                      (if aerr \<noteq> None then aerr
                       else map_option (Wrapped ''pull: close after replay'') cerr, w))))"

definition Pull ::
  "'db ext \<Rightarrow> 's BlobStore \<Rightarrow> ctx \<Rightarrow> string \<Rightarrow> string \<Rightarrow> 's world \<Rightarrow> PullInfo result \<times> 's world" where
  "Pull X store ctx pre destPath w =
     (if \<not> HasSuffix pre ''/'' then (Inl (OtherErr ''s3db: prefix must end with /''), w)
      else case on_store (loadManifest store ctx (pre @ ''manifest.json'')) w of
          (Inl e, w) \<Rightarrow> (Inl e, w)
        | (Inr (m, etag), w) \<Rightarrow>
            (case downloadSnapshot store ctx (bKey (Snapshot m)) (bSize (Snapshot m)) destPath w of
               (Some e, w) \<Rightarrow> (Inl e, w)
             | (None, w) \<Rightarrow>
                 (case pullReplay X store ctx m destPath w of
                    (Some e, w) \<Rightarrow> (Inl e, w)
                  | (None, w) \<Rightarrow>
                      (Inr \<lparr>pull_Seq = Seq m, pull_SchemaVersion = SchemaVersion m,
                            pull_SnapshotSize = bSize (Snapshot m),
                            pull_LogEntries = int (length (Log m))\<rparr>, w))))"

section \<open>Push\<close>

definition pushKey :: "string \<Rightarrow> string \<Rightarrow> string" where
  "pushKey pre u = pre @ ''snapshots/snap-push-'' @ u @ ''.sqlite''"

definition Push ::
  "'db ext \<Rightarrow> 's BlobStore \<Rightarrow> ctx \<Rightarrow> string \<Rightarrow> string \<Rightarrow> int \<Rightarrow> 's world \<Rightarrow> err option \<times> 's world" where
  "Push X store ctx pre srcPath expectedSeq w =
     (if \<not> HasSuffix pre ''/'' then (Some (OtherErr ''s3db: prefix must end with /''), w)
      else case validateSQLiteFile X srcPath w of
          (Some e, w) \<Rightarrow> (Some (Wrapped ''push'' e), w)
        | (None, w) \<Rightarrow>
            (let mk = pre @ ''manifest.json''
             in case on_store (loadManifest store ctx mk) w of
                  (Inl e, w) \<Rightarrow> (Some e, w)
                | (Inr (m, etag), w) \<Rightarrow>
                    if 0 \<le> expectedSeq \<and> Seq m \<noteq> expectedSeq
                    then (Some (Wrapped ''database is at another seq'' ErrSeqMismatch), w)
                    else case new_uuid X w of
                        (u, w) \<Rightarrow>
                          (case uploadFile store ctx (pushKey pre u) srcPath w of
                             (Inl e, w) \<Rightarrow> (Some (Wrapped ''push: upload snapshot'' e), w)
                           | (Inr snapSize, w) \<Rightarrow>
                               (case on_store (putManifest store ctx mk
                                       (withSnapshot m \<lparr>bKey = pushKey pre u, bSeq = Seq m, bSize = snapSize\<rparr>)
                                       \<lparr>IfMatch = etag, IfNoneMatch = False\<rparr>) w of
                                  ((Inl e, _), w) \<Rightarrow>
                                    if errors_Is e ErrPreconditionFailed
                                    then (Some (Wrapped ''database advanced during push; retry''
                                                  ErrSeqMismatch), w)
                                    else (Some (Wrapped ''push: put manifest'' e), w)
                                | ((Inr _, _), w) \<Rightarrow> (None, w)))))"

end
