(* ===== verification/Exchange.thy ===== *)
theory Exchange
  imports Migrate_Alone Pullpush
begin

text \<open>
  Moving whole databases: \<^verbatim>\<open>Init\<close>, \<^verbatim>\<open>Pull\<close> and \<^verbatim>\<open>Push\<close> of \<^verbatim>\<open>pullpush.go\<close>, and \<^verbatim>\<open>Open\<close>, by a client that
  has the store to itself.  \<^verbatim>\<open>Init\<close> also never replaces a database, whatever others do.
\<close>

section \<open>Files\<close>

text \<open>A local file that is a database with content \<open>d\<close>.\<close>

definition is_db_file :: "'db ext \<Rightarrow> bytes \<Rightarrow> 'db \<Rightarrow> bool" where
  "is_db_file X b d \<longleftrightarrow>
     sq_open X b = Inr d \<and> (\<exists>rows. sq_quick_check X b = Inr (''ok'' # rows)) \<and> int (length b) \<le> max_int64"

lemma validateSQLiteFile_ok:
  assumes "w_io w = []" and "w_disk w path = Some b" and "is_db_file X b d"
  shows "validateSQLiteFile X path w = (None, w)"
  using assms by (auto simp: validateSQLiteFile_def sqlite_OpenConn_def is_db_file_def)

context exclusive_store
begin

lemma uploadFile_new:
  assumes "invar (w_store w)" and "w_io w = []" and "w_disk w path = Some b"
  shows "\<exists>t e. uploadFile store None k path w = (Inr (int (length b)), w\<lparr>w_store := t\<rparr>) \<and> invar t \<and>
    view t = (view (w_store w))(k \<mapsto> (b, e))"
proof -
  have "\<not> (IfMatch NoCondition \<noteq> '''' \<and> IfNoneMatch NoCondition)" by (simp add: NoCondition_def)
  from put_alone [OF assms(1) cond_ok_NoCondition this, of k b] obtain e t where
    "Put store None k (Inr b) NoCondition (w_store w) = (Inr e, t)" "invar t"
    "view t = (view (w_store w))(k \<mapsto> (b, e))" by blast
  with assms show ?thesis by (auto simp: uploadFile_def on_store_def)
qed

end

text \<open>A manifest without log describes the content of its snapshot.\<close>

lemma replay_snapshot:
  assumes "Log m = []" and "body_at v (bKey (Snapshot m)) = Some b" and "sq_open X b = Inr d"
  shows "replay X v m = Some d"
  using assms by (simp add: replay_def base_of_def)

section \<open>Init\<close>

lemma key_chars:
  assumes "uuid_law X" and "list_all is_ascii pre"
  shows "list_all is_ascii (initKey pre (uuid_string X n))" "list_all is_ascii (pushKey pre (uuid_string X n))"
    "initKey pre u \<noteq> pre @ ''manifest.json''" "pushKey pre u \<noteq> pre @ ''manifest.json''"
  using assms uuid_chars(3) [OF assms(1), of n] by (simp_all add: initKey_def pushKey_def is_ascii_def)

lemma snapshot_manifest_ok:
  assumes "0 \<le> q" and "is_int64 q" and "0 \<le> ver" and "is_int64 ver" and "k \<noteq> ''''" and "list_all is_ascii k"
    and "int n \<le> max_int64"
    and "m = \<lparr>FormatVersion = 1, Seq = q, SchemaVersion = ver,
      Snapshot = \<lparr>bKey = k, bSeq = q, bSize = int n\<rparr>, Log = []\<rparr>"
  shows "wire_ok m" and "validate m = None"
proof -
  show "wire_ok m" using assms by (simp add: wire_ok_def is_int64_def min_int64_def max_int64_def)
  show "validate m = None" using assms
    by (subst validate_iff) (simp_all add: is_int64_def manifest_inv_def manifestFormatVersion_def)
qed

context exclusive_store
begin

text \<open>\<^verbatim>\<open>Init\<close> from a file makes a database with its content.\<close>

lemma Init_alone:
  assumes s: "invar (w_store w)" and io: "w_io w = []" and pre: "HasSuffix pre ''/''" "list_all is_ascii pre"
    and u: "uuid_law X" and new: "view (w_store w) (pre @ ''manifest.json'') = None"
    and src: "src \<noteq> ''''" "w_disk w src = Some b" "is_db_file X b d"
  shows "\<exists>w' m. Init X store None tmp pre src w = (None, w') \<and> invar (w_store w') \<and> w_io w' = [] \<and>
    man (pre @ ''manifest.json'') (view (w_store w')) = Some m \<and> Seq m = 0 \<and> Log m = [] \<and> SchemaVersion m = 0 \<and>
    bSize (Snapshot m) = int (length b) \<and> coherent X (pre @ ''manifest.json'') (view (w_store w')) \<and>
    body_at (view (w_store w')) (bKey (Snapshot m)) = Some b \<and> replay X (view (w_store w')) m = Some d"
proof -
  let ?mk = "pre @ ''manifest.json''" and ?k = "initKey pre (uuid_string X (w_uuid w))"
  from Stat_miss [OF s new] obtain t where st: "Stat store None ?mk (w_store w) = (Inl ErrNotFound, t)" ..
  from Stat_step [OF s st] have t: "invar t" "view t = view (w_store w)" by auto
  let ?w = "w\<lparr>w_store := t, w_uuid := Suc (w_uuid w)\<rparr>"
  from uploadFile_new [of ?w src b ?k] t io src obtain t1 e1 where
    up: "uploadFile store None ?k src ?w = (Inr (int (length b)), ?w\<lparr>w_store := t1\<rparr>)" "invar t1"
      "view t1 = (view (w_store w))(?k \<mapsto> (b, e1))" by auto
  define m where "m = \<lparr>FormatVersion = 1, Seq = 0, SchemaVersion = 0,
      Snapshot = \<lparr>bKey = ?k, bSeq = 0, bSize = int (length b)\<rparr>, Log = []\<rparr>"
  have kc: "?k \<noteq> ?mk" "list_all is_ascii ?k" using key_chars [OF u pre(2)] by auto
  have "?k \<noteq> ''''" by (simp add: initKey_def)
  with kc src(3) have wm: "wire_ok m" "validate m = None"
    using snapshot_manifest_ok [of 0 0 ?k "length b" m] m_def
    by (auto simp: is_db_file_def is_int64_def min_int64_def max_int64_def)
  have "cond_ok \<lparr>IfMatch = '''', IfNoneMatch = True\<rparr> (view t1 ?mk)" using new up(3) kc(1) by (simp add: cond_ok_def)
  from put_alone [OF up(2) this, of "encode_manifest m"] obtain e2 t2 where
    p: "Put store None ?mk (Inr (encode_manifest m)) \<lparr>IfMatch = '''', IfNoneMatch = True\<rparr> t1 = (Inr e2, t2)"
      "invar t2" "view t2 = (view t1)(?mk \<mapsto> (encode_manifest m, e2))" by auto
  have "stamp (initManifest ?k (int (length b))) = m"
    by (simp add: initManifest_def stamp_def m_def manifestFormatVersion_def)
  then have "putManifest store None ?mk (initManifest ?k (int (length b))) \<lparr>IfMatch = '''', IfNoneMatch = True\<rparr> t1 =
      ((Inr e2, m), t2)" using p(1) wm(2) by (simp add: putManifest_def Let_def)
  moreover have "validateSQLiteFile X src (w\<lparr>w_store := t\<rparr>) = (None, w\<lparr>w_store := t\<rparr>)"
    by (rule validateSQLiteFile_ok) (use io src in auto)
  ultimately have "Init X store None tmp pre src w = (None, ?w\<lparr>w_store := t2\<rparr>)"
    using pre(1) st up(1) src(1)
    by (simp add: Init_def Let_def on_store_def initSnapshot_def new_uuid_def)
  moreover have "man ?mk (view t2) = Some m" using p(3) wm by (simp add: man_put)
  moreover have "body_at (view t2) ?k = Some b" using p(3) up(3) kc(1) by (simp add: body_at_def)
  moreover have "replay X (view t2) m = Some d"
    using calculation(3) src(3) by (intro replay_snapshot [of m _ b]) (auto simp: m_def is_db_file_def)
  moreover have "coherent X ?mk (view t2)"
    using calculation(2-4) wm kc \<open>?k \<noteq> ''''\<close>
    by (simp add: coherent_def size_ok_def log_recorded_def refs_def)
      (simp add: m_def manifest_inv_def manifestFormatVersion_def)
  ultimately show ?thesis using p(2) io
    by (intro exI [of _ "?w\<lparr>w_store := t2\<rparr>"] exI [of _ m]) (simp add: m_def)
qed

end

context cas_store
begin

text \<open>Where a database exists and is not deleted, \<^verbatim>\<open>Init\<close> does not succeed.\<close>

lemma uploadFile_env:
  assumes "invar (w_store w)" and "uploadFile store ctx k path w = (g, w')" and "k \<noteq> mk"
    and keep: "\<forall>u v. env u v \<longrightarrow> u mk \<noteq> None \<longrightarrow> v mk \<noteq> None" and m: "view (w_store w) mk \<noteq> None"
  shows "invar (w_store w') \<and> view (w_store w') mk \<noteq> None"
proof -
  have put: "invar t \<and> view t mk \<noteq> None" if p: "Put store ctx k rd NoCondition (w_store w) = (r, t)" for rd r t
  proof (cases r)
    case (Inl x)
    from Put_fail [OF assms(1) p [unfolded Inl]] m keep assms(3) show ?thesis by (metis fun_upd_other)
  next
    case (Inr x)
    from Put_done [OF assms(1) p [unfolded Inr]] m keep assms(3) show ?thesis by (metis fun_upd_other)
  qed
  obtain x1 w1 where l1: "local_call w = (x1, w1)" by fastforce
  obtain x2 w2 where l2: "local_call w1 = (x2, w2)" by fastforce
  obtain x3 w3 where l3: "local_call w2 = (x3, w3)" by fastforce
  note fr = local_call_frame [OF l1] local_call_frame [OF l2] local_call_frame [OF l3]
  show ?thesis
  proof (cases "w_store w' = w_store w")
    case False
    then obtain b where b: "x1 = None" "w_disk w1 path = Some b" "x2 = None"
      using assms(2) l1 l2 fr by (cases x1; cases "w_disk w1 path"; cases x2) (auto simp: uploadFile_def)
    obtain r t where p: "Put store ctx k (case x3 of None \<Rightarrow> Inr b | Some e \<Rightarrow> Inl e) NoCondition (w_store w) = (r, t)"
      by fastforce
    then have "w_store w' = t"
      using assms(2) b l1 l2 l3 fr by (cases r) (auto simp: uploadFile_def on_store_def)
    with put [OF p] show ?thesis by simp
  qed (use assms m in simp)
qed

end

context cas_store
begin

lemma Init_existing:
  assumes s: "invar (w_store w)" and m: "view (w_store w) (pre @ ''manifest.json'') \<noteq> None"
    and keep: "\<forall>u v. env u v \<longrightarrow> u (pre @ ''manifest.json'') \<noteq> None \<longrightarrow> v (pre @ ''manifest.json'') \<noteq> None"
    and r: "Init X store ctx tmp pre src w = (x, w')"
  shows "x \<noteq> None"
proof
  let ?mk = "pre @ ''manifest.json''"
  assume "x = None"
  obtain g t where g: "Stat store ctx ?mk (w_store w) = (g, t)" by fastforce
  from Stat_step [OF s g] m keep have t: "invar t" "view t ?mk \<noteq> None" by blast+
  obtain y w2 where i: "initSnapshot X store ctx tmp pre src (w\<lparr>w_store := t\<rparr>) = (y, w2)" by fastforce
  from r \<open>x = None\<close> g i obtain k z etag m' w3 where y: "y = Inr (k, z)"
    and p: "on_store (putManifest store ctx ?mk (initManifest k z) \<lparr>IfMatch = '''', IfNoneMatch = True\<rparr>) w2 =
      ((Inr etag, m'), w3)"
    by (auto simp: Init_def Let_def on_store_def split: if_splits sum.splits prod.splits)
  have "invar (w_store w2) \<and> view (w_store w2) ?mk \<noteq> None"
  proof (cases "src = ''''")
    case True
    let ?k = "pre @ ''snapshots/snap-init.sqlite''"
    from i y True obtain e w4 where u: "uploadEmptySQLite X store ctx tmp ?k (w\<lparr>w_store := t\<rparr>) = (Inr e, w2)"
      by (auto simp: initSnapshot_def Let_def split: prod.splits sum.splits)
    then obtain w5 w6 where f: "uploadFile store ctx ?k tmp w5 = (Inr e, w6)" "w_store w5 = t" "w_store w2 = w_store w6"
      by (auto simp: uploadEmptySQLite_def dest!: local_call_frame split: prod.splits option.splits)
    from uploadFile_env [where mk = ?mk, OF _ f(1) _ keep] f(2,3) t show ?thesis by auto
  next
    case False
    from i y False obtain w4 u w5 where v: "validateSQLiteFile X src (w\<lparr>w_store := t\<rparr>) = (None, w4)"
      and f: "uploadFile store ctx (initKey pre u) src (w4\<lparr>w_uuid := w5\<rparr>) = (Inr z, w2)"
      by (auto simp: initSnapshot_def Let_def new_uuid_def split: prod.splits sum.splits option.splits)
    have "w_store w4 = t" using v
      by (auto simp: validateSQLiteFile_def dest!: sqlite_OpenConn_frame local_call_frame
          split: prod.splits sum.splits option.splits list.splits if_splits)
    moreover have "initKey pre u \<noteq> ?mk" by (simp add: initKey_def)
    ultimately show ?thesis using uploadFile_env [where mk = ?mk, OF _ f _ keep] t by auto
  qed
  then have w2: "invar (w_store w2)" "view (w_store w2) ?mk \<noteq> None" by auto
  from p obtain b t' where "Put store ctx ?mk (Inr b) \<lparr>IfMatch = '''', IfNoneMatch = True\<rparr> (w_store w2) = (Inr etag, t')"
    by (auto simp: on_store_def putManifest_def Let_def split: option.splits prod.splits)
  from Put_done [OF w2(1) this] obtain u where "env (view (w_store w2)) (view u)" "view u ?mk = None"
    by (auto simp: cond_ok_def)
  with keep w2(2) show False by blast
qed

end

section \<open>Pull\<close>

context exclusive_store
begin

text \<open>\<^verbatim>\<open>Pull\<close> writes a file with the content of the database; without log entries it is the snapshot.\<close>

lemma Pull_alone:
  assumes s: "invar (w_store w)" and io: "w_io w = []" and pre: "HasSuffix pre ''/''" and f: "file_law X"
    and c: "coherent X (pre @ ''manifest.json'') (view (w_store w))"
    and m: "man (pre @ ''manifest.json'') (view (w_store w)) = Some m" "replay X (view (w_store w)) m = Some d"
  shows "\<exists>w' b. Pull X store None pre dest w =
      (Inr \<lparr>pull_Seq = Seq m, pull_SchemaVersion = SchemaVersion m, pull_SnapshotSize = bSize (Snapshot m),
            pull_LogEntries = int (length (Log m))\<rparr>, w') \<and>
    invar (w_store w') \<and> view (w_store w') = view (w_store w) \<and> w_disk w' dest = Some b \<and> sq_open X b = Inr d \<and>
    w_io w' = [] \<and> (Log m = [] \<longrightarrow> body_at (view (w_store w)) (bKey (Snapshot m)) = Some b)"
proof -
  let ?mk = "pre @ ''manifest.json''" and ?v = "view (w_store w)" and ?s = "Snapshot m"
  from m(1) obtain b0 e0 where e: "?v ?mk = Some (b0, e0)" by (auto simp: man_eq)
  from load_alone [OF s e m(1)] obtain t where
    l: "loadManifest store None ?mk (w_store w) = (Inr (m, e0), t)" "invar t" "view t = ?v" by blast
  from c m(1) have im: "manifest_inv m" "size_ok ?v ?s" by (auto simp: coherent_def)
  obtain d0 where d0: "base_of X ?v ?s = Some d0" using replay_base [OF m(2)] ..
  then obtain b e1 where b: "?v (bKey ?s) = Some (b, e1)" "sq_open X b = Inr d0"
    by (auto simp: base_of_def body_at_def split: option.splits sum.splits)
  have "size_ok ?v \<lparr>bKey = bKey ?s, bSeq = bSeq ?s, bSize = bSize ?s\<rparr>" using im(2) by (simp add: size_ok_def)
  with download_alone [of "w\<lparr>w_store := t\<rparr>" "bKey ?s" b e1 "bSeq ?s" "bSize ?s" dest] b(1) l io obtain t1 where
    dl: "downloadSnapshot store None (bKey ?s) (bSize ?s) dest (w\<lparr>w_store := t\<rparr>) =
      (None, w\<lparr>w_store := t1, w_disk := (w_disk w)(dest \<mapsto> b)\<rparr>)" "invar t1" "view t1 = ?v" by auto
  let ?w = "w\<lparr>w_store := t1, w_disk := (w_disk w)(dest \<mapsto> b)\<rparr>"
  show ?thesis
  proof (cases "Log m = []")
    case True
    then have "Pull X store None pre dest w = (Inr \<lparr>pull_Seq = Seq m, pull_SchemaVersion = SchemaVersion m,
        pull_SnapshotSize = bSize ?s, pull_LogEntries = int (length (Log m))\<rparr>, ?w)"
      using pre l(1) dl(1) by (simp add: Pull_def on_store_def pullReplay_def)
    moreover have "d0 = d" using True d0 m(2) by (simp add: replay_def)
    ultimately show ?thesis using dl b io by (intro exI [of _ ?w] exI [of _ b]) (simp add: body_at_def)
  next
    case False
    have "replay_to X ?v m (bSeq ?s) = Some d0" using d0 by (simp add: replay_to_def)
    then have "apply_entries X (view t1) (filter (\<lambda>e. bSeq ?s < eSeq e) (Log m)) d0 = Some d"
      using replay_tail(1) [OF im(1), of "bSeq ?s" X ?v d0 d] m(2) im(1) dl(3) by (simp add: manifest_inv_def)
    from applyLog_alone [OF dl(2) this] obtain q t2 where
      a: "applyLog X store None (Log m) (bSeq ?s) (OpenConn d0) t1 = ((q, None), OpenConn d, t2)" "invar t2" "view t2 = ?v"
      using dl(3) by auto
    let ?w2 = "?w\<lparr>w_store := t2, w_disk := (w_disk w)(dest \<mapsto> sq_file X d)\<rparr>"
    have "pullReplay X store None m dest ?w = (None, ?w2)"
      using False b(2) io a(1) by (simp add: pullReplay_def openLocalConn_def sqlite_OpenConn_def conn_Close_def)
    then have "Pull X store None pre dest w = (Inr \<lparr>pull_Seq = Seq m, pull_SchemaVersion = SchemaVersion m,
        pull_SnapshotSize = bSize ?s, pull_LogEntries = int (length (Log m))\<rparr>, ?w2)"
      using pre l(1) dl(1) by (simp add: Pull_def on_store_def)
    moreover have "sq_open X (sq_file X d) = Inr d" using f by (simp add: file_law_def)
    ultimately show ?thesis using a False io by (intro exI [of _ ?w2] exI [of _ "sq_file X d"]) simp
  qed
qed

end

section \<open>Push\<close>

context exclusive_store
begin

text \<open>\<^verbatim>\<open>Push\<close> makes the file the content of the database, under the sequence number it had.\<close>

lemma Push_alone:
  assumes s: "invar (w_store w)" and io: "w_io w = []" and pre: "HasSuffix pre ''/''" "list_all is_ascii pre"
    and u: "uuid_law X"
    and c: "coherent X (pre @ ''manifest.json'') (view (w_store w))"
    and m: "man (pre @ ''manifest.json'') (view (w_store w)) = Some m"
    and q: "expected < 0 \<or> expected = Seq m" and src: "w_disk w src = Some b" "is_db_file X b d"
  shows "\<exists>w' m'. Push X store None pre src expected w = (None, w') \<and> invar (w_store w') \<and>
    man (pre @ ''manifest.json'') (view (w_store w')) = Some m' \<and> Seq m' = Seq m \<and>
    SchemaVersion m' = SchemaVersion m \<and> Log m' = [] \<and> replay X (view (w_store w')) m' = Some d"
proof -
  let ?mk = "pre @ ''manifest.json''" and ?v = "view (w_store w)"
  let ?k = "pushKey pre (uuid_string X (w_uuid w))"
  from m obtain b0 e0 where e: "?v ?mk = Some (b0, e0)" by (auto simp: man_eq)
  from load_alone [OF s e m] obtain t where
    l: "loadManifest store None ?mk (w_store w) = (Inr (m, e0), t)" "invar t" "view t = ?v" by blast
  let ?w = "w\<lparr>w_store := t, w_uuid := Suc (w_uuid w)\<rparr>"
  from uploadFile_new [of ?w src b ?k] l io src obtain t1 e1 where
    up: "uploadFile store None ?k src ?w = (Inr (int (length b)), ?w\<lparr>w_store := t1\<rparr>)" "invar t1"
      "view t1 = ?v(?k \<mapsto> (b, e1))" by auto
  from c m have im: "manifest_inv m" "wire_ok m" by (auto simp: coherent_def)
  define nm where "nm = \<lparr>FormatVersion = 1, Seq = Seq m, SchemaVersion = SchemaVersion m,
      Snapshot = \<lparr>bKey = ?k, bSeq = Seq m, bSize = int (length b)\<rparr>, Log = []\<rparr>"
  have kc: "?k \<noteq> ?mk" "list_all is_ascii ?k" "?k \<noteq> ''''"
    using key_chars [OF u pre(2)] by (auto simp: pushKey_def)
  have wm: "wire_ok nm" "validate nm = None"
    using snapshot_manifest_ok [of "Seq m" "SchemaVersion m" ?k "length b" nm] im kc src(2) nm_def
    by (auto simp: is_db_file_def manifest_inv_def wire_ok_def)
  have "view t1 ?mk = Some (b0, e0)" using up(3) kc(1) e by simp
  from cas_alone [OF up(2) this, of "encode_manifest nm"] obtain e2 t2 where
    p: "Put store None ?mk (Inr (encode_manifest nm)) \<lparr>IfMatch = e0, IfNoneMatch = False\<rparr> t1 = (Inr e2, t2)"
      "invar t2" "view t2 = (view t1)(?mk \<mapsto> (encode_manifest nm, e2))" by auto
  have "stamp (withSnapshot m \<lparr>bKey = ?k, bSeq = Seq m, bSize = int (length b)\<rparr>) = nm"
    by (simp add: withSnapshot_def stamp_def nm_def manifestFormatVersion_def)
  then have "putManifest store None ?mk (withSnapshot m \<lparr>bKey = ?k, bSeq = Seq m, bSize = int (length b)\<rparr>)
      \<lparr>IfMatch = e0, IfNoneMatch = False\<rparr> t1 = ((Inr e2, nm), t2)" using p(1) wm(2) by (simp add: putManifest_def Let_def)
  then have "Push X store None pre src expected w = (None, ?w\<lparr>w_store := t2\<rparr>)"
    using pre(1) l(1) up(1) q validateSQLiteFile_ok [OF io src]
    by (auto simp: Push_def Let_def on_store_def new_uuid_def)
  moreover have "man ?mk (view t2) = Some nm" using p(3) wm by (simp add: man_put)
  moreover have "replay X (view t2) nm = Some d"
    using p(3) up(3) kc(1) src(2) by (intro replay_snapshot [of nm _ b]) (auto simp: nm_def is_db_file_def body_at_def)
  ultimately show ?thesis using p(2)
    by (intro exI [of _ "?w\<lparr>w_store := t2\<rparr>"] exI [of _ nm]) (simp add: nm_def)
qed

lemma Push_mismatch:
  assumes s: "invar (w_store w)" and io: "w_io w = []" and pre: "HasSuffix pre ''/''"
    and m: "man (pre @ ''manifest.json'') (view (w_store w)) = Some m"
    and q: "0 \<le> expected" "expected \<noteq> Seq m" and src: "w_disk w src = Some b" "is_db_file X b d"
  shows "\<exists>e w'. Push X store None pre src expected w = (Some e, w') \<and> errors_Is e ErrSeqMismatch \<and>
    view (w_store w') = view (w_store w)"
proof -
  let ?mk = "pre @ ''manifest.json''"
  from m obtain b0 e0 where e: "view (w_store w) ?mk = Some (b0, e0)" by (auto simp: man_eq)
  from load_alone [OF s e m] obtain t where
    "loadManifest store None ?mk (w_store w) = (Inr (m, e0), t)" "view t = view (w_store w)" by blast
  then show ?thesis using pre q validateSQLiteFile_ok [OF io src]
    by (auto simp: Push_def Let_def on_store_def)
qed

end

section \<open>Open\<close>

lemma expectedSchema_max:
  assumes "checkOrder 0 (opt_migrations o') = None" and "\<not> schemaUnchecked o'"
  shows "expectedSchema o' m = maxVersion (opt_migrations o')"
proof -
  have "fold (\<lambda>mig v. if v < mig_Version mig then mig_Version mig else v) migs v =
      (if migs = [] then v else mig_Version (last migs))"
    if "checkOrder v migs = None" for v and migs :: "'a Migration list"
    using that by (induction migs arbitrary: v) (auto split: if_splits)
  with assms show ?thesis by (simp add: expectedSchema_def maxVersion_def)
qed

context sole_client
begin

lemma openLocal_alone:
  assumes s: "invar (w_store w)" and io: "w_io w = []" and m: "manifest_inv m" "size_ok (view (w_store w)) (Snapshot m)"
    and d: "replay X (view (w_store w)) m = Some d"
  shows "\<exists>t f path owned. openLocal X store None tmpName m o' w =
      (Inr (OpenConn d, Seq m, path, owned), w\<lparr>w_store := t, w_disk := f\<rparr>) \<and> invar t \<and> view t = view (w_store w)"
proof -
  let ?v = "view (w_store w)" and ?s = "Snapshot m" and ?owned = "opt_localPath o' = ''''"
  let ?path = "if ?owned then tmpName else opt_localPath o'"
  define f0 where "f0 = (if ?owned then (w_disk w)(tmpName \<mapsto> []) else w_disk w)"
  obtain d0 where d0: "base_of X ?v ?s = Some d0" using replay_base [OF d] ..
  then obtain b e where b: "?v (bKey ?s) = Some (b, e)" "sq_open X b = Inr d0"
    by (auto simp: base_of_def body_at_def split: option.splits sum.splits)
  have "size_ok ?v \<lparr>bKey = bKey ?s, bSeq = bSeq ?s, bSize = bSize ?s\<rparr>" using m(2) by (simp add: size_ok_def)
  with download_alone [of "w\<lparr>w_disk := f0\<rparr>" "bKey ?s" b e "bSeq ?s" "bSize ?s" ?path] b(1) s io obtain t1 where
    dl: "downloadSnapshot store None (bKey ?s) (bSize ?s) ?path (w\<lparr>w_disk := f0\<rparr>) =
      (None, w\<lparr>w_store := t1, w_disk := f0(?path \<mapsto> b)\<rparr>)" "invar t1" "view t1 = ?v" by auto
  have "replay_to X ?v m (bSeq ?s) = Some d0" using d0 by (simp add: replay_to_def)
  moreover have "bSeq ?s \<le> Seq m" using m(1) by (simp add: manifest_inv_def)
  ultimately have tl: "apply_entries X ?v (filter (\<lambda>e. bSeq ?s < eSeq e) (Log m)) d0 = Some d"
    "(if filter (\<lambda>e. bSeq ?s < eSeq e) (Log m) = [] then bSeq ?s
      else eSeq (last (filter (\<lambda>e. bSeq ?s < eSeq e) (Log m)))) = Seq m"
    using replay_tail [OF m(1), of "bSeq ?s" X ?v d0 d] d by auto
  from applyLog_alone [OF dl(2), of X "bSeq ?s" "Log m" d0 d] tl dl(3) obtain t2 where
    a: "applyLog X store None (Log m) (bSeq ?s) (OpenConn d0) t1 = ((Seq m, None), OpenConn d, t2)" "invar t2" "view t2 = ?v"
    by auto
  have "openLocal X store None tmpName m o' w =
      (Inr (OpenConn d, Seq m, ?path, ?owned), w\<lparr>w_store := t2, w_disk := f0(?path \<mapsto> b)\<rparr>)"
    using dl(1) a(1) io b(2)
    by (cases ?owned) (simp_all add: openLocal_def Let_def f0_def openLocalConn_def sqlite_OpenConn_def)
  with a show ?thesis by blast
qed

text \<open>\<^verbatim>\<open>Open\<close> of an existing database returns a handle on its content, after the pending migrations.\<close>

lemma Open_alone:
  assumes o: "o' = fold (\<lambda>f x. f x) opts defaultOptions" and pre: "HasSuffix pre ''/''"
    and cfg: "cfg = \<lparr>cfg_store = sto, cfg_prefix = pre, manifestKey = pre @ ''manifest.json'',
        maxRetries = opt_maxRetries o', schemaVer = expectedSchema o' m\<rparr>"
    and s: "invar (w_store w)" "good X mk (view (w_store w))" "fresh (view (w_store w)) (w_uuid w)" "w_io w = []"
    and m: "man mk (view (w_store w)) = Some m" "replay X (view (w_store w)) m = Some d"
    and mig: "\<not> schemaUnchecked o'" "checkOrder 0 (opt_migrations o') = None"
      "migrations_run X (opt_migrations o')" "SchemaVersion m \<le> maxVersion (opt_migrations o')"
  shows "\<exists>db w' m'. Open X sto None emptyName tmpName pre opts w = Some (Inr db, w') \<and> db_cfg db = cfg \<and>
    opened X gen view invar db w' m' (migrate_content (pending (SchemaVersion m) (opt_migrations o')) d) \<and>
    SchemaVersion m' = maxVersion (opt_migrations o') \<and> Seq m' = Seq m \<and>
    st_conn (db_st db) = OpenConn (migrate_content (pending (SchemaVersion m) (opt_migrations o')) d) \<and>
    localSeq (db_st db) = Seq m' \<and> st_manifest (db_st db) = m'"
proof -
  let ?v = "view (w_store w)" and ?migs = "opt_migrations o'"
  from m(1) obtain b e where e: "?v mk = Some (b, e)" by (auto simp: man_eq)
  from load_alone [OF s(1) e m(1)] obtain t where
    l: "loadManifest store None mk (w_store w) = (Inr (m, e), t)" "invar t" "view t = ?v" by blast
  from s(2) m(1) have im: "manifest_inv m" "wire_ok m" "size_ok ?v (Snapshot m)"
    by (auto simp: good_def coherent_def)
  have sto: "sto = store" "mk = pre @ ''manifest.json''" by (simp_all add: cfg)
  from openLocal_alone [of "w\<lparr>w_store := t\<rparr>" m d tmpName o'] l s(4) im m(2) obtain t1 f path owned where
    ol: "openLocal X store None tmpName m o' (w\<lparr>w_store := t\<rparr>) =
      (Inr (OpenConn d, Seq m, path, owned), w\<lparr>w_store := t1, w_disk := f\<rparr>)" "invar t1" "view t1 = ?v" by auto
  define st where "st = \<lparr>st_conn = OpenConn d, localSeq = Seq m, snapshotKey = bKey (Snapshot m),
      st_manifest = m, st_etag = e\<rparr>"
  have "staged X cfg gen view invar st (w\<lparr>w_store := t1, w_disk := f\<rparr>) m d"
    using s m im ol(2,3) replay_to_Seq [OF im(1), of X ?v]
    by (simp add: staged_def st_def handle_ok_def sees_current conn_ok_def Let_def) (simp add: manifest_inv_def)
  from runMigrations_alone [OF mig(2,3) this mig(4), of path] obtain st' w' m' where
    r: "runMigrations X cfg None path ?migs st (w\<lparr>w_store := t1, w_disk := f\<rparr>) = Some (None, st', w')"
      "staged X cfg gen view invar st' w' m' (migrate_content (pending (SchemaVersion m) ?migs) d)"
      "SchemaVersion m' = maxVersion ?migs" "Seq m' = Seq m"
      "st_conn st' = OpenConn (migrate_content (pending (SchemaVersion m) ?migs) d)" "localSeq st' = Seq m'"
      "st_manifest st' = m'" by blast
  define db where "db = \<lparr>db_cfg = cfg, db_st = st', db_localPath = path, db_opts = o', ownLocalFile = owned\<rparr>"
  have "Open X sto None emptyName tmpName pre opts w = Some (Inr db, w')"
    using pre l(1) ol(1) r(1) mig(1) cfg unfolding Open_def sto(1)
    by (simp add: Let_def on_store_def o [symmetric] sto(2) [symmetric] st_def db_def)
  moreover have "schemaVer cfg = maxVersion ?migs"
    using expectedSchema_max [OF mig(2,1)] by (simp add: cfg)
  ultimately show ?thesis using r by (intro exI [of _ db] exI [of _ w'] exI [of _ m']) (simp add: opened_def db_def)
qed

end

end
