(* ===== verification/Fs_Tree.thy ===== *)
theory Fs_Tree
  imports Prelude
begin

text \<open>
  The part of the operating system that \<^verbatim>\<open>blob_fs.go\<close> stands on: a directory tree below an
  \<^verbatim>\<open>os.Root\<close> and the calls on root-relative names (\<^verbatim>\<open>Open\<close>, \<^verbatim>\<open>Lstat\<close>, \<^verbatim>\<open>MkdirAll\<close>,
  \<^verbatim>\<open>OpenFile\<close> with \<^verbatim>\<open>O_CREATE|O_EXCL\<close>, \<^verbatim>\<open>Rename\<close>, \<^verbatim>\<open>Remove\<close>, \<^verbatim>\<open>ReadDir\<close>), the checks of
  \<^verbatim>\<open>io/fs\<close> on names, and the lemmas that say what each call does to the files of the tree.  A
  tree maps the path of an entry, the list of the elements of its name, to the entry; there are
  no symbolic links in it.
\<close>

section \<open>Names\<close>

type_synonym path = "string list"

text \<open>\<^verbatim>\<open>path.Join\<close> of elements without slashes.\<close>

fun join_path :: "path \<Rightarrow> string" where
  "join_path [] = []"
| "join_path [c] = c"
| "join_path (c # d # cs) = c @ CHR ''/'' # join_path (d # cs)"

text \<open>\<^verbatim>\<open>utf8.ValidString\<close>, by the table of well-formed byte sequences.\<close>

definition cont_byte :: "nat \<Rightarrow> bool" where
  "cont_byte b \<longleftrightarrow> 128 \<le> b \<and> b \<le> 191"

fun utf8_valid :: "nat list \<Rightarrow> bool" where
  "utf8_valid [] = True"
| "utf8_valid (a # s) =
     (if a < 128 then utf8_valid s
      else case s of
        [] \<Rightarrow> False
      | b # s1 \<Rightarrow>
          if 194 \<le> a \<and> a \<le> 223 then cont_byte b \<and> utf8_valid s1
          else case s1 of
            [] \<Rightarrow> False
          | c # s2 \<Rightarrow>
              if 224 \<le> a \<and> a \<le> 239
              then cont_byte b \<and> (a = 224 \<longrightarrow> 160 \<le> b) \<and> (a = 237 \<longrightarrow> b \<le> 159) \<and>
                   cont_byte c \<and> utf8_valid s2
              else case s2 of
                [] \<Rightarrow> False
              | d # s3 \<Rightarrow>
                  240 \<le> a \<and> a \<le> 244 \<and> cont_byte b \<and> (a = 240 \<longrightarrow> 144 \<le> b) \<and>
                  (a = 244 \<longrightarrow> b \<le> 143) \<and> cont_byte c \<and> cont_byte d \<and> utf8_valid s3)"

text \<open>
  \<^verbatim>\<open>fs.ValidPath\<close>: the name of the root is a dot; every other name is well-formed UTF-8 and has
  no empty element, no dot and no double dot.
\<close>

definition ValidPath :: "string \<Rightarrow> bool" where
  "ValidPath name \<longleftrightarrow>
     utf8_valid (map of_char name) \<and>
     (name = ''.'' \<or> list_all (\<lambda>c. c \<noteq> [] \<and> c \<noteq> ''.'' \<and> c \<noteq> ''..'') (SplitByte name CHR ''/''))"

text \<open>
  \<^verbatim>\<open>strings.ToLower\<close>, as far as a comparison with an ASCII name can tell: the ASCII letters, and
  the two letters outside ASCII whose lower case is in it, the Kelvin sign (to k) and the capital
  I with a dot (to i).  Other letters are lowered to letters outside ASCII and are kept here.
\<close>

definition lower_char :: "char \<Rightarrow> char" where
  "lower_char c = (if 65 \<le> (of_char c :: nat) \<and> (of_char c :: nat) \<le> 90 then char_of (of_char c + 32 :: nat) else c)"

fun ToLower :: "string \<Rightarrow> string" where
  "ToLower [] = []"
| "ToLower (a # s) =
     (if a = CHR 0xE2 \<and> take 2 s = [CHR 0x84, CHR 0xAA] then CHR ''k'' # ToLower (drop 2 s)
      else if a = CHR 0xC4 \<and> take 1 s = [CHR 0xB0] then CHR ''i'' # ToLower (drop 1 s)
      else lower_char a # ToLower s)"

section \<open>Trees\<close>

datatype node =
    FileNode bytes int
  | DirNode

type_synonym tree = "(path \<times> node) list"

text \<open>The errors that the callers tell apart, and some that they only pass on.\<close>

definition fs_ErrNotExist :: err where
  "fs_ErrNotExist = OtherErr ''file does not exist''"

definition fs_ErrExist :: err where
  "fs_ErrExist = OtherErr ''file already exists''"

definition ENOTDIR :: err where
  "ENOTDIR = OtherErr ''not a directory''"

definition EISDIR :: err where
  "EISDIR = OtherErr ''is a directory''"

definition ENOTEMPTY :: err where
  "ENOTEMPTY = OtherErr ''directory not empty''"

lemmas fs_errors = fs_ErrNotExist_def fs_ErrExist_def ENOTDIR_def EISDIR_def ENOTEMPTY_def

text \<open>Opening the directories of a path one by one, below the directory \<open>d\<close>.\<close>

fun open_dir :: "tree \<Rightarrow> path \<Rightarrow> path \<Rightarrow> err option" where
  "open_dir t d [] = None"
| "open_dir t d (c # cs) =
     (case map_of t (d @ [c]) of
        None \<Rightarrow> Some fs_ErrNotExist
      | Some (FileNode b m) \<Rightarrow> Some ENOTDIR
      | Some DirNode \<Rightarrow> open_dir t (d @ [c]) cs)"

definition root_Lstat :: "path \<Rightarrow> tree \<Rightarrow> node result \<times> tree" where
  "root_Lstat p t =
     (case open_dir t [] (butlast p) of
        Some e \<Rightarrow> (Inl e, t)
      | None \<Rightarrow> (case map_of t p of None \<Rightarrow> (Inl fs_ErrNotExist, t) | Some n \<Rightarrow> (Inr n, t)))"

text \<open>
  Opening a name for reading gives a descriptor on what is there; without symbolic links that is
  what \<^verbatim>\<open>Lstat\<close> reports.
\<close>

definition root_Open :: "path \<Rightarrow> tree \<Rightarrow> node result \<times> tree" where
  "root_Open p t = root_Lstat p t"

fun mkdirs :: "path \<Rightarrow> path \<Rightarrow> tree \<Rightarrow> unit result \<times> tree" where
  "mkdirs d [] t = (Inr (), t)"
| "mkdirs d (c # cs) t =
     (case map_of t (d @ [c]) of
        None \<Rightarrow> mkdirs (d @ [c]) cs (AList.update (d @ [c]) DirNode t)
      | Some (FileNode b m) \<Rightarrow> (Inl ENOTDIR, t)
      | Some DirNode \<Rightarrow> mkdirs (d @ [c]) cs t)"

definition root_MkdirAll :: "path \<Rightarrow> tree \<Rightarrow> unit result \<times> tree" where
  "root_MkdirAll p t = mkdirs [] p t"

definition root_Create :: "int \<Rightarrow> path \<Rightarrow> tree \<Rightarrow> unit result \<times> tree" where
  "root_Create now p t =
     (case open_dir t [] (butlast p) of
        Some e \<Rightarrow> (Inl e, t)
      | None \<Rightarrow> (case map_of t p of
          Some n \<Rightarrow> (Inl fs_ErrExist, t)
        | None \<Rightarrow> (Inr (), AList.update p (FileNode [] now) t)))"

text \<open>Writing through the descriptor of a file: it stays with the file, which is at \<open>p\<close>.\<close>

definition file_Write :: "int \<Rightarrow> path \<Rightarrow> bytes \<Rightarrow> tree \<Rightarrow> unit result \<times> tree" where
  "file_Write now p b t = (Inr (), AList.update p (FileNode b now) t)"

definition has_entries :: "tree \<Rightarrow> path \<Rightarrow> bool" where
  "has_entries t p \<longleftrightarrow> list_ex (\<lambda>q. q \<noteq> [] \<and> butlast q = p) (map fst t)"

definition root_Remove :: "path \<Rightarrow> tree \<Rightarrow> unit result \<times> tree" where
  "root_Remove p t =
     (case open_dir t [] (butlast p) of
        Some e \<Rightarrow> (Inl e, t)
      | None \<Rightarrow> (case map_of t p of
          None \<Rightarrow> (Inl fs_ErrNotExist, t)
        | Some (FileNode b m) \<Rightarrow> (Inr (), AList.delete p t)
        | Some DirNode \<Rightarrow>
            if has_entries t p then (Inl ENOTEMPTY, t) else (Inr (), AList.delete p t)))"

text \<open>\<^verbatim>\<open>Rename\<close> of a file; the source of the model never renames a directory.\<close>

definition root_Rename :: "path \<Rightarrow> path \<Rightarrow> tree \<Rightarrow> unit result \<times> tree" where
  "root_Rename p q t =
     (case (open_dir t [] (butlast p), open_dir t [] (butlast q)) of
        (Some e, _) \<Rightarrow> (Inl e, t)
      | (None, Some e) \<Rightarrow> (Inl e, t)
      | (None, None) \<Rightarrow>
          (case (map_of t p, map_of t q) of
             (None, _) \<Rightarrow> (Inl fs_ErrNotExist, t)
           | (Some n, Some DirNode) \<Rightarrow> (Inl EISDIR, t)
           | (Some n, _) \<Rightarrow> (Inr (), AList.update q n (AList.delete p t))))"

text \<open>\<^verbatim>\<open>ReadDir\<close>: the entries of a directory in the order of their names, with their types.\<close>

definition root_ReadDir :: "path \<Rightarrow> tree \<Rightarrow> (path \<times> bool) list result \<times> tree" where
  "root_ReadDir p t =
     (case open_dir t [] p of
        Some e \<Rightarrow> (Inl e, t)
      | None \<Rightarrow> (Inr (map (\<lambda>q. (q, map_of t q = Some DirNode))
          (sort (filter (\<lambda>q. q \<noteq> [] \<and> butlast q = p) (map fst t)))), t))"

section \<open>Lemmas on names\<close>

definition name_ok :: "string \<Rightarrow> bool" where
  "name_ok c \<longleftrightarrow> c \<noteq> [] \<and> CHR ''/'' \<notin> set c"

declare SplitByte_nonempty [simp]

lemma join_SplitByte [simp]: "join_path (SplitByte s CHR ''/'') = s"
proof (induction s)
  case (Cons x s)
  then show ?case
    by (cases "SplitByte s CHR ''/''"; cases "tl (SplitByte s CHR ''/'')") auto
qed simp

lemma SplitByte_no_sep: "w \<in> set (SplitByte s c) \<Longrightarrow> c \<notin> set w"
  by (induction s c arbitrary: w rule: SplitByte.induct) (auto split: if_splits list.splits)

lemma SplitByte_subset: "w \<in> set (SplitByte s c) \<Longrightarrow> set w \<subseteq> set s"
proof (induction s c arbitrary: w rule: SplitByte.induct)
  case (2 x xs c)
  show ?case
  proof (cases "x = c")
    case False
    obtain v vs where v: "SplitByte xs c = v # vs" by (metis SplitByte_nonempty list.exhaust)
    then have "set v \<subseteq> set xs" "\<forall>u \<in> set vs. set u \<subseteq> set xs" using 2(2) [OF False] by auto
    with 2(3) False v show ?thesis by auto
  qed (use 2 in auto)
qed simp

lemma SplitByte_single: "CHR ''/'' \<notin> set c \<Longrightarrow> SplitByte c CHR ''/'' = [c]"
  by (induction c) auto

lemma SplitByte_append: "CHR ''/'' \<notin> set c \<Longrightarrow> SplitByte (c @ CHR ''/'' # s) CHR ''/'' = c # SplitByte s CHR ''/''"
  by (induction c) auto

lemma SplitByte_join [simp]:
  "p \<noteq> [] \<Longrightarrow> \<forall>c \<in> set p. CHR ''/'' \<notin> set c \<Longrightarrow> SplitByte (join_path p) CHR ''/'' = p"
  by (induction p rule: join_path.induct) (simp_all add: SplitByte_single SplitByte_append)

lemma SplitByte_inj: "SplitByte s CHR ''/'' = SplitByte s' CHR ''/'' \<longleftrightarrow> s = s'"
  by (metis join_SplitByte)

section \<open>Lemmas on trees\<close>

text \<open>
  A tree: no path twice, every element of a path is a name, and an entry is at the top or in a
  directory.
\<close>

definition in_dir :: "tree \<Rightarrow> path \<Rightarrow> bool" where
  "in_dir t d \<longleftrightarrow> d = [] \<or> map_of t d = Some DirNode"

definition tree_ok :: "tree \<Rightarrow> bool" where
  "tree_ok t \<longleftrightarrow> distinct (map fst t) \<and>
     (\<forall>p n. map_of t p = Some n \<longrightarrow> p \<noteq> [] \<and> list_all name_ok p \<and> in_dir t (butlast p))"

text \<open>The content of the file at a path, if there is one.\<close>

definition files :: "tree \<Rightarrow> path \<Rightarrow> bytes option" where
  "files t p = (case map_of t p of Some (FileNode b m) \<Rightarrow> Some b | _ \<Rightarrow> None)"

lemma tree_okD:
  assumes "tree_ok t" and "map_of t p = Some n"
  shows "p \<noteq> []" and "list_all name_ok p" and "in_dir t (butlast p)"
  using assms by (auto simp: tree_ok_def)

lemma tree_ok_root: "tree_ok t \<Longrightarrow> map_of t [] = None"
  using tree_okD(1) by fastforce

lemma open_dir_snoc:
  "open_dir t d (cs @ [c]) =
     (case open_dir t d cs of Some e \<Rightarrow> Some e
      | None \<Rightarrow> (case map_of t (d @ cs @ [c]) of None \<Rightarrow> Some fs_ErrNotExist
          | Some (FileNode b m) \<Rightarrow> Some ENOTDIR | Some DirNode \<Rightarrow> None))"
  by (induction cs arbitrary: d) (auto split: option.splits node.splits)

lemma open_dir_iff:
  assumes "tree_ok t"
  shows "open_dir t [] p = None \<longleftrightarrow> in_dir t p"
proof (induction p rule: rev_induct)
  case (snoc c p)
  have "map_of t (p @ [c]) = Some n \<Longrightarrow> in_dir t p" for n
    using tree_okD(3) [OF assms, of "p @ [c]" n] by simp
  with snoc show ?case
    by (auto simp: open_dir_snoc in_dir_def split: option.splits node.splits)
qed (simp add: in_dir_def)

lemma open_dir_errors: "open_dir t d cs = Some e \<Longrightarrow> e = fs_ErrNotExist \<or> e = ENOTDIR"
  by (induction t d cs rule: open_dir.induct) (auto split: option.splits node.splits)

lemma open_dir_notdir:
  "open_dir t d cs = Some ENOTDIR \<Longrightarrow> \<exists>q. prefix q cs \<and> files t (d @ q) \<noteq> None"
proof (induction t d cs rule: open_dir.induct)
  case (2 t d c cs)
  show ?case
  proof (cases "map_of t (d @ [c])")
    case (Some n)
    show ?thesis
    proof (cases n)
      case (FileNode b m)
      with Some show ?thesis by (intro exI [of _ "[c]"]) (simp add: files_def)
    next
      case DirNode
      with Some 2 obtain q where "prefix q cs" "files t ((d @ [c]) @ q) \<noteq> None" by auto
      then show ?thesis by (intro exI [of _ "c # q"]) simp
    qed
  qed (use 2 in \<open>simp add: fs_errors\<close>)
qed simp

lemma Lstat_some: "tree_ok t \<Longrightarrow> map_of t p = Some n \<Longrightarrow> root_Lstat p t = (Inr n, t)"
  using tree_okD(3) by (fastforce simp: root_Lstat_def open_dir_iff split: option.splits)

lemma Lstat_cases:
  assumes "tree_ok t" and "root_Lstat p t = (r, t')"
  shows "t' = t" and "r = Inr n \<Longrightarrow> map_of t p = Some n"
    and "r = Inl e \<Longrightarrow> map_of t p = None \<and> (e = fs_ErrNotExist \<or> e = ENOTDIR)"
  using assms Lstat_some [OF assms(1), of p]
  by (cases "map_of t p"; auto simp: root_Lstat_def dest: open_dir_errors split: option.splits)+

text \<open>A name that no file is in the way of: what is not there is reported as not existing.\<close>

definition no_file_above :: "tree \<Rightarrow> path \<Rightarrow> bool" where
  "no_file_above t p \<longleftrightarrow> (\<forall>q. strict_prefix q p \<longrightarrow> files t q = None)"

lemma no_file_above_dir:
  assumes "no_file_above t p" and "open_dir t [] (butlast p) = Some e"
  shows "e = fs_ErrNotExist"
proof (rule ccontr)
  assume "e \<noteq> fs_ErrNotExist"
  with assms(2) open_dir_errors have "open_dir t [] (butlast p) = Some ENOTDIR" by blast
  from open_dir_notdir [OF this] obtain q where q: "prefix q (butlast p)" "files t q \<noteq> None" by auto
  have "p \<noteq> []" using assms(2) by auto
  then have "strict_prefix (butlast p) p" by (metis append_butlast_last_id strict_prefixI')
  with q(1) have "strict_prefix q p" by (rule prefix_order.le_less_trans)
  with q(2) assms(1) show False by (auto simp: no_file_above_def)
qed

lemma Lstat_none:
  assumes "tree_ok t" and "no_file_above t p" and "map_of t p = None"
  shows "root_Lstat p t = (Inl fs_ErrNotExist, t)"
  using assms no_file_above_dir [of t p]
  by (auto simp: root_Lstat_def split: option.splits)

section \<open>Changes to a tree\<close>

lemma map_of_AList_update: "map_of (AList.update p n t) = (map_of t)(p \<mapsto> n)"
  by (simp add: update_conv fun_eq_iff)

lemma map_of_AList_delete: "map_of (AList.delete p t) = (map_of t)(p := None)"
  by (simp add: delete_conv fun_eq_iff)

lemmas tree_maps = map_of_AList_update map_of_AList_delete

lemma in_dir_update:
  "in_dir t d \<Longrightarrow> (map_of t p = Some DirNode \<longrightarrow> n = DirNode) \<Longrightarrow> in_dir (AList.update p n t) d"
  by (auto simp: in_dir_def tree_maps)

lemma tree_ok_update:
  assumes "tree_ok t" and "p \<noteq> []" and "list_all name_ok p" and "in_dir t (butlast p)"
    and "map_of t p = Some DirNode \<longrightarrow> n = DirNode"
  shows "tree_ok (AList.update p n t)"
  using assms in_dir_update [OF _ assms(5)]
  by (auto simp: tree_ok_def tree_maps distinct_update split: if_splits)

lemma has_entries_iff: "has_entries t p \<longleftrightarrow> (\<exists>q n. map_of t q = Some n \<and> q \<noteq> [] \<and> butlast q = p)"
proof -
  have "has_entries t p \<longleftrightarrow> (\<exists>q \<in> dom (map_of t). q \<noteq> [] \<and> butlast q = p)"
    by (simp add: has_entries_def list_ex_iff dom_map_of_conv_image_fst)
  then show ?thesis by (simp only: dom_def) blast
qed

lemma file_no_entries:
  assumes "tree_ok t" and "map_of t p = Some (FileNode b m)"
  shows "\<not> has_entries t p"
  using tree_okD(3) [OF assms(1)] tree_okD(1) [OF assms] assms(2) by (force simp: has_entries_iff in_dir_def)

lemma tree_ok_delete:
  assumes "tree_ok t" and "\<not> has_entries t p"
  shows "tree_ok (AList.delete p t)"
proof -
  have "q \<noteq> [] \<and> list_all name_ok q \<and> in_dir (AList.delete p t) (butlast q)"
    if "map_of (AList.delete p t) q = Some n" for q n
  proof -
    have q: "map_of t q = Some n" using that by (simp add: tree_maps split: if_splits)
    from assms(2) q tree_okD(1) [OF assms(1) q] have "butlast q \<noteq> p" unfolding has_entries_iff by blast
    with tree_okD [OF assms(1) q] show ?thesis by (auto simp: in_dir_def tree_maps)
  qed
  moreover have "distinct (map fst (AList.delete p t))"
    using assms(1) by (simp add: tree_ok_def distinct_delete)
  ultimately show ?thesis by (simp add: tree_ok_def)
qed

lemma Remove_file:
  assumes "tree_ok t" and "map_of t p = Some (FileNode b m)"
  shows "root_Remove p t = (Inr (), AList.delete p t)"
  using assms tree_okD(3) [OF assms] by (simp add: root_Remove_def open_dir_iff [symmetric])

lemma files_update [simp]:
  "files (AList.update p n t) = (files t)(p := (case n of FileNode b m \<Rightarrow> Some b | DirNode \<Rightarrow> None))"
  by (auto simp: files_def tree_maps fun_eq_iff split: node.splits)

lemma files_delete [simp]: "files (AList.delete p t) = (files t)(p := None)"
  by (auto simp: files_def tree_maps fun_eq_iff)

lemma files_some: "files t p = Some b \<longleftrightarrow> (\<exists>m. map_of t p = Some (FileNode b m))"
  by (auto simp: files_def split: option.splits node.splits)

lemma mkdirs_spec:
  assumes "tree_ok t" and "in_dir t d" and "list_all name_ok cs" and "list_all name_ok d"
    and "mkdirs d cs t = (r, t')"
  shows "tree_ok t' \<and> files t' = files t \<and> (\<forall>p n. map_of t p = Some n \<longrightarrow> map_of t' p = Some n) \<and>
    (r = Inr () \<longrightarrow> in_dir t' (d @ cs))"
  using assms
proof (induction d cs t rule: mkdirs.induct)
  case (2 d c cs t)
  show ?case
  proof (cases "map_of t (d @ [c])")
    case None
    define u where "u = AList.update (d @ [c]) DirNode t"
    have "tree_ok u" unfolding u_def using 2 None by (intro tree_ok_update) auto
    moreover have "in_dir u (d @ [c])" by (simp add: u_def in_dir_def tree_maps)
    moreover have "files u = files t" using None by (auto simp: u_def files_def tree_maps fun_eq_iff)
    moreover have "map_of t p = Some n \<longrightarrow> map_of u p = Some n" for p n
      using None by (auto simp: u_def tree_maps)
    moreover have "mkdirs (d @ [c]) cs u = (r, t')" using 2 None by (simp add: u_def)
    ultimately show ?thesis using "2.IH"(1) [OF None] 2 by (simp add: u_def [symmetric])
  next
    case (Some n)
    with 2 show ?thesis
      by (cases n) (auto simp: in_dir_def)
  qed
qed auto

lemma mkdirs_free:
  assumes "tree_ok t" and "in_dir t d" and "list_all name_ok cs" and "list_all name_ok d"
    and "\<And>q. prefix q cs \<Longrightarrow> files t (d @ q) = None"
  shows "fst (mkdirs d cs t) = Inr ()"
  using assms
proof (induction d cs t rule: mkdirs.induct)
  case (2 d c cs t)
  have f: "prefix q cs \<Longrightarrow> files t ((d @ [c]) @ q) = None" for q
    using "2.prems"(5) [of "c # q"] by simp
  show ?case
  proof (cases "map_of t (d @ [c])")
    case None
    define u where "u = AList.update (d @ [c]) DirNode t"
    have "files u = files t" using None by (auto simp: u_def files_def tree_maps fun_eq_iff)
    moreover have "tree_ok u" unfolding u_def using 2 None by (intro tree_ok_update) auto
    ultimately show ?thesis using "2.IH"(1) [OF None] 2 None f
      by (simp add: u_def in_dir_def tree_maps)
  next
    case (Some n)
    with 2 f [of "[]"] show ?thesis
      by (cases n) (auto simp: in_dir_def files_def)
  qed
qed simp

end
