(* ===== verification/Blob_Fs.thy ===== *)
theory Blob_Fs
  imports Blob_Mem Fs_Tree
begin

text \<open>
  \<^verbatim>\<open>FileSystemBlobStore\<close> (\<^verbatim>\<open>blob_fs.go\<close>) over the directory trees of \<open>Fs_Tree\<close>.  The machine is
  part of the state: every system call may fail with the next error of a list, and outside the
  cross-process lock the next action of other processes on the tree happens before each call that
  looks up a name.  Calls on a descriptor (reading, writing, seeking, syncing) do not depend on
  what others do to the tree meanwhile.  What the store does inside \<^verbatim>\<open>withLock\<close> runs without
  interference.  The digest, the random bytes and \<^verbatim>\<open>flock\<close> (a third-party package) are
  arguments.
\<close>

section \<open>State\<close>

record fs_ext =
  fx_md5 :: "bytes \<Rightarrow> bytes"
  fx_rand :: "nat \<Rightarrow> bytes"
  fx_TryLock :: "ctx \<Rightarrow> nat \<Rightarrow> bool \<times> err option"

record FileSystemBlobStore =
  root :: tree
  rootPath :: string
  lockPath :: string
  fs_clock :: int
  fs_calls :: nat
  fs_io :: "string option list"
  fs_others :: "(tree \<Rightarrow> tree) list"

definition fsLockName :: string where
  "fsLockName = ''.s3db.lock''"

definition fsTmpPrefix :: string where
  "fsTmpPrefix = ''.s3db-tmp-''"

section \<open>System calls\<close>

definition sys :: "FileSystemBlobStore \<Rightarrow> err option \<times> FileSystemBlobStore" where
  "sys s =
     (case fs_io s of
        [] \<Rightarrow> (None, s)
      | x # xs \<Rightarrow> (map_option (\<lambda>msg. OtherErr (''i/o: '' @ msg)) x, s\<lparr>fs_io := xs\<rparr>))"

definition others_act :: "FileSystemBlobStore \<Rightarrow> FileSystemBlobStore" where
  "others_act s =
     (case fs_others s of [] \<Rightarrow> s | f # fs \<Rightarrow> s\<lparr>root := f (root s), fs_others := fs\<rparr>)"

text \<open>
  A call inside the lock or on a descriptor, and one on a name outside of the lock.
\<close>

definition held :: "(tree \<Rightarrow> 'a result \<times> tree) \<Rightarrow> FileSystemBlobStore \<Rightarrow> 'a result \<times> FileSystemBlobStore" where
  "held f s =
     (case sys s of
        (Some e, s') \<Rightarrow> (Inl e, s')
      | (None, s') \<Rightarrow> (case f (root s') of (r, t) \<Rightarrow> (r, s'\<lparr>root := t\<rparr>)))"

definition free :: "(tree \<Rightarrow> 'a result \<times> tree) \<Rightarrow> FileSystemBlobStore \<Rightarrow> 'a result \<times> FileSystemBlobStore" where
  "free f s = held f (others_act s)"

text \<open>A call that does not touch the tree: reading, seeking, syncing or closing a descriptor.\<close>

definition unchanged :: "'a \<Rightarrow> tree \<Rightarrow> 'a result \<times> tree" where
  "unchanged x t = (Inr x, t)"

definition and_then ::
  "('s \<Rightarrow> 'a result \<times> 's) \<Rightarrow> ('a \<Rightarrow> 's \<Rightarrow> 'b result \<times> 's) \<Rightarrow> 's \<Rightarrow> 'b result \<times> 's" where
  "and_then m f s = (case m s of (Inl e, t) \<Rightarrow> (Inl e, t) | (Inr a, t) \<Rightarrow> f a t)"

section \<open>Opening a store\<close>

text \<open>\<^verbatim>\<open>filepath.Join\<close> of a clean absolute path and one element.\<close>

definition filepath_Join :: "string \<Rightarrow> string \<Rightarrow> string" where
  "filepath_Join dir c = (if dir = ''/'' then dir @ c else dir @ CHR ''/'' # c)"

text \<open>
  The argument is the outcome of \<^verbatim>\<open>filepath.Abs\<close> and the state is the machine with the directory
  as it is; \<^verbatim>\<open>MkdirAll\<close> and \<^verbatim>\<open>OpenRoot\<close> may fail.
\<close>

definition NewFileSystemBlobStore ::
  "string result \<Rightarrow> FileSystemBlobStore \<Rightarrow> unit result \<times> FileSystemBlobStore" where
  "NewFileSystemBlobStore dir s =
     (case dir of
        Inl e \<Rightarrow> (Inl (Wrapped ''s3db: filesystem store: %w'' e), s)
      | Inr path \<Rightarrow>
          (case and_then (held (unchanged ())) (\<lambda>_. held (unchanged ())) s of
             (Inl e, s') \<Rightarrow> (Inl (Wrapped ''s3db: filesystem store: %w'' e), s')
           | (Inr _, s') \<Rightarrow>
               (Inr (), s'\<lparr>rootPath := path, lockPath := filepath_Join path fsLockName\<rparr>)))"

definition fs_Root :: "FileSystemBlobStore \<Rightarrow> string" where
  "fs_Root s = rootPath s"

definition fs_Close :: "FileSystemBlobStore \<Rightarrow> unit result \<times> FileSystemBlobStore" where
  "fs_Close s = held (unchanged ()) s"

section \<open>Keys\<close>

definition isReservedKey :: "string \<Rightarrow> bool" where
  "isReservedKey key =
     list_ex (\<lambda>comp. let lc = ToLower comp in lc = fsLockName \<or> HasPrefix lc fsTmpPrefix)
       (SplitByte key CHR ''/'')"

definition validateKey :: "string \<Rightarrow> err option" where
  "validateKey key =
     (if key = '''' then Some (OtherErr ''s3db: filesystem store: empty key'')
      else if \<not> ValidPath key \<or> key = ''.''
      then Some (OtherErr ''s3db: filesystem store: key is not a valid relative path'')
      else if CHR 0x5C \<in> set key then Some (OtherErr ''s3db: filesystem store: key contains a backslash'')
      else if isReservedKey key then Some (OtherErr ''s3db: filesystem store: key uses a reserved name'')
      else None)"

text \<open>The name of a key for \<^verbatim>\<open>os.Root\<close>, by its elements; \<^verbatim>\<open>filepath.Dir\<close> drops the last one.\<close>

definition nativeName :: "string \<Rightarrow> path" where
  "nativeName key = SplitByte key CHR ''/''"

section \<open>The lock\<close>

definition withLock ::
  "fs_ext \<Rightarrow> ctx \<Rightarrow> (FileSystemBlobStore \<Rightarrow> unit result \<times> FileSystemBlobStore) \<Rightarrow>
     FileSystemBlobStore \<Rightarrow> unit result \<times> FileSystemBlobStore" where
  "withLock X ctx fn s =
     (case ctx of
        Some e \<Rightarrow> (Inl (CtxErr e), s)
      | None \<Rightarrow>
          (let s' = others_act s\<lparr>fs_calls := Suc (fs_calls s)\<rparr>
           in case fx_TryLock X ctx (fs_calls s) of
                (locked, Some e) \<Rightarrow> (Inl e, s')
              | (False, None) \<Rightarrow> (Inr (), s')
              | (True, None) \<Rightarrow> fn s'))"

section \<open>Reading\<close>

definition mapFSErr :: "err \<Rightarrow> err" where
  "mapFSErr e = (if errors_Is e fs_ErrNotExist then ErrNotFound else e)"

text \<open>A descriptor stays with the file it was opened on, hence with this content and time.\<close>

definition openBlob :: "string \<Rightarrow> FileSystemBlobStore \<Rightarrow> (bytes \<times> int) result \<times> FileSystemBlobStore" where
  "openBlob key s =
     (case free (root_Open (nativeName key)) s of
        (Inl e, s') \<Rightarrow> (Inl (mapFSErr e), s')
      | (Inr n, s') \<Rightarrow>
          and_then (held (unchanged n))
            (\<lambda>fi. case fi of DirNode \<Rightarrow> Pair (Inl ErrNotFound) | FileNode b m \<Rightarrow> Pair (Inr (b, m))) s')"

definition fs_Get ::
  "fs_ext \<Rightarrow> ctx \<Rightarrow> string \<Rightarrow> FileSystemBlobStore \<Rightarrow> (body \<times> string) result \<times> FileSystemBlobStore" where
  "fs_Get X ctx key s =
     (case ctx of
        Some e \<Rightarrow> (Inl (CtxErr e), s)
      | None \<Rightarrow>
          (case validateKey key of
             Some e \<Rightarrow> (Inl e, s)
           | None \<Rightarrow>
               and_then (openBlob key)
                 (\<lambda>(b, m). and_then (held (unchanged (Compute (fx_md5 X) b)))
                   (\<lambda>h. and_then (held (unchanged ()))
                     (\<lambda>_ s'. case held (unchanged b) s' of (rd, s'') \<Rightarrow> (Inr (rd, h), s'')))) s))"

definition fs_GetRange ::
  "ctx \<Rightarrow> string \<Rightarrow> int \<Rightarrow> int \<Rightarrow> FileSystemBlobStore \<Rightarrow> body result \<times> FileSystemBlobStore" where
  "fs_GetRange ctx key start end s =
     (case ctx of
        Some e \<Rightarrow> (Inl (CtxErr e), s)
      | None \<Rightarrow>
          (case validateKey key of
             Some e \<Rightarrow> (Inl e, s)
           | None \<Rightarrow>
               and_then (openBlob key)
                 (\<lambda>(b, m) s'.
                    let size = int (length b)
                    in if size \<le> start then (Inr (Inr []), s')
                       else let end' = (if size \<le> end then size - 1 else end)
                            in if start < 0 then (Inl (OtherErr ''invalid argument''), s')
                               else and_then (held (unchanged ()))
                                 (\<lambda>_ s'. case held (unchanged (take (nat (end' - start + 1)) (drop (nat start) b))) s'
                                    of (rd, s'') \<Rightarrow> (Inr rd, s'')) s') s))"

definition fs_Stat ::
  "fs_ext \<Rightarrow> ctx \<Rightarrow> string \<Rightarrow> FileSystemBlobStore \<Rightarrow> BlobInfo result \<times> FileSystemBlobStore" where
  "fs_Stat X ctx key s =
     (case ctx of
        Some e \<Rightarrow> (Inl (CtxErr e), s)
      | None \<Rightarrow>
          (case validateKey key of
             Some e \<Rightarrow> (Inl e, s)
           | None \<Rightarrow>
               and_then (openBlob key)
                 (\<lambda>(b, m). and_then (held (unchanged (Compute (fx_md5 X) b)))
                   (\<lambda>h. Pair (Inr \<lparr>ETag = h, Size = int (length b), LastModified = m\<rparr>))) s))"

section \<open>Writing\<close>

text \<open>\<^verbatim>\<open>computeETag\<close>, called inside the lock; reading a directory fails.\<close>

definition computeETag ::
  "fs_ext \<Rightarrow> path \<Rightarrow> FileSystemBlobStore \<Rightarrow> string result \<times> FileSystemBlobStore" where
  "computeETag X name s =
     and_then (held (root_Open name))
       (\<lambda>n. case n of
          DirNode \<Rightarrow> Pair (Inl EISDIR)
        | FileNode b m \<Rightarrow> held (unchanged (Compute (fx_md5 X) b))) s"

fun createTemp ::
  "fs_ext \<Rightarrow> path \<Rightarrow> nat \<Rightarrow> FileSystemBlobStore \<Rightarrow> path result \<times> FileSystemBlobStore" where
  "createTemp X dir 0 s = (Inl (OtherErr ''s3db: filesystem store: could not create temp file''), s)"
| "createTemp X dir (Suc tries) s =
     (case held (unchanged (fx_rand X (fs_calls s))) (s\<lparr>fs_calls := Suc (fs_calls s)\<rparr>) of
        (Inl e, s1) \<Rightarrow> (Inl e, s1)
      | (Inr b, s1) \<Rightarrow>
          (let name = dir @ [fsTmpPrefix @ hex_EncodeToString b]
           in case free (root_Create (fs_clock s1) name) s1 of
                (Inr _, s2) \<Rightarrow> (Inr name, s2)
              | (Inl e, s2) \<Rightarrow>
                  if errors_Is e fs_ErrExist then createTemp X dir tries s2
                  else if errors_Is e fs_ErrNotExist \<and> dir \<noteq> []
                  then (case free (root_MkdirAll dir) s2 of
                          (Inl e', s3) \<Rightarrow> (Inl e', s3)
                        | (Inr _, s3) \<Rightarrow> createTemp X dir tries s3)
                  else (Inl e, s2)))"

text \<open>
  The body of the closure that \<^verbatim>\<open>Put\<close> runs inside the lock, from the outcome of \<^verbatim>\<open>Lstat\<close> on.
\<close>

definition putTarget ::
  "fs_ext \<Rightarrow> path \<Rightarrow> path \<Rightarrow> PutCondition \<Rightarrow> node option \<Rightarrow> FileSystemBlobStore \<Rightarrow>
     unit result \<times> FileSystemBlobStore" where
  "putTarget X tmpName name cond target s =
     (let targetIsDir = (target = Some DirNode);
          targetExists = (target \<noteq> None \<and> \<not> targetIsDir);
          finish = (\<lambda>s'. if targetIsDir
                        then (Inl (OtherErr ''s3db: filesystem store: key conflicts with an existing directory''), s')
                        else held (root_Rename tmpName name) s')
      in if IfNoneMatch cond \<and> targetExists then (Inl ErrPreconditionFailed, s)
         else if IfMatch cond \<noteq> ''''
         then if \<not> targetExists then (Inl ErrPreconditionFailed, s)
              else (case computeETag X name s of
                      (Inl cerr, s') \<Rightarrow>
                        (Inl (if errors_Is cerr fs_ErrNotExist then ErrPreconditionFailed else cerr), s')
                    | (Inr cur, s') \<Rightarrow>
                        if cur \<noteq> Normalize (IfMatch cond) then (Inl ErrPreconditionFailed, s') else finish s')
         else finish s)"

definition putLocked ::
  "fs_ext \<Rightarrow> path \<Rightarrow> path \<Rightarrow> PutCondition \<Rightarrow> FileSystemBlobStore \<Rightarrow> unit result \<times> FileSystemBlobStore" where
  "putLocked X tmpName name cond s =
     (case held (root_Lstat name) s of
        (Inr fi, s') \<Rightarrow> putTarget X tmpName name cond (Some fi) s'
      | (Inl lerr, s') \<Rightarrow>
          if errors_Is lerr fs_ErrNotExist then putTarget X tmpName name cond None s' else (Inl lerr, s'))"

text \<open>
  From the temporary file on: copy, sync and close, then the locked part; on an error the
  temporary file is removed, and a failure to remove it is ignored.  How much of a failed copy is
  in the file does not matter, since its name is reserved.
\<close>

definition stagePut ::
  "fs_ext \<Rightarrow> ctx \<Rightarrow> path \<Rightarrow> body \<Rightarrow> PutCondition \<Rightarrow> path \<Rightarrow> FileSystemBlobStore \<Rightarrow>
     string result \<times> FileSystemBlobStore" where
  "stagePut X ctx name body cond tmpName s =
     (case (case body of
              Inl e \<Rightarrow> (Inl e, s)
            | Inr b \<Rightarrow>
                and_then (held (file_Write (fs_clock s) tmpName b))
                  (\<lambda>_. and_then (held (unchanged ()))
                    (\<lambda>_. and_then (held (unchanged ()))
                      (\<lambda>_. and_then (withLock X ctx (putLocked X tmpName name cond))
                        (\<lambda>_. Pair (Inr (Compute (fx_md5 X) b)))))) s) of
        (Inr newETag, s') \<Rightarrow> (Inr newETag, s')
      | (Inl e, s') \<Rightarrow> (Inl e, snd (free (root_Remove tmpName) s')))"

definition fs_Put ::
  "fs_ext \<Rightarrow> ctx \<Rightarrow> string \<Rightarrow> body \<Rightarrow> PutCondition \<Rightarrow> FileSystemBlobStore \<Rightarrow>
     string result \<times> FileSystemBlobStore" where
  "fs_Put X ctx key body cond s =
     (case ctx of
        Some e \<Rightarrow> (Inl (CtxErr e), s)
      | None \<Rightarrow>
          if IfMatch cond \<noteq> '''' \<and> IfNoneMatch cond then (Inl errBothConditions, s)
          else (case validateKey key of
             Some e \<Rightarrow> (Inl e, s)
           | None \<Rightarrow>
               (let name = nativeName key; dir = butlast name
                in and_then (if dir = [] then Pair (Inr ()) else free (root_MkdirAll dir))
                     (\<lambda>_. and_then (createTemp X dir 10) (stagePut X ctx name body cond)) s)))"

section \<open>Listing and deleting\<close>

text \<open>
  \<^verbatim>\<open>fs.WalkDir\<close> with the function of \<^verbatim>\<open>List\<close>: directories are read when the walk reaches them, a
  directory that has gone is skipped, any other error ends the walk.  The first argument bounds
  the depth, as the length of a path name is bounded; with directories nested deeper the walk
  ends with an error.
\<close>

fun walkDir ::
  "string \<Rightarrow> nat \<Rightarrow> (path \<times> bool) list \<Rightarrow> string list \<Rightarrow> FileSystemBlobStore \<Rightarrow>
     string list result \<times> FileSystemBlobStore" where
  "walkDir pre n [] keys s = (Inr keys, s)"
| "walkDir pre n ((p, False) # es) keys s =
     walkDir pre n es (if \<not> isReservedKey (join_path p) \<and> HasPrefix (join_path p) pre
                       then keys @ [join_path p] else keys) s"
| "walkDir pre 0 ((p, True) # es) keys s = (Inl (OtherErr ''file name too long''), s)"
| "walkDir pre (Suc n) ((p, True) # es) keys s =
     (case free (root_ReadDir p) s of
        (Inl e, s') \<Rightarrow>
          if errors_Is e fs_ErrNotExist then walkDir pre (Suc n) es keys s' else (Inl e, s')
      | (Inr ds, s') \<Rightarrow>
          (case walkDir pre n ds keys s' of
             (Inl e, s'') \<Rightarrow> (Inl e, s'')
           | (Inr keys', s'') \<Rightarrow> walkDir pre (Suc n) es keys' s''))"

definition maxDepth :: nat where
  "maxDepth = 4096"

definition fs_List ::
  "ctx \<Rightarrow> string \<Rightarrow> FileSystemBlobStore \<Rightarrow> string list result \<times> FileSystemBlobStore" where
  "fs_List ctx pre s =
     (case ctx of
        Some e \<Rightarrow> (Inl (CtxErr e), s)
      | None \<Rightarrow> and_then (walkDir pre maxDepth [([], True)] []) (\<lambda>keys. Pair (Inr (sort keys))) s)"

function pruneEmptyDirs :: "path \<Rightarrow> FileSystemBlobStore \<Rightarrow> FileSystemBlobStore" where
  "pruneEmptyDirs dir s =
     (if dir = [] then s
      else case held (root_Remove dir) s of
             (Inl e, s') \<Rightarrow> s'
           | (Inr _, s') \<Rightarrow> pruneEmptyDirs (butlast dir) s')"
  by pat_completeness auto

termination by (relation "measure (\<lambda>(dir, s). length dir)") auto

declare pruneEmptyDirs.simps [simp del]

definition deleteLocked :: "path \<Rightarrow> FileSystemBlobStore \<Rightarrow> unit result \<times> FileSystemBlobStore" where
  "deleteLocked name s =
     (case held (root_Lstat name) s of
        (Inl e, s') \<Rightarrow> (if errors_Is e fs_ErrNotExist then Inr () else Inl e, s')
      | (Inr DirNode, s') \<Rightarrow> (Inr (), s')
      | (Inr (FileNode b m), s') \<Rightarrow>
          (case held (root_Remove name) s' of
             (Inl e, s'') \<Rightarrow>
               if errors_Is e fs_ErrNotExist then (Inr (), pruneEmptyDirs (butlast name) s'') else (Inl e, s'')
           | (Inr _, s'') \<Rightarrow> (Inr (), pruneEmptyDirs (butlast name) s'')))"

definition err_of :: "unit result \<Rightarrow> err option" where
  "err_of r = (case r of Inl e \<Rightarrow> Some e | Inr _ \<Rightarrow> None)"

definition fs_Delete ::
  "fs_ext \<Rightarrow> ctx \<Rightarrow> string \<Rightarrow> FileSystemBlobStore \<Rightarrow> err option \<times> FileSystemBlobStore" where
  "fs_Delete X ctx key s =
     (case ctx of
        Some e \<Rightarrow> (Some (CtxErr e), s)
      | None \<Rightarrow>
          (case validateKey key of
             Some e \<Rightarrow> (Some e, s)
           | None \<Rightarrow> apfst err_of (withLock X ctx (deleteLocked (nativeName key)) s)))"

fun deleteKeys ::
  "fs_ext \<Rightarrow> ctx \<Rightarrow> string list \<Rightarrow> FileSystemBlobStore \<Rightarrow> err option \<times> FileSystemBlobStore" where
  "deleteKeys X ctx [] s = (None, s)"
| "deleteKeys X ctx (k # ks) s =
     (case fs_Delete X ctx k s of (Some e, s') \<Rightarrow> (Some e, s') | (None, s') \<Rightarrow> deleteKeys X ctx ks s')"

definition fs_DeletePrefix ::
  "fs_ext \<Rightarrow> ctx \<Rightarrow> string \<Rightarrow> FileSystemBlobStore \<Rightarrow> err option \<times> FileSystemBlobStore" where
  "fs_DeletePrefix X ctx pre s =
     (case fs_List ctx pre s of
        (Inl e, s') \<Rightarrow> (Some e, s')
      | (Inr keys, s') \<Rightarrow> deleteKeys X ctx keys s')"

definition fs_store :: "fs_ext \<Rightarrow> FileSystemBlobStore BlobStore" where
  "fs_store X =
     \<lparr>Get = fs_Get X, GetRange = fs_GetRange, Stat = fs_Stat X, Put = fs_Put X,
      ListKeys = fs_List, Delete = fs_Delete X, DeletePrefix = fs_DeletePrefix X\<rparr>"

end
