(* ===== verification/Fs_Contract.thy ===== *)
theory Fs_Contract
  imports Blob_Fs
begin

text \<open>
  \<^verbatim>\<open>FileSystemBlobStore\<close> keeps the contract \<open>cas_store\<close> under every failure of a system call and
  every interference of other processes that respects the tree and the temporary files of this
  process: a \<^verbatim>\<open>Put\<close> is one compare-and-swap at the moment the lock is held, a failed one changes
  no object, and what is read is the content at one moment.
\<close>

section \<open>View, invariant and interference\<close>

definition tree_view :: "fs_ext \<Rightarrow> tree \<Rightarrow> objs" where
  "tree_view X t k =
     (if validateKey k = None
      then map_option (\<lambda>b. (b, Compute (fx_md5 X) b)) (files t (nativeName k)) else None)"

definition fs_view :: "fs_ext \<Rightarrow> FileSystemBlobStore \<Rightarrow> objs" where
  "fs_view X s = tree_view X (root s)"

text \<open>The names of the temporary files of this process.\<close>

definition tmp_path :: "fs_ext \<Rightarrow> path \<Rightarrow> bool" where
  "tmp_path X p \<longleftrightarrow> (\<exists>d n. p = d @ [fsTmpPrefix @ hex_EncodeToString (fx_rand X n)])"

text \<open>
  What other processes, or a call of this one, may do to the tree: it stays a tree, the objects
  change within \<open>R\<close>, and the temporary files of this process stay as they are.
\<close>

definition moves :: "fs_ext \<Rightarrow> (objs \<Rightarrow> objs \<Rightarrow> bool) \<Rightarrow> tree \<Rightarrow> tree \<Rightarrow> bool" where
  "moves X R t t' \<longleftrightarrow> tree_ok t' \<and> R (tree_view X t) (tree_view X t') \<and>
     (\<forall>p. tmp_path X p \<longrightarrow> files t p \<noteq> None \<longrightarrow> files t' p = files t p)"

definition fs_invar :: "fs_ext \<Rightarrow> (objs \<Rightarrow> objs \<Rightarrow> bool) \<Rightarrow> FileSystemBlobStore \<Rightarrow> bool" where
  "fs_invar X R s \<longleftrightarrow> tree_ok (root s) \<and>
     (\<forall>f \<in> set (fs_others s). \<forall>t. tree_ok t \<longrightarrow> moves X R t (f t))"

lemma lower_ascii [simp]: "c \<in> set fsTmpPrefix \<Longrightarrow> lower_char c = c"
  by (auto simp: fsTmpPrefix_def lower_char_def)

lemma reserved_tmp: "HasPrefix (ToLower (fsTmpPrefix @ s)) fsTmpPrefix"
  by (simp add: fsTmpPrefix_def HasPrefix_def lower_char_def)

lemma valid_not_tmp:
  assumes "validateKey k = None"
  shows "\<not> tmp_path X (nativeName k)"
proof
  assume "tmp_path X (nativeName k)"
  then obtain d n where "SplitByte k CHR ''/'' = d @ [fsTmpPrefix @ hex_EncodeToString (fx_rand X n)]"
    by (auto simp: tmp_path_def nativeName_def)
  then have "isReservedKey k" using reserved_tmp by (simp add: isReservedKey_def Let_def)
  with assms show False by (auto simp: validateKey_def split: if_splits)
qed

lemma valid_names:
  assumes "validateKey k = None"
  shows "nativeName k \<noteq> []" and "list_all name_ok (nativeName k)" and "join_path (nativeName k) = k"
  using assms SplitByte_no_sep [of _ k "CHR ''/''"]
  by (auto simp: nativeName_def validateKey_def ValidPath_def name_ok_def list_all_iff split: if_splits)

lemma nativeName_inj: "nativeName k = nativeName l \<longleftrightarrow> k = l"
  by (simp add: nativeName_def SplitByte_inj)

lemma tree_view_cong:
  assumes "\<And>p. \<not> tmp_path X p \<Longrightarrow> files t' p = files t p"
  shows "tree_view X t' = tree_view X t"
proof
  fix k
  show "tree_view X t' k = tree_view X t k"
  proof (cases "validateKey k = None")
    case True
    with assms [OF valid_not_tmp [OF True]] show ?thesis by (simp add: tree_view_def)
  qed (auto simp: tree_view_def)
qed

lemma tree_view_put:
  assumes "validateKey k = None" and "files t' = (files t)(p := None, nativeName k \<mapsto> b)" and "tmp_path X p"
  shows "tree_view X t' = (tree_view X t)(k \<mapsto> (b, Compute (fx_md5 X) b))"
proof
  fix l
  show "tree_view X t' l = ((tree_view X t)(k \<mapsto> (b, Compute (fx_md5 X) b))) l"
  proof (cases "validateKey l = None")
    case True
    with valid_not_tmp [OF True, of X] assms show ?thesis
      by (auto simp: tree_view_def nativeName_inj)
  qed (use assms(1) in \<open>auto simp: tree_view_def\<close>)
qed

lemma tree_view_del:
  assumes "validateKey k = None" and "files t' = (files t)(nativeName k := None)"
  shows "tree_view X t' = (tree_view X t)(k := None)"
  using assms by (auto simp: tree_view_def fun_eq_iff nativeName_inj)

lemma others_act_simps [simp]:
  "fs_others s = [] \<Longrightarrow> others_act s = s" "fs_io (others_act s) = fs_io s"
  "fs_calls (others_act s) = fs_calls s" "fs_clock (others_act s) = fs_clock s"
  by (simp_all add: others_act_def split: list.splits)

lemma held_cases:
  assumes "held f s = (r, s')"
  obtains (fault) e where "r = Inl (OtherErr (''i/o: '' @ e))" "root s' = root s" "fs_others s' = fs_others s"
  | (run) "f (root s) = (r, root s')" "fs_others s' = fs_others s"
proof (cases "fst (sys s)")
  case None
  then obtain u where u: "sys s = (None, u)" by (metis prod.collapse)
  then have "root u = root s" "fs_others u = fs_others s"
    by (auto simp: sys_def split: list.splits)
  with assms u have "f (root s) = (r, root s') \<and> fs_others s' = fs_others s"
    by (auto simp: held_def split: prod.splits)
  with run show ?thesis by blast
next
  case (Some e)
  then obtain u where u: "sys s = (Some e, u)" by (metis prod.collapse)
  then have "root u = root s" "fs_others u = fs_others s" "\<exists>m. e = OtherErr (''i/o: '' @ m)"
    by (auto simp: sys_def split: list.splits)
  with assms u fault show ?thesis by (auto simp: held_def)
qed

lemma io_errors [simp]:
  "\<not> errors_Is (OtherErr (''i/o: '' @ e)) fs_ErrNotExist" "\<not> errors_Is (OtherErr (''i/o: '' @ e)) fs_ErrExist"
  "\<not> errors_Is ENOTDIR fs_ErrNotExist" "\<not> errors_Is EISDIR fs_ErrNotExist" "\<not> errors_Is ENOTEMPTY fs_ErrNotExist"
  "errors_Is fs_ErrNotExist fs_ErrNotExist" "\<not> errors_Is fs_ErrNotExist fs_ErrExist"
  by (simp_all add: fs_errors)

lemma hex_digit_no_slash: "n < 16 \<Longrightarrow> hex_digit n \<noteq> CHR ''/''"
proof
  assume "n < 16" "hex_digit n = CHR ''/''"
  then have "of_char (hex_digit n) = (47 :: nat)" by simp
  with \<open>n < 16\<close> show False by (simp add: hex_digit_def of_char_of split: if_splits)
qed

lemma hex_no_slash: "CHR ''/'' \<notin> set (hex_EncodeToString b)"
proof (induction b)
  case (Cons c b)
  have "hex_digit (of_char c div 16) \<noteq> CHR ''/''" by (simp add: hex_digit_no_slash of_char_div16)
  moreover have "hex_digit (of_char c mod 16) \<noteq> CHR ''/''" by (simp add: hex_digit_no_slash)
  ultimately show ?case using Cons by (auto simp: hex_EncodeToString_Cons)
qed (simp add: hex_EncodeToString_def)

lemma tmp_name_ok: "name_ok (fsTmpPrefix @ hex_EncodeToString b)"
  using hex_no_slash by (simp add: name_ok_def fsTmpPrefix_def)

section \<open>Calls keep the invariant\<close>

locale fs_disk = digest "fx_md5 X" for X :: fs_ext +
  fixes R :: "objs \<Rightarrow> objs \<Rightarrow> bool"
  assumes R_refl: "R v v" and R_trans: "R u v \<Longrightarrow> R v w \<Longrightarrow> R u w"
    and TryLock_law: "fx_TryLock X ctx n \<noteq> (False, None)"
begin

text \<open>A state that comes after another: the invariant, and the tree has moved.\<close>

definition after :: "FileSystemBlobStore \<Rightarrow> FileSystemBlobStore \<Rightarrow> bool" where
  "after s s' \<longleftrightarrow> fs_invar X R s' \<and> moves X R (root s) (root s')"

lemma moves_refl: "tree_ok t \<Longrightarrow> moves X R t t"
  by (simp add: moves_def R_refl)

lemma moves_trans: "moves X R t u \<Longrightarrow> moves X R u v \<Longrightarrow> moves X R t v"
  by (auto simp: moves_def intro: R_trans)

lemma after_refl: "fs_invar X R s \<Longrightarrow> after s s"
  by (simp add: after_def moves_refl fs_invar_def)

lemma after_trans: "after s t \<Longrightarrow> after t u \<Longrightarrow> after s u"
  by (auto simp: after_def intro: moves_trans)

lemma after_view: "after s t \<Longrightarrow> fs_invar X R t \<and> R (fs_view X s) (fs_view X t)"
  by (simp add: after_def moves_def fs_view_def)

lemma after_same: "fs_invar X R s \<Longrightarrow> root t = root s \<Longrightarrow> fs_others t = fs_others s \<Longrightarrow> after s t"
  using after_refl by (simp add: after_def fs_invar_def)

lemma after_others: "fs_invar X R s \<Longrightarrow> after s (others_act s)"
proof (cases "fs_others s")
  case (Cons f fs)
  assume s: "fs_invar X R s"
  with Cons have "moves X R (root s) (f (root s))" by (simp add: fs_invar_def)
  with s Cons show ?thesis by (simp add: others_act_def after_def fs_invar_def moves_def [of X R "root s"])
qed (simp add: after_refl)

lemma after_held:
  assumes "fs_invar X R s" and "\<And>t. tree_ok t \<Longrightarrow> moves X R t (snd (f t))" and "held f s = (r, s')"
  shows "after s s'"
  using assms(3)
proof (cases rule: held_cases)
  case run
  then have "snd (f (root s)) = root s'" by simp
  with run assms(1) assms(2) [of "root s"] show ?thesis by (auto simp: after_def fs_invar_def moves_def)
qed (use after_same [OF assms(1)] in auto)

lemma after_free:
  assumes "fs_invar X R s" and "\<And>t. tree_ok t \<Longrightarrow> moves X R t (snd (f t))" and "free f s = (r, s')"
  shows "after s s'"
proof -
  have o: "after s (others_act s)" using assms(1) by (rule after_others)
  with after_held [OF _ assms(2,3) [unfolded free_def]] show ?thesis
    using after_trans by (auto simp: after_def)
qed

lemma after_and_then:
  assumes "and_then m f s = (r, s')" and "\<And>q u. m s = (q, u) \<Longrightarrow> after s u"
    and "\<And>a u. m s = (Inr a, u) \<Longrightarrow> after s u \<Longrightarrow> f a u = (r, s') \<Longrightarrow> after u s'"
  shows "after s s'"
proof (cases "m s")
  case (Pair q u)
  with assms(2) have u: "after s u" .
  show ?thesis
  proof (cases q)
    case (Inl e)
    with Pair assms(1) u show ?thesis by (simp add: and_then_def)
  next
    case (Inr a)
    with Pair assms(1) have "f a u = (r, s')" by (simp add: and_then_def)
    with assms(3) Pair Inr u after_trans show ?thesis by blast
  qed
qed

lemma calm_Lstat: "tree_ok t \<Longrightarrow> moves X R t (snd (root_Lstat p t))"
  using moves_refl by (auto simp: root_Lstat_def split: option.splits)

lemma calm_Open: "tree_ok t \<Longrightarrow> moves X R t (snd (root_Open p t))"
  unfolding root_Open_def by (rule calm_Lstat)

lemma calm_ReadDir: "tree_ok t \<Longrightarrow> moves X R t (snd (root_ReadDir p t))"
  using moves_refl by (auto simp: root_ReadDir_def split: option.splits)

lemma calm_unchanged: "tree_ok t \<Longrightarrow> moves X R t (snd (unchanged x t))"
  by (simp add: unchanged_def moves_refl)

lemma calm_files:
  assumes "tree_ok t'" and "files t' = files t"
  shows "moves X R t t'"
  using assms tree_view_cong [of X t' t] by (simp add: moves_def R_refl)

lemma calm_MkdirAll: "list_all name_ok p \<Longrightarrow> tree_ok t \<Longrightarrow> moves X R t (snd (root_MkdirAll p t))"
  using mkdirs_spec [of t "[]" p "fst (mkdirs [] p t)" "snd (mkdirs [] p t)"]
  by (intro calm_files) (auto simp: root_MkdirAll_def in_dir_def)

lemmas calm = calm_Lstat calm_Open calm_ReadDir calm_unchanged calm_MkdirAll

lemma after_free_some:
  assumes "fs_invar X R s" and "free f s = (r, s')" and "\<And>t. snd (f t) = t"
  shows "after s s'" and "(\<exists>e. r = Inl (OtherErr (''i/o: '' @ e))) \<or> f (root s') = (r, root s')"
proof -
  show "after s s'" by (rule after_free [OF assms(1) _ assms(2)]) (simp add: assms(3) moves_refl)
  have h: "held f (others_act s) = (r, s')" using assms(2) by (simp add: free_def)
  show "(\<exists>e. r = Inl (OtherErr (''i/o: '' @ e))) \<or> f (root s') = (r, root s')"
    using h by (cases rule: held_cases) (use assms(3) in \<open>metis snd_conv\<close>)+
qed

lemma held_unchanged:
  assumes "held (unchanged x) s = (r, s')"
  shows "root s' = root s" and "fs_others s' = fs_others s"
    and "r = Inr x \<or> (\<exists>e. r = Inl (OtherErr (''i/o: '' @ e)))"
  using assms by (cases rule: held_cases; auto simp: unchanged_def)+

text \<open>Opening a key reads the objects at one moment, which is the state that is returned.\<close>

lemma openBlob_spec:
  assumes "fs_invar X R s" and "openBlob k s = (r, s')" and "validateKey k = None"
  shows "after s s'"
    and "r = Inr (b, m) \<Longrightarrow> fs_view X s' k = Some (b, Compute (fx_md5 X) b)"
    and "r = Inl e \<Longrightarrow> errors_Is e ErrNotFound \<Longrightarrow> fs_view X s' k = None"
proof -
  obtain q u where q: "free (root_Open (nativeName k)) s = (q, u)" by fastforce
  have "snd (root_Open p t) = t" for p t by (auto simp: root_Open_def root_Lstat_def split: option.splits)
  note u = after_free_some [OF assms(1) q this]
  have t: "tree_ok (root u)" using u(1) by (simp add: after_def moves_def)
  note L = Lstat_cases [OF t, of "nativeName k" q "root u", unfolded root_Open_def [symmetric]]
  have "after s s' \<and> (r = Inr (b, m) \<longrightarrow> fs_view X s' k = Some (b, Compute (fx_md5 X) b)) \<and>
     (r = Inl e \<longrightarrow> errors_Is e ErrNotFound \<longrightarrow> fs_view X s' k = None)"
  proof (cases q)
    case (Inl x)
    with assms(2) q have r: "r = Inl (mapFSErr x)" "s' = u" by (auto simp: openBlob_def)
    have "(\<exists>e. x = OtherErr (''i/o: '' @ e)) \<or> map_of (root u) (nativeName k) = None \<and> (x = fs_ErrNotExist \<or> x = ENOTDIR)"
      using u(2) L(3) Inl by auto
    then have "errors_Is (mapFSErr x) ErrNotFound \<longrightarrow> fs_view X u k = None"
      by (auto simp: mapFSErr_def fs_view_def tree_view_def files_def fs_errors)
    with r u(1) show ?thesis by auto
  next
    case (Inr n)
    with u(2) L(2) have n: "map_of (root u) (nativeName k) = Some n" by auto
    obtain q' v where v: "held (unchanged n) u = (q', v)" by fastforce
    note w = held_unchanged [OF v]
    have s': "s' = v" and "q' = Inr n \<Longrightarrow> r = (case n of DirNode \<Rightarrow> Inl ErrNotFound | FileNode b m \<Rightarrow> Inr (b, m))"
      "\<And>x. q' = Inl x \<Longrightarrow> r = Inl x"
      using assms(2) q Inr v w(3) by (auto simp: openBlob_def and_then_def split: node.splits)
    moreover have "after s v" using after_trans [OF u(1) after_same [OF _ w(1,2)]] u(1) by (simp add: after_def)
    ultimately show ?thesis using w n assms(3)
      by (auto simp: fs_view_def tree_view_def files_def split: node.splits)
  qed
  then show "after s s'" and "r = Inr (b, m) \<Longrightarrow> fs_view X s' k = Some (b, Compute (fx_md5 X) b)"
    and "r = Inl e \<Longrightarrow> errors_Is e ErrNotFound \<Longrightarrow> fs_view X s' k = None" by auto
qed

lemma after_steady:
  "after s u \<Longrightarrow> root v = root u \<Longrightarrow> fs_others v = fs_others u \<Longrightarrow> after s v \<and> fs_view X v = fs_view X u"
  by (simp add: after_def fs_invar_def fs_view_def)

text \<open>What the three reading operations share: the checks, the opening, then calls on the descriptor.\<close>

lemma reading:
  assumes "fs_invar X R s"
    and "(case ctx of Some e \<Rightarrow> (Inl (CtxErr e), s)
      | None \<Rightarrow> (case validateKey k of Some e \<Rightarrow> (Inl e, s)
          | None \<Rightarrow> and_then (openBlob k) (\<lambda>(b, m). g b m) s)) = (r, s')"
    and "\<And>b m u r v. g b m u = (r, v) \<Longrightarrow> root v = root u \<and> fs_others v = fs_others u"
    and "\<And>b m u x v. g b m u = (Inl x, v) \<Longrightarrow> \<not> errors_Is x ErrNotFound"
  shows "after s s'"
    and "r = Inr y \<Longrightarrow> \<exists>b m u. g b m u = (Inr y, s') \<and> fs_view X s' k = Some (b, Compute (fx_md5 X) b)"
    and "r = Inl x \<Longrightarrow> errors_Is x ErrNotFound \<Longrightarrow> fs_view X s' k = None"
proof -
  have "after s s' \<and> (r = Inr y \<longrightarrow> (\<exists>b m u. g b m u = (Inr y, s') \<and> fs_view X s' k = Some (b, Compute (fx_md5 X) b))) \<and>
    (r = Inl x \<longrightarrow> errors_Is x ErrNotFound \<longrightarrow> fs_view X s' k = None)"
  proof (cases "ctx = None \<and> validateKey k = None")
    case True
    obtain q u where q: "openBlob k s = (q, u)" by fastforce
    note o = openBlob_spec [OF assms(1) q conjunct2 [OF True]]
    show ?thesis
    proof (cases q)
      case (Inl e)
      with True q assms(2) have "r = Inl e" "s' = u" by (auto simp: and_then_def)
      with o Inl show ?thesis by auto
    next
      case (Inr a)
      obtain b m where a: "a = (b, m)" by fastforce
      with True q assms(2) Inr have g: "g b m u = (r, s')" by (auto simp: and_then_def)
      have v: "after s s'" "fs_view X s' k = Some (b, Compute (fx_md5 X) b)"
        using after_steady [OF o(1), of s'] assms(3) [OF g] o(2) [of b m] Inr a by simp_all
      moreover have "r = Inl x \<Longrightarrow> \<not> errors_Is x ErrNotFound" using assms(4) g by blast
      ultimately show ?thesis using g by blast
    qed
  next
    case False
    with assms(2) have r: "s' = s" "\<exists>e. r = Inl e" "errors_Is x ErrNotFound \<Longrightarrow> r = Inl x \<Longrightarrow> validateKey k \<noteq> None"
      by (auto split: option.splits)
    with after_refl [OF assms(1)] show ?thesis by (auto simp: fs_view_def tree_view_def)
  qed
  then show "after s s'"
    and "r = Inr y \<Longrightarrow> \<exists>b m u. g b m u = (Inr y, s') \<and> fs_view X s' k = Some (b, Compute (fx_md5 X) b)"
    and "r = Inl x \<Longrightarrow> errors_Is x ErrNotFound \<Longrightarrow> fs_view X s' k = None" by blast+
qed

lemma held_unchanged_eq:
  "held (unchanged y) u = (case fst (sys u) of Some e \<Rightarrow> Inl e | None \<Rightarrow> Inr y, snd (sys u))"
  by (cases "sys u") (auto simp: held_def unchanged_def sys_def split: option.splits list.splits)

lemma sys_simps [simp]:
  "root (snd (sys u)) = root u" "fs_others (snd (sys u)) = fs_others u"
  "fst (sys u) = Some x \<Longrightarrow> \<not> errors_Is x ErrNotFound"
  by (auto simp: sys_def split: list.splits)

lemmas steady = and_then_def held_unchanged_eq

lemma fs_Get_spec:
  assumes "fs_invar X R s" and "fs_Get X ctx k s = (r, s')"
  shows "after s s'"
    and "r = Inr (rd, e) \<Longrightarrow> \<exists>b. fs_view X s' k = Some (b, e) \<and> (\<forall>a. rd = Inr a \<longrightarrow> a = b)"
    and "r = Inl x \<Longrightarrow> errors_Is x ErrNotFound \<Longrightarrow> fs_view X s' k = None"
proof -
  note R = reading [OF assms(1) assms(2) [unfolded fs_Get_def]]
  show "after s s'"
    by (rule R) (auto simp: steady split: option.splits)
  show "r = Inl x \<Longrightarrow> errors_Is x ErrNotFound \<Longrightarrow> fs_view X s' k = None"
    by (rule R) (auto simp: steady split: option.splits)
  assume r: "r = Inr (rd, e)"
  have "\<exists>b (m :: int) u. and_then (held (unchanged (Compute (fx_md5 X) b))) (\<lambda>h. and_then (held (unchanged ()))
      (\<lambda>_ s'. case held (unchanged b) s' of (rd, s'') \<Rightarrow> (Inr (rd, h), s''))) u = (Inr (rd, e), s') \<and>
      fs_view X s' k = Some (b, Compute (fx_md5 X) b)"
    by (rule R(2) [OF _ _ r]) (auto simp: steady split: option.splits)
  then show "\<exists>b. fs_view X s' k = Some (b, e) \<and> (\<forall>a. rd = Inr a \<longrightarrow> a = b)"
    by (auto simp: steady split: option.splits)
qed

lemma fs_GetRange_spec:
  assumes "fs_invar X R s" and "fs_GetRange ctx k i j s = (r, s')"
  shows "after s s'"
    and "r = Inr (Inr p) \<Longrightarrow> 0 \<le> i \<Longrightarrow> i \<le> j \<Longrightarrow>
      \<exists>b e. fs_view X s' k = Some (b, e) \<and> p = take (nat (j + 1 - i)) (drop (nat i) b)"
proof -
  note Q = reading [OF assms(1) assms(2) [unfolded fs_GetRange_def]]
  show "after s s'"
    by (rule Q) (auto simp: steady Let_def split: option.splits if_splits)
  assume r: "r = Inr (Inr p)" and i: "0 \<le> i" "i \<le> j"
  have "\<exists>b (m :: int) u. (let size = int (length b)
      in if size \<le> i then (Inr (Inr []), u)
         else let end' = (if size \<le> j then size - 1 else j)
              in if i < 0 then (Inl (OtherErr ''invalid argument''), u)
                 else and_then (held (unchanged ()))
                   (\<lambda>_ s'. case held (unchanged (take (nat (end' - i + 1)) (drop (nat i) b))) s'
                      of (rd, s'') \<Rightarrow> (Inr rd, s'')) u) = (Inr (Inr p), s') \<and>
      fs_view X s' k = Some (b, Compute (fx_md5 X) b)"
    by (rule Q(2) [OF _ _ r]) (auto simp: steady Let_def split: option.splits if_splits)
  then obtain b u where "fs_view X s' k = Some (b, Compute (fx_md5 X) b)"
    "p = [] \<and> int (length b) \<le> i \<or> p = take (nat ((if int (length b) \<le> j then int (length b) - 1 else j) - i + 1)) (drop (nat i) b)"
    using i(1) by (auto simp: steady Let_def split: option.splits if_splits)
  moreover from this(2) have "p = take (nat (j + 1 - i)) (drop (nat i) b)"
    by (auto simp: algebra_simps split: if_splits)
  ultimately show "\<exists>b e. fs_view X s' k = Some (b, e) \<and> p = take (nat (j + 1 - i)) (drop (nat i) b)" by blast
qed

lemma fs_Stat_spec:
  assumes "fs_invar X R s" and "fs_Stat X ctx k s = (r, s')"
  shows "after s s'"
proof -
  note Q = reading [OF assms(1) assms(2) [unfolded fs_Stat_def]]
  show ?thesis by (rule Q) (auto simp: steady split: option.splits)
qed

lemma walkDir_after: "fs_invar X R s \<Longrightarrow> walkDir pre n es keys s = (r, s') \<Longrightarrow> after s s'"
proof (induction pre n es keys s arbitrary: r s' rule: walkDir.induct)
  case (4 pre n p es keys s)
  obtain q u where q: "free (root_ReadDir p) s = (q, u)" by fastforce
  have u: "after s u" by (rule after_free [OF 4(4) calm_ReadDir q])
  then have i: "fs_invar X R u" by (simp add: after_def)
  show ?case
  proof (cases q)
    case (Inl e)
    with 4(1) [OF q [symmetric] Inl] 4(5) q i u after_trans show ?thesis by (auto split: if_splits)
  next
    case (Inr ds)
    obtain q' v where v: "walkDir pre n ds keys u = (q', v)" by fastforce
    have w: "after u v" by (rule 4(2) [OF q [symmetric] Inr i v])
    then have j: "fs_invar X R v" by (simp add: after_def)
    from 4(3) [OF q [symmetric] Inr v [symmetric] _ j] 4(5) q Inr v have "after v s'"
      using after_refl [OF j] by (auto split: sum.splits)
    with u w after_trans show ?thesis by blast
  qed
qed (auto simp: after_refl)

lemma fs_List_after: "fs_invar X R s \<Longrightarrow> fs_List ctx p s = (r, s') \<Longrightarrow> after s s'"
  using after_refl walkDir_after [of s p maxDepth "[([], True)]" "[]"]
  by (auto simp: fs_List_def and_then_def split: option.splits prod.splits sum.splits)

section \<open>Writes keep the invariant\<close>

lemma calm_Create:
  assumes "tmp_path X p" and "list_all name_ok p" and "tree_ok t"
  shows "moves X R t (snd (root_Create now p t))"
proof (cases "open_dir t [] (butlast p) = None \<and> map_of t p = None")
  case True
  define u where "u = AList.update p (FileNode [] now) t"
  have p: "p \<noteq> []" using assms(1) by (auto simp: tmp_path_def)
  have "in_dir t (butlast p)" using True open_dir_iff [OF assms(3)] by simp
  then have "tree_ok u" unfolding u_def using assms p True by (intro tree_ok_update) auto
  moreover have "files u = (files t)(p \<mapsto> [])" by (simp add: u_def)
  moreover have "tree_view X u = tree_view X t" by (rule tree_view_cong) (use assms(1) in \<open>auto simp: u_def\<close>)
  moreover have "files t p = None" using True by (simp add: files_def)
  ultimately have "moves X R t u" by (auto simp: moves_def R_refl)
  with True show ?thesis by (simp add: root_Create_def u_def)
qed (use moves_refl [OF assms(3)] in \<open>auto simp: root_Create_def split: option.splits\<close>)

lemma Create_files: "root_Create now p t = (Inr y, t') \<Longrightarrow> files t' p = Some []"
  by (auto simp: root_Create_def split: option.splits)

lemma createTemp_spec:
  assumes "fs_invar X R s" and "list_all name_ok dir" and "createTemp X dir n s = (r, s')"
  shows "after s s' \<and> (r = Inr p \<longrightarrow> tmp_path X p \<and> butlast p = dir \<and> files (root s') p \<noteq> None)"
  using assms
proof (induction n arbitrary: s r s')
  case (Suc n)
  define s0 where "s0 = s\<lparr>fs_calls := Suc (fs_calls s)\<rparr>"
  have s0: "after s s0" using Suc.prems(1) by (intro after_same) (simp_all add: s0_def)
  obtain q u where q: "held (unchanged (fx_rand X (fs_calls s))) s0 = (q, u)" by fastforce
  have u: "after s u" using held_unchanged(1,2) [OF q] Suc.prems(1) by (intro after_same) (simp_all add: s0_def)
  show ?case
  proof (cases q)
    case (Inl e)
    with q u Suc.prems(3) show ?thesis by (auto simp: s0_def)
  next
    case (Inr b)
    then have b: "b = fx_rand X (fs_calls s)" using held_unchanged(3) [OF q] by auto
    define name where "name = dir @ [fsTmpPrefix @ hex_EncodeToString b]"
    have nm: "tmp_path X name" "butlast name = dir" "list_all name_ok name"
      using Suc.prems(2) tmp_name_ok by (auto simp: name_def tmp_path_def b)
    obtain q2 v where v: "free (root_Create (fs_clock u) name) u = (q2, v)" by fastforce
    have ui: "fs_invar X R u" using u by (simp add: after_def)
    have uv: "after u v" by (rule after_free [OF ui calm_Create [OF nm(1,3)] v])
    then have vi: "fs_invar X R v" and sv: "after s v" using after_trans [OF u] by (simp_all add: after_def)
    have c: "createTemp X dir (Suc n) s = (case q2 of Inr _ \<Rightarrow> (Inr name, v)
        | Inl e \<Rightarrow> if errors_Is e fs_ErrExist then createTemp X dir n v
          else if errors_Is e fs_ErrNotExist \<and> dir \<noteq> []
          then (case free (root_MkdirAll dir) v of (Inl e', s3) \<Rightarrow> (Inl e', s3) | (Inr _, s3) \<Rightarrow> createTemp X dir n s3)
          else (Inl e, v))"
      using q Inr v by (cases q2) (simp_all add: s0_def [symmetric] name_def)
    show ?thesis
    proof (cases q2)
      case (Inr y)
      have "held (root_Create (fs_clock u) name) (others_act u) = (q2, v)" using v by (simp add: free_def)
      then have "files (root v) name \<noteq> None"
        by (cases rule: held_cases) (use Inr Create_files in auto)
      with c Inr Suc.prems(3) nm sv show ?thesis by auto
    next
      case (Inl e)
      obtain q3 x where x: "free (root_MkdirAll dir) v = (q3, x)" by fastforce
      have vx: "after v x" by (rule after_free [OF vi calm_MkdirAll [OF Suc.prems(2)] x])
      then have xi: "fs_invar X R x" and sx: "after s x" using after_trans [OF sv] by (simp_all add: after_def)
      from c Inl x Suc.prems(3) consider "createTemp X dir n v = (r, s')" | "createTemp X dir n x = (r, s')"
        | e' where "(r, s') = (Inl e', v)" | e' where "(r, s') = (Inl e', x)"
        by (cases q3) (auto split: if_splits)
      then show ?thesis
        using Suc.IH [OF vi Suc.prems(2)] Suc.IH [OF xi Suc.prems(2)] after_trans [OF sv] after_trans [OF sx] sv sx
        by cases auto
    qed
  qed
qed (auto simp: after_refl)

lemma Rename_spec:
  assumes "tree_ok t" and "files t p = Some b" and "butlast p = butlast q" and "q \<noteq> []" and "list_all name_ok q"
    and "p \<noteq> q" and "root_Rename p q t = (r, t')"
  shows "r = Inl e \<Longrightarrow> t' = t"
    and "r = Inr () \<Longrightarrow> tree_ok t' \<and> files t' = (files t)(p := None, q \<mapsto> b)"
proof -
  from assms(2) obtain m where m: "map_of t p = Some (FileNode b m)" by (auto simp: files_some)
  have d: "tree_ok (AList.delete p t)" by (rule tree_ok_delete [OF assms(1) file_no_entries [OF assms(1) m]])
  have "butlast p \<noteq> p" using tree_okD(1) [OF assms(1) m] by (metis append_butlast_last_id append_self_conv not_Cons_self2)
  then have i: "in_dir (AList.delete p t) (butlast q)"
    using tree_okD(3) [OF assms(1) m] assms(3) by (auto simp: in_dir_def tree_maps)
  show "r = Inl e \<Longrightarrow> t' = t" using assms(7) m
    by (auto simp: root_Rename_def split: option.splits node.splits)
  assume "r = Inr ()"
  with assms(7) m have t': "t' = AList.update q (FileNode b m) (AList.delete p t)" and n: "map_of t q \<noteq> Some DirNode"
    by (auto simp: root_Rename_def split: option.splits node.splits)
  have "tree_ok t'" unfolding t' using d i n assms(4-6) by (intro tree_ok_update) (auto simp: tree_maps)
  then show "tree_ok t' \<and> files t' = (files t)(p := None, q \<mapsto> b)" by (simp add: t')
qed

lemma held_reads:
  assumes "held f s = (r, s')" and "\<And>t. snd (f t) = t"
  shows "root s' = root s" and "fs_others s' = fs_others s" and "r = Inr x \<Longrightarrow> fst (f (root s)) = Inr x"
    and "r = Inl e \<Longrightarrow> errors_Is e fs_ErrNotExist \<Longrightarrow> fst (f (root s)) = Inl e"
proof -
  have "root s' = root s \<and> fs_others s' = fs_others s \<and> (r = fst (f (root s)) \<or> (\<exists>m. r = Inl (OtherErr (''i/o: '' @ m))))"
    using assms(1) by (cases rule: held_cases) (metis assms(2) fst_conv snd_conv)+
  then show "root s' = root s" and "fs_others s' = fs_others s" and "r = Inr x \<Longrightarrow> fst (f (root s)) = Inr x"
    and "r = Inl e \<Longrightarrow> errors_Is e fs_ErrNotExist \<Longrightarrow> fst (f (root s)) = Inl e" by (auto simp: fs_errors)
qed

lemma Lstat_tree: "snd (root_Lstat p t) = t" "snd (root_Open p t) = t"
  by (auto simp: root_Open_def root_Lstat_def split: option.splits)

text \<open>The part of \<^verbatim>\<open>Put\<close> inside the lock is one compare-and-swap.\<close>

lemma putTarget_spec:
  assumes "tree_ok (root s)" and "validateKey k = None" and "tmp_path X tmp" and "files (root s) tmp = Some b"
    and "butlast tmp = butlast (nativeName k)" and "target = map_of (root s) (nativeName k)"
    and "putTarget X tmp (nativeName k) c target s = (r, s')"
  shows "fs_others s' = fs_others s \<and> (\<forall>e. r = Inl e \<longrightarrow> root s' = root s) \<and>
    (r = Inr () \<longrightarrow> cond_ok c (fs_view X s k) \<and> tree_ok (root s') \<and>
      fs_view X s' = (fs_view X s)(k \<mapsto> (b, Compute (fx_md5 X) b)))"
proof -
  let ?n = "nativeName k"
  have n: "?n \<noteq> []" "list_all name_ok ?n" "tmp \<noteq> ?n"
    using valid_names [OF assms(2)] valid_not_tmp [OF assms(2), of X] assms(3) by auto
  have fin: "fs_others t' = fs_others t \<and> (\<forall>e. r = Inl e \<longrightarrow> root t' = root t) \<and>
      (r = Inr () \<longrightarrow> tree_ok (root t') \<and> fs_view X t' = (fs_view X t)(k \<mapsto> (b, Compute (fx_md5 X) b)))"
    if "held (root_Rename tmp ?n) t = (r, t')" and t: "root t = root s" for t t' r
    using that(1)
  proof (cases rule: held_cases)
    case run
    have "tree_ok (root t)" "files (root t) tmp = Some b" using t assms(1,4) by simp_all
    note R = Rename_spec [OF this assms(5) n run(1)]
    from R(2) tree_view_put [OF assms(2) _ assms(3), of "root t'" "root t" b] R(1) run(2) show ?thesis
      by (auto simp: fs_view_def)
  qed simp
  obtain q u where q: "computeETag X ?n s = (q, u)" by fastforce
  have u: "root u = root s \<and> fs_others u = fs_others s \<and>
      (\<forall>e. q = Inr e \<longrightarrow> (\<exists>b. files (root s) ?n = Some b \<and> e = Compute (fx_md5 X) b))"
  proof -
    obtain g v where g: "held (root_Open ?n) s = (g, v)" by fastforce
    note h = held_reads [OF g Lstat_tree(2)]
    show ?thesis
    proof (cases g)
      case (Inr x)
      with h(3) have "map_of (root s) ?n = Some x"
        using Lstat_cases(2) [OF assms(1), of ?n "Inr x" "root s" x] Lstat_tree(1) [of ?n "root s"]
        by (metis prod.collapse root_Open_def)
      with q g Inr h(1,2) show ?thesis
        by (auto simp: computeETag_def steady files_def split: node.splits option.splits)
    qed (use q g h(1,2) in \<open>auto simp: computeETag_def steady\<close>)
  qed
  have view: "fs_view X s k = map_option (\<lambda>b. (b, Compute (fx_md5 X) b)) (files (root s) ?n)"
    using assms(2) by (simp add: fs_view_def tree_view_def)
  have ex: "(target \<noteq> None \<and> target \<noteq> Some DirNode) = (files (root s) ?n \<noteq> None)"
    by (auto simp: assms(6) files_def split: option.splits node.splits)
  have "fs_view X u = fs_view X s" using u by (simp add: fs_view_def)
  then show ?thesis
    using assms(7) fin [of s r s'] fin [of u r s'] u q ex
    by (auto simp: putTarget_def Let_def view cond_ok_def split: if_splits sum.splits)
qed

lemma putLocked_spec:
  assumes "tree_ok (root s)" and "validateKey k = None" and "tmp_path X tmp" and "files (root s) tmp = Some b"
    and "butlast tmp = butlast (nativeName k)" and "putLocked X tmp (nativeName k) c s = (r, s')"
  shows "fs_others s' = fs_others s \<and> (\<forall>e. r = Inl e \<longrightarrow> root s' = root s) \<and>
    (r = Inr () \<longrightarrow> cond_ok c (fs_view X s k) \<and> tree_ok (root s') \<and>
      fs_view X s' = (fs_view X s)(k \<mapsto> (b, Compute (fx_md5 X) b)))"
proof -
  let ?n = "nativeName k"
  obtain q u where q: "held (root_Lstat ?n) s = (q, u)" by fastforce
  note h = held_reads [OF q Lstat_tree(1)]
  have v: "fs_view X u = fs_view X s" using h(1) by (simp add: fs_view_def)
  note L = Lstat_cases [OF assms(1), of ?n "fst (root_Lstat ?n (root s))" "root s"]
  have "root_Lstat ?n (root s) = (fst (root_Lstat ?n (root s)), root s)" by (metis Lstat_tree(1) prod.collapse)
  note L = L(2,3) [OF this]
  have t: "tree_ok (root u)" "files (root u) tmp = Some b" using assms(1,4) h(1) by simp_all
  show ?thesis
  proof (cases q)
    case (Inl e)
    with h(4) L(2) have "errors_Is e fs_ErrNotExist \<Longrightarrow> map_of (root u) ?n = None" using h(1) by auto
    with putTarget_spec [OF t(1) assms(2,3) t(2) assms(5), of None c r s'] assms(6) q Inl h v show ?thesis
      by (auto simp: putLocked_def split: if_splits)
  next
    case (Inr fi)
    with h(3) L(1) have "map_of (root u) ?n = Some fi" using h(1) by auto
    with putTarget_spec [OF t(1) assms(2,3) t(2) assms(5), of "Some fi" c r s'] assms(6) q Inr h v show ?thesis
      by (auto simp: putLocked_def)
  qed
qed

lemma Remove_tmp:
  assumes "fs_invar X R v" and "tmp_path X p"
  shows "fs_invar X R (snd (free (root_Remove p) v)) \<and>
    (\<exists>u. after v u \<and> fs_view X (snd (free (root_Remove p) v)) = fs_view X u)"
proof -
  obtain r v' where r: "free (root_Remove p) v = (r, v')" by fastforce
  let ?u = "others_act v"
  have u: "after v ?u" by (rule after_others [OF assms(1)])
  then have i: "fs_invar X R ?u" and t: "tree_ok (root ?u)" by (simp_all add: after_def moves_def)
  have rm: "tree_ok t' \<and> tree_view X t' = tree_view X t" if "tree_ok t" "root_Remove p t = (q, t')" for t t' q
  proof -
    from that have "t' = t \<or> t' = AList.delete p t \<and> \<not> has_entries t p"
      using file_no_entries [OF that(1)] by (auto simp: root_Remove_def split: option.splits node.splits if_splits)
    moreover have "tree_view X (AList.delete p t) = tree_view X t"
      by (rule tree_view_cong) (use assms(2) in auto)
    ultimately show ?thesis using that(1) tree_ok_delete by auto
  qed
  have "held (root_Remove p) ?u = (r, v')" using r by (simp add: free_def)
  then have "fs_invar X R v' \<and> fs_view X v' = fs_view X ?u"
    by (cases rule: held_cases) (use i t rm in \<open>auto simp: fs_invar_def fs_view_def\<close>)
  with u r show ?thesis by auto
qed

lemma withLock_spec:
  assumes "fs_invar X R s" and "withLock X None fn s = (r, s')"
  shows "\<exists>u. after s u \<and> ((\<exists>e. r = Inl e \<and> s' = u) \<or> fn u = (r, s'))"
proof -
  let ?u = "others_act s\<lparr>fs_calls := Suc (fs_calls s)\<rparr>"
  have "after s (others_act s)" by (rule after_others [OF assms(1)])
  then have "after s ?u" by (simp add: after_def fs_invar_def)
  moreover have "(\<exists>e. r = Inl e \<and> s' = ?u) \<or> fn ?u = (r, s')"
    using assms(2) TryLock_law [of None "fs_calls s"]
    by (auto simp: withLock_def Let_def split: prod.splits option.splits bool.splits)
  ultimately show ?thesis by blast
qed

text \<open>What a \<^verbatim>\<open>Put\<close> has done, seen from a state \<open>u\<close> in the middle: all or nothing.\<close>

definition put_effect ::
  "string \<Rightarrow> body \<Rightarrow> PutCondition \<Rightarrow> FileSystemBlobStore \<Rightarrow> string result \<Rightarrow> FileSystemBlobStore \<Rightarrow> bool" where
  "put_effect k rd c u r s' \<longleftrightarrow>
     (case r of Inl e \<Rightarrow> fs_view X s' = fs_view X u
      | Inr e \<Rightarrow> \<exists>b. rd = Inr b \<and> cond_ok c (fs_view X u k) \<and> fs_view X s' = (fs_view X u)(k \<mapsto> (b, e)))"

lemma file_Write_spec:
  assumes "fs_invar X R s" and "tmp_path X p" and "files (root s) p \<noteq> None"
    and "held (file_Write now p b) s = (q, u)"
  shows "fs_invar X R u" and "fs_view X u = fs_view X s" and "files (root u) p \<noteq> None"
    and "q = Inr y \<Longrightarrow> files (root u) p = Some b"
proof -
  from assms(3) obtain a m where m: "map_of (root s) p = Some (FileNode a m)" by (auto simp: files_some)
  have t: "tree_ok (root s)" using assms(1) by (simp add: fs_invar_def)
  have ok: "tree_ok (AList.update p (FileNode b now) (root s))"
    using tree_okD [OF t m] t m by (intro tree_ok_update) auto
  have v: "tree_view X (AList.update p (FileNode b now) (root s)) = tree_view X (root s)"
    by (rule tree_view_cong) (use assms(2) in auto)
  from assms(4) have "fs_invar X R u \<and> fs_view X u = fs_view X s \<and> files (root u) p \<noteq> None \<and>
      (q = Inr y \<longrightarrow> files (root u) p = Some b)"
  proof (cases rule: held_cases)
    case run
    then have "root u = AList.update p (FileNode b now) (root s)" by (simp add: file_Write_def)
    with run(2) ok v assms(1) show ?thesis by (simp add: fs_invar_def fs_view_def)
  qed (use assms(1,3) in \<open>simp add: fs_invar_def fs_view_def\<close>)
  then show "fs_invar X R u" and "fs_view X u = fs_view X s" and "files (root u) p \<noteq> None"
    and "q = Inr y \<Longrightarrow> files (root u) p = Some b" by auto
qed

lemma after_tmp: "after s u \<Longrightarrow> tmp_path X p \<Longrightarrow> files (root s) p = Some b \<Longrightarrow> files (root u) p = Some b"
  by (simp add: after_def moves_def)

text \<open>From a complete temporary file on: sync, close, then the locked part.\<close>

lemma commit_staged:
  assumes "fs_invar X R s" and "validateKey k = None" and "tmp_path X tmp" and "files (root s) tmp = Some b"
    and "butlast tmp = butlast (nativeName k)"
    and "and_then (held (unchanged ())) (\<lambda>_. and_then (held (unchanged ()))
      (\<lambda>_. and_then (withLock X None (putLocked X tmp (nativeName k) c)) (\<lambda>_. Pair (Inr (Compute (fx_md5 X) b))))) s = (r, s')"
  shows "fs_invar X R s' \<and> (\<exists>u. fs_invar X R u \<and> R (fs_view X s) (fs_view X u) \<and> put_effect k (Inr b) c u r s')"
proof -
  define u where "u = snd (sys (snd (sys s)))"
  have u: "after s u" using assms(1) by (intro after_same) (simp_all add: u_def)
  then have ui: "fs_invar X R u" by (simp add: after_def)
  obtain q v where q: "withLock X None (putLocked X tmp (nativeName k) c) u = (q, v)" by fastforce
  from withLock_spec [OF ui q] obtain w where w: "after u w"
    "(\<exists>e. q = Inl e \<and> v = w) \<or> putLocked X tmp (nativeName k) c w = (q, v)" by blast
  have sw: "after s w" by (rule after_trans [OF u w(1)])
  then have wi: "fs_invar X R w" "tree_ok (root w)" "R (fs_view X s) (fs_view X w)"
    by (simp_all add: after_def fs_invar_def moves_def fs_view_def)
  have "files (root w) tmp = Some b" by (rule after_tmp [OF sw assms(3,4)])
  from putLocked_spec [OF wi(2) assms(2,3) this assms(5), of c q v] w(2) wi(1)
  have l: "fs_invar X R v" "put_effect k (Inr b) c w (map_sum id (\<lambda>_. Compute (fx_md5 X) b) q) v"
    by (cases q; auto simp: fs_invar_def put_effect_def fs_view_def)+
  have "(r, s') = (map_sum id (\<lambda>_. Compute (fx_md5 X) b) q, v) \<or> (\<exists>e. r = Inl e \<and> (s' = snd (sys s) \<or> s' = u))"
    using assms(6) q by (cases q) (auto simp: steady u_def split: option.splits)
  then show ?thesis
  proof
    assume "\<exists>e. r = Inl e \<and> (s' = snd (sys s) \<or> s' = u)"
    then have "put_effect k (Inr b) c s r s'" "fs_invar X R s'"
      using assms(1) ui by (auto simp: put_effect_def fs_view_def fs_invar_def u_def)
    with assms(1) R_refl show ?thesis by blast
  qed (use l wi in blast)
qed

lemma stagePut_spec:
  assumes "fs_invar X R s" and "validateKey k = None" and "tmp_path X tmp" and "files (root s) tmp \<noteq> None"
    and "butlast tmp = butlast (nativeName k)" and "stagePut X None (nativeName k) rd c tmp s = (r, s')"
  shows "fs_invar X R s' \<and> (\<exists>u. fs_invar X R u \<and> R (fs_view X s) (fs_view X u) \<and> put_effect k rd c u r s')"
proof -
  define body where "body = (case rd of Inl e \<Rightarrow> (Inl e, s)
    | Inr b \<Rightarrow> and_then (held (file_Write (fs_clock s) tmp b))
        (\<lambda>_. and_then (held (unchanged ())) (\<lambda>_. and_then (held (unchanged ()))
          (\<lambda>_. and_then (withLock X None (putLocked X tmp (nativeName k) c))
            (\<lambda>_. Pair (Inr (Compute (fx_md5 X) b)))))) s)"
  obtain q v where v: "body = (q, v)" by fastforce
  have "fs_invar X R v \<and> (\<exists>u. fs_invar X R u \<and> R (fs_view X s) (fs_view X u) \<and> put_effect k rd c u q v)"
  proof (cases rd)
    case (Inl e)
    with v assms(1) R_refl show ?thesis by (auto simp: body_def put_effect_def)
  next
    case (Inr b)
    obtain p w where w: "held (file_Write (fs_clock s) tmp b) s = (p, w)" by fastforce
    note W = file_Write_spec [OF assms(1,3,4) w]
    show ?thesis
    proof (cases p)
      case (Inl e)
      with v Inr w have "q = Inl e" "v = w" by (simp_all add: body_def and_then_def)
      with W(1,2) assms(1) R_refl show ?thesis by (auto simp: put_effect_def)
    next
      case p: (Inr y)
      have "and_then (held (unchanged ())) (\<lambda>_. and_then (held (unchanged ()))
          (\<lambda>_. and_then (withLock X None (putLocked X tmp (nativeName k) c)) (\<lambda>_. Pair (Inr (Compute (fx_md5 X) b))))) w = (q, v)"
        using v Inr w p by (simp add: body_def and_then_def [of "held (file_Write (fs_clock s) tmp b)"])
      from commit_staged [OF W(1) assms(2,3) W(4) [OF p] assms(5) this] W(2) Inr show ?thesis by simp
    qed
  qed
  then obtain u where u: "fs_invar X R v" "fs_invar X R u" "R (fs_view X s) (fs_view X u)" "put_effect k rd c u q v"
    by blast
  have r: "(r, s') = (case q of Inr e \<Rightarrow> (Inr e, v) | Inl e \<Rightarrow> (Inl e, snd (free (root_Remove tmp) v)))"
    using assms(6) v by (simp add: stagePut_def body_def)
  show ?thesis
  proof (cases q)
    case (Inl e)
    from Remove_tmp [OF u(1) assms(3)] obtain w where w: "fs_invar X R s'" "after v w" "fs_view X s' = fs_view X w"
      using r Inl by auto
    have "R (fs_view X s) (fs_view X w)"
      using R_trans [OF u(3)] u(4) Inl after_view [OF w(2)] by (simp add: put_effect_def)
    with w r Inl show ?thesis by (auto simp: put_effect_def after_def)
  qed (use u r in auto)
qed

lemma fs_Put_spec:
  assumes "fs_invar X R s" and "fs_Put X ctx k rd c s = (r, s')"
  shows "fs_invar X R s' \<and> (\<exists>u. fs_invar X R u \<and> R (fs_view X s) (fs_view X u) \<and> put_effect k rd c u r s')"
proof (cases "ctx = None \<and> \<not> (IfMatch c \<noteq> '''' \<and> IfNoneMatch c) \<and> validateKey k = None")
  case True
  define dir where "dir = butlast (nativeName k)"
  have d: "list_all name_ok dir"
    using valid_names(2) True by (auto simp: dir_def list_all_iff dest: in_set_butlastD)
  obtain q u where q: "(if dir = [] then Pair (Inr ()) else free (root_MkdirAll dir)) s = (q, u)" by fastforce
  have u: "after s u"
    using q after_refl [OF assms(1)] after_free [OF assms(1) calm_MkdirAll [OF d]] by (auto split: if_splits)
  then have ui: "fs_invar X R u" by (simp add: after_def)
  obtain q2 v where v: "createTemp X dir 10 u = (q2, v)" by fastforce
  note T = createTemp_spec [OF ui d v]
  have sv: "after s v" using T after_trans [OF u] by blast
  then have vi: "fs_invar X R v" "R (fs_view X s) (fs_view X v)" using after_view by blast+
  have e: "(case q of Inl x \<Rightarrow> (Inl x, u) | Inr _ \<Rightarrow>
      and_then (createTemp X dir 10) (stagePut X None (nativeName k) rd c) u) = (r, s')"
    using assms(2) True q unfolding fs_Put_def dir_def [symmetric] Let_def
    by (simp add: and_then_def [of "if dir = [] then Pair (Inr ()) else free (root_MkdirAll dir)"] split: if_splits)
  show ?thesis
  proof (cases q)
    case (Inl x)
    with e u ui after_view [OF u] show ?thesis by (auto simp: put_effect_def)
  next
    case Inr
    show ?thesis
    proof (cases q2)
      case (Inl x)
      with e Inr v vi show ?thesis by (auto simp: and_then_def put_effect_def)
    next
      case q2: (Inr tmp)
      with e Inr v True have "stagePut X None (nativeName k) rd c tmp v = (r, s')" by (simp add: and_then_def)
      from stagePut_spec [OF vi(1) _ _ _ _ this] T [of tmp] q2 True have "fs_invar X R s'"
        "\<exists>u. fs_invar X R u \<and> R (fs_view X v) (fs_view X u) \<and> put_effect k rd c u r s'" by (auto simp: dir_def)
      with R_trans [OF vi(2)] show ?thesis by blast
    qed
  qed
next
  case False
  with assms(2) have "s' = s" "\<exists>e. r = Inl e" by (auto simp: fs_Put_def split: option.splits if_splits)
  with assms(1) R_refl show ?thesis by (auto simp: put_effect_def)
qed

lemma Remove_spec:
  assumes "tree_ok t" and "root_Remove p t = (r, t')"
  shows "tree_ok t'" and "r = Inl e \<Longrightarrow> t' = t"
    and "r = Inr () \<Longrightarrow> t' = AList.delete p t" and "r = Inr () \<Longrightarrow> p \<noteq> [] \<and> in_dir t' (butlast p)"
proof -
  have c: "t' = t \<and> (\<exists>e. r = Inl e) \<or> t' = AList.delete p t \<and> \<not> has_entries t p \<and> r = Inr () \<and> map_of t p \<noteq> None"
    using assms file_no_entries [OF assms(1)]
    by (auto simp: root_Remove_def split: option.splits node.splits if_splits)
  then show "tree_ok t'" "r = Inl e \<Longrightarrow> t' = t" "r = Inr () \<Longrightarrow> t' = AList.delete p t"
    using assms(1) tree_ok_delete by auto
  assume "r = Inr ()"
  with c obtain n where n: "map_of t p = Some n" "t' = AList.delete p t" by auto
  have "butlast p \<noteq> p" using tree_okD(1) [OF assms(1) n(1)]
    by (metis append_butlast_last_id append_self_conv not_Cons_self2)
  then show "p \<noteq> [] \<and> in_dir t' (butlast p)"
    using tree_okD [OF assms(1) n(1)] n(2) by (auto simp: in_dir_def tree_maps)
qed

lemma prune_spec:
  "tree_ok (root s) \<Longrightarrow> in_dir (root s) dir \<Longrightarrow>
     tree_ok (root (pruneEmptyDirs dir s)) \<and> files (root (pruneEmptyDirs dir s)) = files (root s) \<and>
     fs_others (pruneEmptyDirs dir s) = fs_others s"
proof (induction dir s rule: pruneEmptyDirs.induct)
  case (1 dir s)
  obtain q u where q: "held (root_Remove dir) s = (q, u)" by fastforce
  show ?case
  proof (cases "dir = []")
    case False
    from q show ?thesis
    proof (cases rule: held_cases)
      case (fault e)
      with q False 1 show ?thesis by (subst (1 2 3) pruneEmptyDirs.simps) simp
    next
      case run
      note S = Remove_spec [OF 1(2) run(1)]
      show ?thesis
      proof (cases q)
        case (Inl e)
        with S(2) run q False 1 show ?thesis by (subst (1 2 3) pruneEmptyDirs.simps) simp
      next
        case (Inr y)
        have "files (root u) = files (root s)"
          using S(3) Inr 1(3) False by (auto simp: in_dir_def files_def)
        with 1(1) [OF False q [symmetric] Inr] S Inr run q False show ?thesis
          by (subst (1 2 3) pruneEmptyDirs.simps) (simp add: fun_upd_def)
      qed
    qed
  qed (use 1 in \<open>simp add: pruneEmptyDirs.simps\<close>)
qed

lemma deleteLocked_spec:
  assumes "fs_invar X R s" and "validateKey k = None" and "deleteLocked (nativeName k) s = (r, s')"
  shows "fs_invar X R s' \<and> (fs_view X s' = fs_view X s \<or> fs_view X s' = (fs_view X s)(k := None))"
proof -
  let ?n = "nativeName k"
  have t: "tree_ok (root s)" using assms(1) by (simp add: fs_invar_def)
  obtain q u where q: "held (root_Lstat ?n) s = (q, u)" by fastforce
  note h = held_reads [OF q Lstat_tree(1)]
  obtain q2 v where v: "held (root_Remove ?n) u = (q2, v)" by fastforce
  have same: ?thesis if "root s' = root s" "fs_others s' = fs_others s"
    using that assms(1) by (simp add: fs_invar_def fs_view_def)
  show ?thesis
  proof (cases "\<exists>b m. q = Inr (FileNode b m)")
    case True
    then obtain b m where n: "q = Inr (FileNode b m)" by blast
    then have "fst (root_Lstat ?n (root s)) = Inr (FileNode b m)" using h(3) by simp
    then have "root_Lstat ?n (root s) = (Inr (FileNode b m), root s)"
      using Lstat_tree(1) [of ?n "root s"] by (simp add: prod_eq_iff)
    from Lstat_cases(2) [OF t this] have f: "map_of (root u) ?n = Some (FileNode b m)" using h(1) by simp
    have tu: "tree_ok (root u)" using t h(1) by simp
    from v show ?thesis
    proof (cases rule: held_cases)
      case (fault e)
      with assms(3) q n v h have "s' = v" by (simp add: deleteLocked_def fs_errors)
      with fault h same show ?thesis by simp
    next
      case run
      with Remove_file [OF tu f] have d: "root v = AList.delete ?n (root s)" "q2 = Inr ()" using h(1) by simp_all
      with assms(3) q n v have s': "s' = pruneEmptyDirs (butlast ?n) v" by (simp add: deleteLocked_def)
      note S = Remove_spec [OF tu run(1)]
      from prune_spec [OF S(1)] S(4) d(2) have p: "tree_ok (root s')" "files (root s') = (files (root s))(?n := None)"
        "fs_others s' = fs_others v" using d(1) by (simp_all add: s')
      with tree_view_del [OF assms(2) p(2), of X] run(2) h(2) assms(1) show ?thesis
        by (simp add: fs_invar_def fs_view_def)
    qed
  next
    case False
    with assms(3) q have "s' = u" by (auto simp: deleteLocked_def split: sum.splits node.splits)
    with h same show ?thesis by simp
  qed
qed

lemma fs_Delete_spec:
  assumes "fs_invar X R s" and "fs_Delete X ctx k s = (d, s')"
  shows "fs_invar X R s' \<and> (\<exists>u. fs_invar X R u \<and> R (fs_view X s) (fs_view X u) \<and>
    (fs_view X s' = fs_view X u \<or> fs_view X s' = (fs_view X u)(k := None)))"
proof (cases "ctx = None \<and> validateKey k = None")
  case True
  with assms(2) obtain r where r: "withLock X None (deleteLocked (nativeName k)) s = (r, s')"
    by (auto simp: fs_Delete_def apfst_def map_prod_def split: prod.splits)
  from withLock_spec [OF assms(1) r] obtain u where u: "after s u"
    "(\<exists>e. r = Inl e \<and> s' = u) \<or> deleteLocked (nativeName k) u = (r, s')" by blast
  note v = after_view [OF u(1)]
  from u(2) have "fs_invar X R s' \<and> (fs_view X s' = fs_view X u \<or> fs_view X s' = (fs_view X u)(k := None))"
  proof
    assume "deleteLocked (nativeName k) u = (r, s')"
    with v True show ?thesis by (intro deleteLocked_spec) simp_all
  qed (use v in auto)
  with v show ?thesis by blast
next
  case False
  with assms(2) have "s' = s" by (auto simp: fs_Delete_def split: option.splits)
  with assms(1) R_refl show ?thesis by auto
qed

lemma deleteKeys_spec:
  assumes "fs_invar X R s" and "\<forall>k \<in> set ks. HasPrefix k p" and "deleteKeys X ctx ks s = (d, s')"
  shows "fs_invar X R s' \<and> sweeps R p (fs_view X s) (fs_view X s')"
  using assms
proof (induction ks arbitrary: s)
  case (Cons k ks)
  obtain e u where u: "fs_Delete X ctx k s = (e, u)" by fastforce
  from fs_Delete_spec [OF Cons.prems(1) u] obtain v where v: "fs_invar X R u" "R (fs_view X s) (fs_view X v)"
    "fs_view X u = fs_view X v \<or> fs_view X u = (fs_view X v)(k := None)" by blast
  have "sweeps R p (fs_view X s) (fs_view X v)" using v(2) by (blast intro: sweeps.intros)
  moreover have "\<forall>l. fs_view X u l = fs_view X v l \<or> (HasPrefix l p \<and> fs_view X u l = None)"
    using v(3) Cons.prems(2) by (auto split: if_splits)
  ultimately have w: "sweeps R p (fs_view X s) (fs_view X u)" by (rule sweeps_del)
  from Cons.IH [OF v(1)] Cons.prems(2,3) u v(1) w sweeps_trans show ?case
    by (cases e) (auto intro: sweeps_trans)
qed (auto intro: sweeps.intros)

lemma walkDir_prefix:
  "walkDir pre n es keys s = (Inr ks, s') \<Longrightarrow> \<forall>k \<in> set keys. HasPrefix k pre \<Longrightarrow> \<forall>k \<in> set ks. HasPrefix k pre"
proof (induction pre n es keys s arbitrary: ks s' rule: walkDir.induct)
  case (4 pre n p es keys s)
  obtain q u where q: "free (root_ReadDir p) s = (q, u)" by fastforce
  show ?case
  proof (cases q)
    case (Inl e)
    with 4(1) [OF q [symmetric] Inl _ _ 4(5)] 4(4) q show ?thesis by (auto split: if_splits)
  next
    case (Inr ds)
    obtain q' v where v: "walkDir pre n ds keys u = (q', v)" by fastforce
    with 4(4) q Inr obtain ks' where k: "q' = Inr ks'" "walkDir pre (Suc n) es ks' v = (Inr ks, s')"
      by (cases q') auto
    have "\<forall>k \<in> set ks'. HasPrefix k pre" using 4(2) [OF q [symmetric] Inr _ 4(5)] v k(1) by simp
    with 4(3) [OF q [symmetric] Inr v [symmetric] k] show ?thesis .
  qed
next
  case (2 pre n p es keys s)
  let ?keys = "if \<not> isReservedKey (join_path p) \<and> HasPrefix (join_path p) pre then keys @ [join_path p] else keys"
  have "walkDir pre n es ?keys s = (Inr ks, s')" using 2(2) by (simp only: walkDir.simps)
  moreover have "\<forall>k \<in> set ?keys. HasPrefix k pre" using 2(3) by (simp split: if_split)
  ultimately show ?case by (rule 2(1))
qed simp_all

lemma fs_DeletePrefix_spec:
  assumes "fs_invar X R s" and "fs_DeletePrefix X ctx p s = (d, s')"
  shows "fs_invar X R s' \<and> sweeps R p (fs_view X s) (fs_view X s')"
proof -
  obtain r u where u: "fs_List ctx p s = (r, u)" by fastforce
  from after_view [OF fs_List_after [OF assms(1) u]] have v: "fs_invar X R u" "R (fs_view X s) (fs_view X u)" by auto
  then have w: "sweeps R p (fs_view X s) (fs_view X u)" by (blast intro: sweeps.intros)
  show ?thesis
  proof (cases r)
    case (Inr ks)
    with u have "\<forall>k \<in> set ks. HasPrefix k p"
      by (auto simp: fs_List_def and_then_def dest: walkDir_prefix split: option.splits prod.splits sum.splits)
    from deleteKeys_spec [OF v(1) this] assms(2) u Inr w show ?thesis
      by (auto simp: fs_DeletePrefix_def intro: sweeps_trans)
  qed (use u v w assms(2) in \<open>auto simp: fs_DeletePrefix_def\<close>)
qed

lemma fs_view_etag: "fs_view X s k = Some (b, e) \<Longrightarrow> e = Compute (fx_md5 X) b"
  by (auto simp: fs_view_def tree_view_def split: if_splits)

text \<open>Every law of the contract, under failures and interference.\<close>

lemma fs_cas: "cas_store (fs_store X) (fs_view X) (fs_invar X R) R"
proof (unfold_locales, goal_cases)
  case 1 show ?case by (rule R_refl)
next
  case 2 then show ?case by (rule R_trans)
next
  case (3 s t k b e l c)
  then show ?case by (metis fs_view_etag Compute_inj)
next
  case (4 s k b e)
  then have "e = Compute (fx_md5 X) b" by (intro fs_view_etag)
  then show ?case by (simp add: Compute_nonempty)
next
  case (5 s ctx k r t)
  then have "after s t" by (intro fs_Get_spec(1)) (simp_all add: fs_store_def)
  then show ?case by (rule after_view)
next
  case (6 s ctx k rd e t)
  then show ?case by (intro fs_Get_spec(2)) (simp_all add: fs_store_def)
next
  case (7 s ctx k x t)
  show ?case by (rule fs_Get_spec(3) [OF 7(1) _ refl 7(3)]) (use 7(2) in \<open>simp add: fs_store_def\<close>)
next
  case (8 s ctx k i j g t)
  then have "after s t" by (intro fs_GetRange_spec(1)) (simp_all add: fs_store_def)
  then show ?case by (rule after_view)
next
  case (9 s ctx k i j p t)
  then show ?case by (intro fs_GetRange_spec(2)) (simp_all add: fs_store_def)
next
  case (10 s ctx k info t)
  then have "after s t" by (intro fs_Stat_spec) (simp_all add: fs_store_def)
  then show ?case by (rule after_view)
next
  case (11 s ctx p ks t)
  then have "after s t" by (intro fs_List_after) (simp_all add: fs_store_def)
  then show ?case by (rule after_view)
next
  case (12 s ctx k rd c e t)
  then show ?case using fs_Put_spec [of s ctx k rd c "Inr e" t] by (auto simp: fs_store_def put_effect_def)
next
  case (13 s ctx k rd c x t)
  then show ?case using fs_Put_spec [of s ctx k rd c "Inl x" t] by (auto simp: fs_store_def put_effect_def)
next
  case (14 s ctx k d t)
  then show ?case using fs_Delete_spec [of s ctx k d t] by (simp add: fs_store_def)
next
  case (15 s ctx p d t)
  then show ?case by (intro fs_DeletePrefix_spec) (simp_all add: fs_store_def)
qed

end

sublocale fs_disk \<subseteq> fs: cas_store "fs_store X" "fs_view X" "fs_invar X R" R
  by (rule fs_cas)

section \<open>An instance\<close>

text \<open>A digest without collisions, random bytes that count, and a lock that is always granted.\<close>

definition sample_fs :: fs_ext where
  "sample_fs = \<lparr>fx_md5 = (\<lambda>b. CHR ''x'' # b), fx_rand = (\<lambda>n. replicate n CHR ''r''),
     fx_TryLock = (\<lambda>ctx n. (True, None))\<rparr>"

definition empty_dir :: FileSystemBlobStore where
  "empty_dir = \<lparr>root = [], rootPath = ''/db'', lockPath = ''/db/.s3db.lock'', fs_clock = 0, fs_calls = 0,
     fs_io = [], fs_others = []\<rparr>"

interpretation sample_disk: fs_disk sample_fs "(=)"
  by unfold_locales (simp_all add: sample_fs_def)

section \<open>Properties\<close>

text \<open>
  C25: \<^verbatim>\<open>FileSystemBlobStore\<close> keeps the contract of \<^verbatim>\<open>BlobStore\<close> while other processes change the
  directory between its system calls and any system call fails: reads show one moment, a
  conditional write is atomic, and \<^verbatim>\<open>DeletePrefix\<close> removes objects under the prefix only.  Assumed
  are a digest without collisions, \<^verbatim>\<open>flock\<close> as documented (no lock without an error), and others
  that leave the temporary files of this process alone.
\<close>

theorem fs_contract:
  assumes "\<And>a b. fx_md5 X a = fx_md5 X b \<Longrightarrow> a = b" and "\<And>a. fx_md5 X a \<noteq> []"
    and "\<And>v. R v v" and "\<And>u v w. R u v \<Longrightarrow> R v w \<Longrightarrow> R u w"
    and "\<And>ctx n. fx_TryLock X ctx n \<noteq> (False, None)"
  shows "cas_store (fs_store X) (fs_view X) (fs_invar X R) R"
proof -
  have "fs_disk X R" by unfold_locales (use assms in blast)+
  then show ?thesis by (rule fs_disk.fs_cas)
qed

theorem fs_contract_witness:
  "cas_store (fs_store sample_fs) (fs_view sample_fs) (fs_invar sample_fs (\<lambda>u v. True)) (\<lambda>u v. True)"
  by (rule fs_contract) (simp_all add: sample_fs_def)

text \<open>
  C27: a \<^verbatim>\<open>Put\<close> that returns an error, at whatever system call it failed, has changed no object and
  created none: with no other process at work the objects are as before.
\<close>

theorem fs_failed_put:
  assumes "fs_disk X (=)" and "fs_invar X (=) s" and "fs_Put X ctx k rd c s = (Inl e, s')"
  shows "fs_view X s' = fs_view X s"
  using fs_disk.fs_Put_spec [OF assms] fs_disk.put_effect_def [OF assms(1)] by auto

theorem fs_failed_put_witness:
  "\<exists>e s'. fs_Put sample_fs None ''a'' (Inr ''b'') NoCondition (empty_dir\<lparr>fs_io := [None, None, None, Some ''EIO'']\<rparr>) =
     (Inl e, s') \<and> fs_view sample_fs s' = fs_view sample_fs (empty_dir\<lparr>fs_io := [None, None, None, Some ''EIO'']\<rparr>)"
proof -
  let ?s = "empty_dir\<lparr>fs_io := [None, None, None, Some ''EIO'']\<rparr>"
  have "fst (fs_Put sample_fs None ''a'' (Inr ''b'') NoCondition ?s) = Inl (OtherErr ''i/o: EIO'')" by code_simp
  then obtain s' where p: "fs_Put sample_fs None ''a'' (Inr ''b'') NoCondition ?s = (Inl (OtherErr ''i/o: EIO''), s')"
    by (metis prod.collapse)
  have "fs_invar sample_fs (=) ?s" by (simp add: fs_invar_def empty_dir_def tree_ok_def)
  from fs_failed_put [OF sample_disk.fs_disk_axioms this p] p show ?thesis by blast
qed

text \<open>
  C28: a key that \<^verbatim>\<open>validateKey\<close> accepts names one file below the root and no other key names the
  same one: its elements are not empty, neither a dot nor a double dot, free of slashes and
  backslashes and not reserved in any case, and joining them gives the key back.
\<close>

theorem validateKey_safe:
  assumes "validateKey k = None" and "c \<in> set (nativeName k)"
  shows "c \<noteq> '''' \<and> c \<noteq> ''.'' \<and> c \<noteq> ''..'' \<and> CHR ''/'' \<notin> set c \<and> CHR 0x5C \<notin> set c \<and>
    ToLower c \<noteq> fsLockName \<and> \<not> HasPrefix (ToLower c) fsTmpPrefix \<and> join_path (nativeName k) = k"
proof -
  have "set c \<subseteq> set k" using assms(2) SplitByte_subset by (simp add: nativeName_def)
  with assms SplitByte_no_sep [of c k "CHR ''/''"] valid_names(3) [OF assms(1)] show ?thesis
    by (auto simp: nativeName_def validateKey_def ValidPath_def list_all_iff list_ex_iff isReservedKey_def Let_def
        split: if_splits)
qed

theorem validateKey_safe_witness:
  "validateKey ''p/changesets/0/1'' = None \<and> join_path (nativeName ''p/changesets/0/1'') = ''p/changesets/0/1''"
proof -
  have v: "validateKey ''p/changesets/0/1'' = None" by code_simp
  have "''p'' \<in> set (nativeName ''p/changesets/0/1'')" by (simp add: nativeName_def)
  from validateKey_safe [OF v this] v show ?thesis by simp
qed

end
