(* ===== verification/Fs_Alone.thy ===== *)
theory Fs_Alone
  imports Fs_Contract
begin

text \<open>
  \<^verbatim>\<open>FileSystemBlobStore\<close> on a directory that one process has to itself, when no system call fails,
  behaves as \<^verbatim>\<open>MemBlobStore\<close> on a set of valid keys of which none is a directory of another (the
  restriction the type comment of \<^verbatim>\<open>blob_fs.go\<close> states): every sequence of operations returns the
  same results.
\<close>

section \<open>Key spaces and quiet states\<close>

definition keyspace :: "string set \<Rightarrow> bool" where
  "keyspace K \<longleftrightarrow>
     (\<forall>k \<in> K. validateKey k = None \<and> length (nativeName k) \<le> maxDepth) \<and>
     (\<forall>k \<in> K. \<forall>l \<in> K. \<not> strict_prefix (nativeName k) (nativeName l))"

text \<open>The files of a tree are keys, or the given temporary ones; its directories lead to keys.\<close>

definition shaped :: "string set \<Rightarrow> path set \<Rightarrow> tree \<Rightarrow> bool" where
  "shaped K T t \<longleftrightarrow>
     (\<forall>p b m. map_of t p = Some (FileNode b m) \<longrightarrow> p \<in> T \<or> p \<in> nativeName ` K) \<and>
     (\<forall>p. map_of t p = Some DirNode \<longrightarrow> (\<exists>k \<in> K. strict_prefix p (nativeName k)))"

definition quiet :: "string set \<Rightarrow> FileSystemBlobStore \<Rightarrow> bool" where
  "quiet K s \<longleftrightarrow> tree_ok (root s) \<and> shaped K {} (root s) \<and> fs_io s = [] \<and> fs_others s = []"

lemma quiet_held:
  "fs_io s = [] \<Longrightarrow> held f s = (fst (f (root s)), s\<lparr>root := snd (f (root s))\<rparr>)"
  by (simp add: held_def sys_def split: prod.splits)

lemma quiet_free:
  "fs_io s = [] \<Longrightarrow> fs_others s = [] \<Longrightarrow> free f s = (fst (f (root s)), s\<lparr>root := snd (f (root s))\<rparr>)"
  by (simp add: free_def quiet_held)

lemma quiet_unchanged: "fs_io s = [] \<Longrightarrow> held (unchanged x) s = (Inr x, s)"
  by (simp add: quiet_held unchanged_def)

lemmas calls = quiet_held quiet_free unchanged_def and_then_def

text \<open>Nothing reserved is on the way to a valid key.\<close>

lemma reserved_above:
  assumes "validateKey k = None" and "prefix (d @ [c]) (nativeName k)"
  shows "\<not> HasPrefix (ToLower c) fsTmpPrefix"
proof -
  have "c \<in> set (nativeName k)" using assms(2) by (auto simp: prefix_def)
  then show ?thesis using assms(1)
    by (auto simp: validateKey_def isReservedKey_def nativeName_def list_ex_iff Let_def split: if_splits)
qed

lemma shaped_tmp_free:
  assumes "keyspace K" and "shaped K {} t" and "tmp_path X p"
  shows "map_of t p = None"
proof (cases "map_of t p")
  case (Some n)
  obtain d c where p: "p = d @ [fsTmpPrefix @ c]" using assms(3) by (auto simp: tmp_path_def)
  from Some assms(2) obtain k where "k \<in> K" "prefix p (nativeName k)"
    by (cases n) (auto simp: shaped_def strict_prefix_def)
  with assms(1) reserved_above [of k d "fsTmpPrefix @ c"] reserved_tmp p show ?thesis
    by (auto simp: keyspace_def)
qed

lemma shaped_key:
  assumes "keyspace K" and "shaped K {} t" and "k \<in> K"
  shows "map_of t (nativeName k) \<noteq> Some DirNode" and "no_file_above t (nativeName k)"
    and "d \<noteq> [] \<Longrightarrow> prefix d (butlast (nativeName k)) \<Longrightarrow> files t d = None"
proof -
  show "map_of t (nativeName k) \<noteq> Some DirNode" using assms by (auto simp: shaped_def keyspace_def)
  show n: "no_file_above t (nativeName k)"
  proof -
    have "files t q = None" if "strict_prefix q (nativeName k)" for q
    proof (cases "files t q")
      case (Some b)
      then obtain m where "map_of t q = Some (FileNode b m)" by (auto simp: files_some)
      with assms(2) have "q \<in> nativeName ` K" by (auto simp: shaped_def)
      with assms(1,3) that show ?thesis by (auto simp: keyspace_def)
    qed
    then show ?thesis by (simp add: no_file_above_def)
  qed
  assume "d \<noteq> []" and d: "prefix d (butlast (nativeName k))"
  have "nativeName k \<noteq> []" using valid_names(1) assms(1,3) by (auto simp: keyspace_def)
  then have "strict_prefix d (nativeName k)"
    using d by (metis append_butlast_last_id prefix_order.le_less_trans strict_prefixI')
  then show "files t d = None" using n by (simp add: no_file_above_def)
qed

section \<open>Reading\<close>

lemma openBlob_quiet:
  assumes "keyspace K" and "quiet K s" and "k \<in> K"
  shows "openBlob k s = (case map_of (root s) (nativeName k) of
      Some (FileNode b m) \<Rightarrow> (Inr (b, m), s) | _ \<Rightarrow> (Inl ErrNotFound, s))"
proof -
  have q: "tree_ok (root s)" "shaped K {} (root s)" "fs_io s = []" "fs_others s = []"
    using assms(2) by (simp_all add: quiet_def)
  note S = shaped_key [OF assms(1) q(2) assms(3)]
  show ?thesis
  proof (cases "map_of (root s) (nativeName k)")
    case None
    with Lstat_none [OF q(1) S(2)] q(3,4) show ?thesis
      by (simp add: openBlob_def root_Open_def calls mapFSErr_def)
  next
    case (Some n)
    with S(1) obtain b m where "n = FileNode b m" by (cases n) auto
    with Some Lstat_some [OF q(1) Some] q(3,4) show ?thesis
      by (simp add: openBlob_def root_Open_def calls)
  qed
qed

text \<open>The objects of a quiet store, and a store in memory with the same objects.\<close>

definition same_objects :: "fs_ext \<Rightarrow> string set \<Rightarrow> FileSystemBlobStore \<Rightarrow> MemBlobStore \<Rightarrow> bool" where
  "same_objects X K s m \<longleftrightarrow> quiet K s \<and> mem_invar (fx_md5 X) m \<and> fs_view X s = mem_view m"

lemma same_lookup:
  assumes "keyspace K" and "same_objects X K s m" and "k \<in> K"
  shows "(case map_of (root s) (nativeName k) of Some (FileNode b m) \<Rightarrow> Some (b, Compute (fx_md5 X) b) | _ \<Rightarrow> None) =
    map_option (\<lambda>e. (mem_body e, mem_etag e)) (map_of (objects m) k)"
proof -
  have "fs_view X s k = mem_view m k" using assms(2) by (simp add: same_objects_def)
  then show ?thesis using assms(1,3)
    by (auto simp: keyspace_def mem_view_def fs_view_def tree_view_def files_def split: option.splits node.splits)
qed
lemma quiet_io: "quiet K s \<Longrightarrow> fs_io s = []" "quiet K s \<Longrightarrow> fs_others s = []"
  by (simp_all add: quiet_def)

lemma keyspace_valid: "keyspace K \<Longrightarrow> k \<in> K \<Longrightarrow> validateKey k = None"
  by (simp add: keyspace_def)

lemma reads_agree:
  assumes "keyspace K" and "same_objects X K s m" and "k \<in> K"
  shows "fs_Get X None k s = (fst (mem_Get None k m), s)"
    and "0 \<le> i \<Longrightarrow> i \<le> j + 1 \<Longrightarrow> fs_GetRange None k i j s = (fst (mem_GetRange None k i j m), s)"
    and "map_sum id (\<lambda>x. (ETag x, Size x)) (fst (fs_Stat X None k s)) =
      map_sum id (\<lambda>x. (ETag x, Size x)) (fst (mem_Stat None k m))"
    and "snd (fs_Stat X None k s) = s"
proof -
  have q: "quiet K s" using assms(2) by (simp add: same_objects_def)
  note o = openBlob_quiet [OF assms(1) q assms(3)] same_lookup [OF assms] keyspace_valid [OF assms(1,3)] quiet_io [OF q]
  show "fs_Get X None k s = (fst (mem_Get None k m), s)"
    using o by (cases "map_of (objects m) k") (auto simp: fs_Get_def mem_Get_def calls split: option.splits node.splits)
  show "0 \<le> i \<Longrightarrow> i \<le> j + 1 \<Longrightarrow> fs_GetRange None k i j s = (fst (mem_GetRange None k i j m), s)"
    using o by (cases "map_of (objects m) k") (auto simp: fs_GetRange_def mem_GetRange_def calls Let_def algebra_simps split: option.splits node.splits)
  show "map_sum id (\<lambda>x. (ETag x, Size x)) (fst (fs_Stat X None k s)) =
      map_sum id (\<lambda>x. (ETag x, Size x)) (fst (mem_Stat None k m))"
    using o by (cases "map_of (objects m) k") (auto simp: fs_Stat_def mem_Stat_def calls split: option.splits node.splits)
  show "snd (fs_Stat X None k s) = s"
    using o by (auto simp: fs_Stat_def calls split: option.splits node.splits)
qed

section \<open>Writing\<close>

lemma mkdirs_shaped:
  assumes "\<And>q. q \<noteq> [] \<Longrightarrow> prefix q cs \<Longrightarrow> \<exists>k \<in> K. strict_prefix (d @ q) (nativeName k)" and "shaped K T t"
  shows "shaped K T (snd (mkdirs d cs t))"
  using assms
proof (induction d cs t rule: mkdirs.induct)
  case (2 d c cs t)
  have c: "\<exists>k \<in> K. strict_prefix (d @ [c]) (nativeName k)" using "2.prems"(1) [of "[c]"] by simp
  have p: "\<exists>k \<in> K. strict_prefix ((d @ [c]) @ q) (nativeName k)" if "q \<noteq> []" "prefix q cs" for q
    using "2.prems"(1) [of "c # q"] that by simp
  have "shaped K T (AList.update (d @ [c]) DirNode t)"
    using "2.prems"(2) c by (auto simp: shaped_def tree_maps)
  then show ?case using "2.IH" p "2.prems"(2) by (auto split: option.splits node.splits)
qed simp

lemma shaped_update_file:
  "shaped K T t \<Longrightarrow> p \<in> T \<or> p \<in> nativeName ` K \<Longrightarrow> shaped K T (AList.update p (FileNode b m) t)"
  by (auto simp: shaped_def tree_maps)

lemma shaped_insert: "shaped K T t \<Longrightarrow> shaped K (insert p T) t"
  by (auto simp: shaped_def)

lemma shaped_delete: "shaped K (insert p T) t \<Longrightarrow> shaped K T (AList.delete p t)"
  by (auto simp: shaped_def tree_maps split: if_splits)

lemma shaped_delete': "shaped K T t \<Longrightarrow> shaped K T (AList.delete p t)"
  by (auto simp: shaped_def tree_maps split: if_splits)

text \<open>The tree after the directories of a key and the temporary file have been made and filled.\<close>

definition staged_tree :: "fs_ext \<Rightarrow> string \<Rightarrow> bytes \<Rightarrow> FileSystemBlobStore \<Rightarrow> tree" where
  "staged_tree X k b s =
     (let dir = butlast (nativeName k);
          tmp = dir @ [fsTmpPrefix @ hex_EncodeToString (fx_rand X (fs_calls s))]
      in AList.update tmp (FileNode b (fs_clock s)) (snd (mkdirs [] dir (root s))))"

lemma dir_steps:
  assumes "keyspace K" and "quiet K s" and "k \<in> K"
  defines "dir \<equiv> butlast (nativeName k)" and "t \<equiv> snd (mkdirs [] (butlast (nativeName k)) (root s))"
  shows "fst (mkdirs [] dir (root s)) = Inr ()" and "tree_ok t" and "files t = files (root s)"
    and "shaped K {} t" and "in_dir t dir"
proof -
  have q: "tree_ok (root s)" "shaped K {} (root s)" using assms(2) by (simp_all add: quiet_def)
  have v: "list_all name_ok dir" "nativeName k \<noteq> []"
    using valid_names [OF keyspace_valid [OF assms(1,3)]] by (auto simp: dir_def list_all_iff dest: in_set_butlastD)
  have f: "files (root s) ([] @ p) = None" if "prefix p dir" for p
    using shaped_key(3) [OF assms(1) q(2) assms(3), of p] that tree_ok_root [OF q(1)]
    by (cases "p = []") (auto simp: dir_def files_def)
  show r: "fst (mkdirs [] dir (root s)) = Inr ()"
    by (rule mkdirs_free [OF q(1) _ v(1) _ f]) (simp_all add: in_dir_def)
  have t: "mkdirs [] dir (root s) = (Inr (), t)" using r by (simp add: t_def dir_def prod_eq_iff)
  from mkdirs_spec [OF q(1) _ v(1) _ t] show "tree_ok t" "files t = files (root s)" "in_dir t dir"
    by (simp_all add: in_dir_def)
  have "strict_prefix dir (nativeName k)" using v(2) by (metis append_butlast_last_id dir_def strict_prefixI')
  then have "\<exists>k \<in> K. strict_prefix ([] @ p) (nativeName k)" if "prefix p dir" for p
    using assms(3) that by (metis append_Nil prefix_order.le_less_trans)
  with mkdirs_shaped [of dir K "[]" "{}" "root s"] q(2) show "shaped K {} t" by (simp add: t_def dir_def)
qed

lemma staged_steps:
  fixes X :: fs_ext and b :: bytes
  assumes "keyspace K" and "quiet K s" and "k \<in> K"
  defines "tmp \<equiv> butlast (nativeName k) @ [fsTmpPrefix @ hex_EncodeToString (fx_rand X (fs_calls s))]"
    and "t \<equiv> staged_tree X k b s"
  shows "tree_ok t" and "files t = (files (root s))(tmp \<mapsto> b)" and "shaped K {tmp} t"
    and "map_of t tmp = Some (FileNode b (fs_clock s))" and "map_of t (nativeName k) = map_of (root s) (nativeName k)"
    and "tmp_path X tmp" and "tmp \<noteq> nativeName k"
proof -
  let ?t = "snd (mkdirs [] (butlast (nativeName k)) (root s))"
  note D = dir_steps [OF assms(1-3)]
  show tp: "tmp_path X tmp" by (auto simp: tmp_def tmp_path_def)
  have v: "validateKey k = None" by (rule keyspace_valid [OF assms(1,3)])
  show ne: "tmp \<noteq> nativeName k" using valid_not_tmp [OF v] tp by blast
  have n: "list_all name_ok tmp" "tmp \<noteq> []" "butlast tmp = butlast (nativeName k)"
    using valid_names(2) [OF v] tmp_name_ok by (auto simp: tmp_def list_all_iff dest: in_set_butlastD)
  have f: "map_of ?t tmp = None" by (rule shaped_tmp_free [OF assms(1) D(4) tp])
  have t: "t = AList.update tmp (FileNode b (fs_clock s)) ?t"
    by (simp add: t_def staged_tree_def Let_def tmp_def)
  show "tree_ok t" unfolding t using D(2,5) n f by (intro tree_ok_update) auto
  show "files t = (files (root s))(tmp \<mapsto> b)" by (simp add: t D(3))
  show "shaped K {tmp} t" unfolding t by (intro shaped_update_file shaped_insert D(4)) simp_all
  show "map_of t tmp = Some (FileNode b (fs_clock s))" by (simp add: t tree_maps)
  have q: "tree_ok (root s)" "shaped K {} (root s)" using assms(2) by (simp_all add: quiet_def)
  have m: "map_of (root s) p = Some n \<Longrightarrow> map_of ?t p = Some n" for p n
    using mkdirs_spec [OF q(1) _ _ _ surjective_pairing, of "[]" "butlast (nativeName k)"] valid_names(2) [OF v]
    by (auto simp: in_dir_def list_all_iff dest: in_set_butlastD)
  have "map_of ?t (nativeName k) = map_of (root s) (nativeName k)"
  proof (cases "map_of (root s) (nativeName k)")
    case None
    then have "files ?t (nativeName k) = None" using D(3) by (simp add: files_def)
    with shaped_key(1) [OF assms(1) D(4) assms(3)] None show ?thesis
      by (cases "map_of ?t (nativeName k)") (auto simp: files_def split: node.splits)
  qed (simp add: m)
  then show "map_of t (nativeName k) = map_of (root s) (nativeName k)" using ne by (simp add: t tree_maps)
qed

lemma createTemp_quiet:
  fixes X :: fs_ext
  assumes "fs_io s = []" and "fs_others s = []" and "tree_ok (root s)" and "in_dir (root s) dir"
  defines "tmp \<equiv> dir @ [fsTmpPrefix @ hex_EncodeToString (fx_rand X (fs_calls s))]"
  assumes "map_of (root s) tmp = None"
  shows "createTemp X dir (Suc n) s =
    (Inr tmp, s\<lparr>fs_calls := Suc (fs_calls s), root := AList.update tmp (FileNode [] (fs_clock s)) (root s)\<rparr>)"
proof -
  have "open_dir (root s) [] dir = None" using open_dir_iff [OF assms(3)] assms(4) by simp
  then have "root_Create (fs_clock s) tmp (root s) = (Inr (), AList.update tmp (FileNode [] (fs_clock s)) (root s))"
    using assms(6) by (simp add: root_Create_def tmp_def)
  with assms(1,2) show ?thesis by (simp add: calls tmp_def [symmetric])
qed

lemma Rename_quiet:
  assumes "tree_ok t" and "map_of t p = Some n" and "butlast p = butlast q" and "map_of t q \<noteq> Some DirNode"
  shows "root_Rename p q t = (Inr (), AList.update q n (AList.delete p t))"
proof -
  have "open_dir t [] (butlast p) = None" using tree_okD(3) [OF assms(1,2)] open_dir_iff [OF assms(1)] by simp
  with assms(2-4) show ?thesis by (auto simp: root_Rename_def split: option.splits node.splits)
qed

text \<open>The locked part of \<^verbatim>\<open>Put\<close>.\<close>

lemma putLocked_quiet:
  assumes "fs_io s = []" and "tree_ok (root s)" and "no_file_above (root s) p" and "map_of (root s) p \<noteq> Some DirNode"
    and "map_of (root s) tmp = Some n" and "butlast tmp = butlast p"
    and "x = map_option (\<lambda>b. (b, Compute (fx_md5 X) b)) (files (root s) p)"
  shows "putLocked X tmp p c s =
    (if cond_ok c x then (Inr (), s\<lparr>root := AList.update p n (AList.delete tmp (root s))\<rparr>)
     else (Inl ErrPreconditionFailed, s))"
proof -
  note R = Rename_quiet [OF assms(2,5,6,4)]
  show ?thesis
  proof (cases "map_of (root s) p")
    case None
    with Lstat_none [OF assms(2,3)] R assms(1,7) show ?thesis
      by (simp add: putLocked_def putTarget_def calls cond_ok_def files_def)
  next
    case (Some m)
    with assms(4) obtain b t where m: "m = FileNode b t" by (cases m) auto
    note L = Lstat_some [OF assms(2) Some]
    have x: "x = Some (b, Compute (fx_md5 X) b)" using Some m assms(7) by (simp add: files_def)
    have e: "computeETag X p s = (Inr (Compute (fx_md5 X) b), s)"
      using L m assms(1) by (simp add: computeETag_def root_Open_def calls)
    show ?thesis using L R assms(1) x m e Some
      by (auto simp: putLocked_def putTarget_def calls cond_ok_def Let_def)
  qed
qed

lemma fs_Put_quiet:
  fixes X :: fs_ext and b :: bytes
  assumes "keyspace K" and "quiet K s" and "k \<in> K" and "\<And>n. fx_TryLock X None n = (True, None)"
    and "\<not> (IfMatch c \<noteq> '''' \<and> IfNoneMatch c)"
  defines "tmp \<equiv> butlast (nativeName k) @ [fsTmpPrefix @ hex_EncodeToString (fx_rand X (fs_calls s))]"
    and "t \<equiv> staged_tree X k b s"
  shows "\<exists>n. fs_Put X None k (Inr b) c s =
    (if cond_ok c (fs_view X s k)
     then (Inr (Compute (fx_md5 X) b), s\<lparr>fs_calls := n, root := AList.update (nativeName k) (FileNode b (fs_clock s)) (AList.delete tmp t)\<rparr>)
     else (Inl ErrPreconditionFailed, s\<lparr>fs_calls := n, root := AList.delete tmp t\<rparr>))"
proof -
  have v: "validateKey k = None" by (rule keyspace_valid [OF assms(1,3)])
  note io = quiet_io [OF assms(2)]
  note D = dir_steps [OF assms(1-3)]
  note S = staged_steps(1-5) [OF assms(1-3), where X = X and b = b, folded tmp_def t_def]
    staged_steps(6,7) [OF assms(1-3), where X = X, folded tmp_def]
  have q: "shaped K {} (root s)" using assms(2) by (simp add: quiet_def)
  let ?d = "butlast (nativeName k)" and ?t = "snd (mkdirs [] (butlast (nativeName k)) (root s))"
  define s1 where "s1 = s\<lparr>root := ?t\<rparr>"
  have m: "(if ?d = [] then Pair (Inr ()) else free (root_MkdirAll ?d)) s = (Inr (), s1)"
    using D(1) io by (simp add: s1_def calls root_MkdirAll_def)
  have c: "createTemp X ?d 10 s1 =
      (Inr tmp, s1\<lparr>fs_calls := Suc (fs_calls s), root := AList.update tmp (FileNode [] (fs_clock s)) ?t\<rparr>)"
    using createTemp_quiet [of s1 ?d X 9] io D(2,5) shaped_tmp_free [OF assms(1) D(4) S(6)]
    by (simp add: s1_def tmp_def del: createTemp.simps)
  have "nativeName k \<noteq> []" by (rule valid_names(1) [OF v])
  then have "length tmp = length (nativeName k)" by (simp add: tmp_def)
  then have "\<not> strict_prefix tmp (nativeName k)" using prefix_length_less by fastforce
  then have nf: "no_file_above t (nativeName k)"
    using shaped_key(2) [OF assms(1) q assms(3)] S(2) by (auto simp: no_file_above_def)
  define s2 where "s2 = s\<lparr>fs_calls := Suc (Suc (fs_calls s)), root := t\<rparr>"
  have x: "fs_view X s k = map_option (\<lambda>b. (b, Compute (fx_md5 X) b)) (files (root s2) (nativeName k))"
    using v S(2,7) by (simp add: fs_view_def tree_view_def s2_def)
  have P: "putLocked X tmp (nativeName k) c s2 =
    (if cond_ok c (fs_view X s k)
     then (Inr (), s2\<lparr>root := AList.update (nativeName k) (FileNode b (fs_clock s)) (AList.delete tmp (root s2))\<rparr>)
     else (Inl ErrPreconditionFailed, s2))"
    by (rule putLocked_quiet [OF _ _ _ _ _ _ x])
      (use io S(1,4,5) nf shaped_key(1) [OF assms(1) q assms(3)] in \<open>simp_all add: s2_def tmp_def\<close>)
  have R: "root_Remove tmp t = (Inr (), AList.delete tmp t)" by (rule Remove_file [OF S(1,4)])
  have t: "t = AList.update tmp (FileNode b (fs_clock s)) ?t"
    by (simp add: t_def staged_tree_def Let_def tmp_def)
  define s0 where "s0 = s\<lparr>fs_calls := Suc (fs_calls s), root := t\<rparr>"
  have L: "withLock X None (putLocked X tmp (nativeName k) c) s0 = putLocked X tmp (nativeName k) c s2"
  proof -
    have "(others_act s0)\<lparr>fs_calls := Suc (fs_calls s0)\<rparr> = s2"
      using io by (cases s) (simp add: s0_def s2_def)
    with assms(4) show ?thesis by (simp add: withLock_def)
  qed
  have W: "stagePut X None (nativeName k) (Inr b) c tmp (s1\<lparr>fs_calls := Suc (fs_calls s), root := AList.update tmp (FileNode [] (fs_clock s)) ?t\<rparr>) =
      (case putLocked X tmp (nativeName k) c s2 of (Inr _, s') \<Rightarrow> (Inr (Compute (fx_md5 X) b), s')
       | (Inl e, s') \<Rightarrow> (Inl e, snd (free (root_Remove tmp) s')))"
  proof -
    have "s1\<lparr>fs_calls := Suc (fs_calls s), root := t\<rparr> = s0" by (simp add: s1_def s0_def)
    then show ?thesis using io L
      by (auto simp: stagePut_def calls file_Write_def s1_def t [symmetric] split: sum.splits prod.splits)
  qed
  have "fs_Put X None k (Inr b) c s = stagePut X None (nativeName k) (Inr b) c tmp
      (s1\<lparr>fs_calls := Suc (fs_calls s), root := AList.update tmp (FileNode [] (fs_clock s)) ?t\<rparr>)"
    using v assms(5) m c by (auto simp: fs_Put_def Let_def and_then_def)
  then show ?thesis using W P R io
    by (intro exI [of _ "Suc (Suc (fs_calls s))"]) (simp add: calls s2_def)
qed

lemma puts_agree:
  assumes "fs_disk X (=)" and "keyspace K" and "same_objects X K s m" and "k \<in> K"
    and "\<And>n. fx_TryLock X None n = (True, None)"
  shows "\<exists>s'. fs_Put X None k (Inr b) c s = (fst (mem_Put (fx_md5 X) None k (Inr b) c m), s') \<and>
    same_objects X K s' (snd (mem_Put (fx_md5 X) None k (Inr b) c m))"
proof (cases "IfMatch c \<noteq> '''' \<and> IfNoneMatch c")
  case True
  with assms(3) show ?thesis by (simp add: fs_Put_def mem_Put_def)
next
  case False
  have q: "quiet K s" "mem_invar (fx_md5 X) m" "fs_view X s = mem_view m"
    using assms(3) by (simp_all add: same_objects_def)
  let ?tmp = "butlast (nativeName k) @ [fsTmpPrefix @ hex_EncodeToString (fx_rand X (fs_calls s))]"
  note S = staged_steps(3) [OF assms(2) q(1) assms(4), where X = X and b = b]
  have i: "fs_invar X (=) s" using q(1) by (simp add: quiet_def fs_invar_def)
  from fs_Put_quiet [OF assms(2) q(1) assms(4,5) False, where b = b]
  obtain r s' where r: "fs_Put X None k (Inr b) c s = (r, s')" "fs_io s' = []" "fs_others s' = []"
    "r = (if cond_ok c (mem_view m k) then Inr (Compute (fx_md5 X) b) else Inl ErrPreconditionFailed)"
    "root s' = (if cond_ok c (mem_view m k)
      then AList.update (nativeName k) (FileNode b (fs_clock s)) (AList.delete ?tmp (staged_tree X k b s))
      else AList.delete ?tmp (staged_tree X k b s))"
    using quiet_io [OF q(1)] q(3) by (auto split: if_splits)
  from fs_disk.fs_Put_spec [OF assms(1) i r(1)] fs_disk.put_effect_def [OF assms(1)]
  have t: "tree_ok (root s')" and v: "fs_view X s' = (if cond_ok c (mem_view m k)
      then (mem_view m)(k \<mapsto> (b, Compute (fx_md5 X) b)) else mem_view m)"
    using r(4) q(3) by (auto simp: fs_invar_def split: if_splits)
  have "shaped K {} (root s')" using shaped_delete [OF S] shaped_update_file assms(4) r(5) by auto
  with t r(2,3) have "quiet K s'" by (simp add: quiet_def)
  with r v q(2) False show ?thesis
    by (auto simp: same_objects_def mem_Put_cases mem_view_update intro: mem_invar_update)
qed

section \<open>Deleting\<close>

lemma prune_shaped:
  "fs_io s = [] \<Longrightarrow> shaped K T (root s) \<Longrightarrow>
     shaped K T (root (pruneEmptyDirs d s)) \<and> fs_io (pruneEmptyDirs d s) = []"
proof (induction d s rule: pruneEmptyDirs.induct)
  case (1 d s)
  have "shaped K T (snd (root_Remove d (root s)))"
    using shaped_delete' [OF 1(3)] 1(3) by (auto simp: root_Remove_def split: option.splits node.splits)
  then show ?case
    using 1 by (subst (1 2) pruneEmptyDirs.simps) (auto simp: quiet_held split: sum.splits)
qed

lemma deletes_agree:
  assumes "fs_disk X (=)" and "keyspace K" and "same_objects X K s m" and "k \<in> K"
    and "\<And>n. fx_TryLock X None n = (True, None)"
  shows "\<exists>s'. fs_Delete X None k s = (None, s') \<and> same_objects X K s' (snd (mem_Delete None k m))"
proof -
  have q: "tree_ok (root s)" "shaped K {} (root s)" "fs_io s = []" "fs_others s = []"
    "mem_invar (fx_md5 X) m" "fs_view X s = mem_view m"
    using assms(3) by (simp_all add: same_objects_def quiet_def)
  have v: "validateKey k = None" by (rule keyspace_valid [OF assms(2,4)])
  define u where "u = s\<lparr>fs_calls := Suc (fs_calls s)\<rparr>"
  have d: "fs_Delete X None k s = apfst err_of (deleteLocked (nativeName k) u)"
    using v assms(5) q(4) by (simp add: fs_Delete_def withLock_def u_def)
  let ?n = "nativeName k"
  note S = shaped_key [OF assms(2) q(2) assms(4)]
  have m: "same_objects X K s' (snd (mem_Delete None k m))"
    if "quiet K s'" "fs_view X s' = (fs_view X s)(k := None)" for s'
    using that q(5,6) by (simp add: same_objects_def mem_Delete_def mem_invar_delete mem_view_delete)
  show ?thesis
  proof (cases "map_of (root s) ?n")
    case None
    with Lstat_none [OF q(1) S(2)] q(3) have "deleteLocked ?n u = (Inr (), u)"
      by (simp add: deleteLocked_def u_def calls)
    moreover have "fs_view X s k = None" using None by (simp add: fs_view_def tree_view_def files_def)
    then have "fs_view X u = (fs_view X s)(k := None)" by (simp add: u_def fs_view_def fun_upd_idem)
    moreover have "quiet K u" using q by (simp add: u_def quiet_def)
    ultimately show ?thesis using d m [of u] by (simp add: err_of_def)
  next
    case (Some n)
    with S(1) obtain b t where n: "n = FileNode b t" by (cases n) auto
    define v where "v = u\<lparr>root := AList.delete ?n (root s)\<rparr>"
    have del: "deleteLocked ?n u = (Inr (), pruneEmptyDirs (butlast ?n) v)"
      using Lstat_some [OF q(1) Some] Remove_file [OF q(1) Some [unfolded n]] q(3) n
      by (simp add: deleteLocked_def u_def v_def calls)
    note R = fs_disk.Remove_spec [OF assms(1) q(1) Remove_file [OF q(1) Some [unfolded n]]]
    from fs_disk.prune_spec [OF assms(1), of v "butlast ?n"] R
    have p: "tree_ok (root (pruneEmptyDirs (butlast ?n) v))" "fs_others (pruneEmptyDirs (butlast ?n) v) = []"
      "files (root (pruneEmptyDirs (butlast ?n) v)) = (files (root s))(?n := None)"
      using q(4) by (simp_all add: v_def u_def)
    with prune_shaped [of v K "{}" "butlast ?n"] shaped_delete' [OF q(2)] q(3)
    have "quiet K (pruneEmptyDirs (butlast ?n) v)" by (simp add: quiet_def v_def u_def)
    with m tree_view_del [OF \<open>validateKey k = None\<close> p(3)] d del show ?thesis
      by (simp add: err_of_def fs_view_def)
  qed
qed

section \<open>Listing\<close>

lemma tree_upper:
  assumes "tree_ok t"
  shows "map_of t q = Some n \<Longrightarrow> prefix r q \<Longrightarrow> r \<noteq> [] \<Longrightarrow> r = q \<or> map_of t r = Some DirNode"
proof (induction q arbitrary: n rule: rev_induct)
  case (snoc c q)
  have d: "in_dir t q" using tree_okD(3) [OF assms snoc.prems(1)] by simp
  from snoc.prems(2) consider "r = q @ [c]" | "prefix r q" by auto
  then show ?case
  proof cases
    case 2
    with snoc.prems(3) have "q \<noteq> []" by auto
    with d have "map_of t q = Some DirNode" by (simp add: in_dir_def)
    with snoc.IH [OF this 2 snoc.prems(3)] show ?thesis by auto
  qed simp
qed simp

text \<open>The files at or below the entries of a list, and what the walk collects of them.\<close>

definition below :: "tree \<Rightarrow> (path \<times> bool) list \<Rightarrow> path set" where
  "below t es = {q. files t q \<noteq> None \<and> (\<exists>p \<in> fst ` set es. prefix p q)}"

definition collects :: "string \<Rightarrow> tree \<Rightarrow> (path \<times> bool) list \<Rightarrow> string list \<Rightarrow> bool" where
  "collects pre t es ks \<longleftrightarrow> distinct ks \<and>
     set ks = join_path ` {q \<in> below t es. \<not> isReservedKey (join_path q) \<and> HasPrefix (join_path q) pre}"

text \<open>
  A list of entries as \<^verbatim>\<open>ReadDir\<close> gives it: what is below one entry is not below another, and the
  depth that is left suffices.
\<close>

definition walkable :: "tree \<Rightarrow> nat \<Rightarrow> (path \<times> bool) list \<Rightarrow> bool" where
  "walkable t n es \<longleftrightarrow> distinct (map fst es) \<and>
     (\<forall>p \<in> fst ` set es. \<forall>q \<in> fst ` set es. prefix p q \<longrightarrow> p = q) \<and>
     (\<forall>(p, d) \<in> set es. if d then in_dir t p \<and> 0 < n \<and>
            (\<forall>q. prefix p q \<longrightarrow> map_of t q = Some DirNode \<longrightarrow> length q < length p + n)
        else files t p \<noteq> None)"

lemma join_path_inj:
  assumes "tree_ok t" and "files t p \<noteq> None" and "files t q \<noteq> None" and "join_path p = join_path q"
  shows "p = q"
proof -
  have "SplitByte (join_path r) CHR ''/'' = r" if "files t r \<noteq> None" for r
  proof -
    from that obtain n where "map_of t r = Some n" by (auto simp: files_def split: option.splits)
    from tree_okD(1,2) [OF assms(1) this] show ?thesis
      by (intro SplitByte_join) (auto simp: list_all_iff name_ok_def)
  qed
  with assms(2-4) show ?thesis by metis
qed

lemma collects_append:
  assumes "tree_ok t" and "collects pre t es ks" and "collects pre t es' ks'"
    and "below t es \<inter> below t es' = {}"
  shows "collects pre t (es @ es') (ks @ ks')"
proof -
  have b: "below t (es @ es') = below t es \<union> below t es'" by (auto simp: below_def)
  have "k \<notin> set ks'" if "k \<in> set ks" for k
  proof
    assume "k \<in> set ks'"
    with assms(3) obtain q where q: "q \<in> below t es'" "k = join_path q" by (auto simp: collects_def)
    from assms(2) that obtain p where p: "p \<in> below t es" "k = join_path p" by (auto simp: collects_def)
    have "p = q"
    proof (rule join_path_inj [OF assms(1)])
      show "files t p \<noteq> None" "files t q \<noteq> None" using p(1) q(1) by (auto simp: below_def)
      show "join_path p = join_path q" using p(2) q(2) by (rule trans [OF sym])
    qed
    with p(1) q(1) assms(4) show False by auto
  qed
  then have "set ks \<inter> set ks' = {}" by auto
  with assms(2,3) show ?thesis unfolding collects_def b by auto
qed

lemma below_disjoint:
  assumes "walkable t n (x # es)"
  shows "below t [x] \<inter> below t es = {}"
proof -
  have "False" if "prefix (fst x) q" "p \<in> fst ` set es" "prefix p q" for p q
  proof -
    from that(1,3) have "prefix p (fst x) \<or> prefix (fst x) p" by (metis prefix_same_cases)
    with that(2) assms have "p = fst x" by (auto simp: walkable_def)
    with that(2) assms show False by (auto simp: walkable_def)
  qed
  then show ?thesis by (auto simp: below_def)
qed

lemma walkable_Cons: "walkable t n (x # es) \<Longrightarrow> walkable t n es"
  by (auto simp: walkable_def)

lemma ReadDir_entries:
  assumes "tree_ok t" and "walkable t (Suc n) ((p, True) # es)"
  shows "\<exists>ds. root_ReadDir p t = (Inr ds, t) \<and> walkable t n ds \<and> below t ds = below t [(p, True)]"
proof -
  let ?qs = "sort (filter (\<lambda>q. q \<noteq> [] \<and> butlast q = p) (map fst t))"
  let ?ds = "map (\<lambda>q. (q, map_of t q = Some DirNode)) ?qs"
  have p: "in_dir t p" "\<And>q. prefix p q \<Longrightarrow> map_of t q = Some DirNode \<Longrightarrow> length q < length p + Suc n"
    using assms(2) by (auto simp: walkable_def)
  have mem: "q \<in> set ?qs \<longleftrightarrow> map_of t q \<noteq> None \<and> q \<noteq> [] \<and> butlast q = p" for q
    by (auto simp: map_of_eq_None_iff)
  have len: "length q = Suc (length p)" "prefix p q" if "q \<in> set ?qs" for q
  proof -
    from that [unfolded mem] have "q \<noteq> []" "butlast q = p" by auto
    then obtain c where "q = p @ [c]" using append_butlast_last_id [of q] by metis
    then show "length q = Suc (length p)" "prefix p q" by simp_all
  qed
  have fs: "map_of t q = Some DirNode \<or> files t q \<noteq> None" if "q \<in> set ?qs" for q
    using that [unfolded mem] by (auto simp: files_def split: option.splits node.splits)
  have "walkable t n ?ds"
  proof -
    have "distinct (map fst ?ds)" using assms(1) by (simp add: tree_ok_def comp_def)
    moreover have "\<forall>a \<in> fst ` set ?ds. \<forall>b \<in> fst ` set ?ds. prefix a b \<longrightarrow> a = b"
    proof (intro ballI impI)
      fix a b assume "a \<in> fst ` set ?ds" "b \<in> fst ` set ?ds" and ab: "prefix a b"
      then have "a \<in> set ?qs" "b \<in> set ?qs" by (auto intro: rev_image_eqI)
      then have "length a = length b" using len(1) [of a] len(1) [of b] by simp
      with ab show "a = b" by (metis append_eq_conv_conj prefix_def take_all_iff order_refl)
    qed
    moreover have "if d then in_dir t q \<and> 0 < n \<and>
        (\<forall>r. prefix q r \<longrightarrow> map_of t r = Some DirNode \<longrightarrow> length r < length q + n) else files t q \<noteq> None"
      if "(q, d) \<in> set ?ds" for q d
    proof -
      from that have q: "q \<in> set ?qs" "d = (map_of t q = Some DirNode)" by auto
      show ?thesis
      proof (cases d)
        case True
        with q p(2) [of q] len [OF q(1)] have "0 < n" by auto
        moreover have "length r < length q + n" if "prefix q r" "map_of t r = Some DirNode" for r
          using p(2) [of r] that len [OF q(1)] prefix_order.order_trans [of p q r] by auto
        ultimately show ?thesis using True q by (simp add: in_dir_def)
      qed (use q fs [OF q(1)] in auto)
    qed
    ultimately show ?thesis unfolding walkable_def by blast
  qed
  moreover have "below t ?ds = below t [(p, True)]"
  proof
    show "below t ?ds \<subseteq> below t [(p, True)]"
      using len(2) prefix_order.order_trans by (fastforce simp: below_def)
    show "below t [(p, True)] \<subseteq> below t ?ds"
    proof
      fix q assume "q \<in> below t [(p, True)]"
      then have q: "files t q \<noteq> None" "prefix p q" by (auto simp: below_def)
      then obtain n where n: "map_of t q = Some n" "n \<noteq> DirNode" by (auto simp: files_some)
      have "p \<noteq> q" using p(1) n tree_okD(1) [OF assms(1) n(1)] by (auto simp: in_dir_def)
      with q(2) obtain c r where r: "q = p @ c # r" by (metis append_Nil2 neq_Nil_conv prefix_def)
      then have "p @ [c] = q \<or> map_of t (p @ [c]) = Some DirNode"
        by (intro tree_upper [OF assms(1) n(1)]) simp_all
      with n have "p @ [c] \<in> set ?qs" unfolding mem by auto
      then show "q \<in> below t ?ds" using q(1) r by (force simp: below_def)
    qed
  qed
  moreover have "root_ReadDir p t = (Inr ?ds, t)"
    using p(1) open_dir_iff [OF assms(1), of p] by (simp add: root_ReadDir_def split: option.split)
  ultimately show ?thesis by blast
qed

lemma walkDir_collects:
  assumes "tree_ok (root s)" and "fs_io s = []" and "fs_others s = []" and "walkable (root s) n es"
  shows "\<exists>ks. walkDir pre n es keys s = (Inr (keys @ ks), s) \<and> collects pre (root s) es ks"
  using assms
proof (induction pre n es keys s rule: walkDir.induct)
  case (1 pre n keys s)
  then show ?case by (auto simp: collects_def below_def)
next
  case (2 pre n p es keys s)
  let ?k = "if \<not> isReservedKey (join_path p) \<and> HasPrefix (join_path p) pre then [join_path p] else []"
  have e: "(if \<not> isReservedKey (join_path p) \<and> HasPrefix (join_path p) pre then keys @ [join_path p] else keys) = keys @ ?k"
    by simp
  have f: "files (root s) p \<noteq> None" using 2(5) by (simp add: walkable_def)
  then obtain m where n: "map_of (root s) p = Some m" "m \<noteq> DirNode" by (auto simp: files_some)
  have "below (root s) [(p, False)] = {p}"
  proof -
    have "q = p" if "prefix p q" "files (root s) q \<noteq> None" for q
    proof -
      from that(2) obtain m where "map_of (root s) q = Some m" by (auto simp: files_def split: option.splits)
      from tree_upper [OF 2(2) this that(1)] n tree_okD(1) [OF 2(2) n(1)] show ?thesis by auto
    qed
    with f show ?thesis by (auto simp: below_def)
  qed
  then have c: "collects pre (root s) [(p, False)] ?k" by (auto simp: collects_def)
  from 2(1) [OF 2(2-4) walkable_Cons [OF 2(5)]] obtain ks where
    k: "walkDir pre n es (keys @ ?k) s = (Inr ((keys @ ?k) @ ks), s)" "collects pre (root s) es ks"
    by (simp only: e) blast
  from collects_append [OF 2(2) c k(2) below_disjoint [OF 2(5)]] k(1) show ?case
    by (simp only: walkDir.simps e append_assoc append.simps) blast
next
  case (3 pre p es keys s)
  then show ?case by (simp add: walkable_def)
next
  case (4 pre n p es keys s)
  from ReadDir_entries [OF 4(4) 4(7)] obtain ds where
    ds: "root_ReadDir p (root s) = (Inr ds, root s)" "walkable (root s) n ds" "below (root s) ds = below (root s) [(p, True)]"
    by blast
  have f: "free (root_ReadDir p) s = (Inr ds, s)" using ds(1) 4(5,6) by (simp add: calls)
  from 4(2) [OF f [symmetric] refl 4(4-6) ds(2)] obtain ks where
    k: "walkDir pre n ds keys s = (Inr (keys @ ks), s)" "collects pre (root s) ds ks" by blast
  from 4(3) [OF f [symmetric] refl k(1) [symmetric] refl 4(4-6) walkable_Cons [OF 4(7)]] obtain ks' where
    k': "walkDir pre (Suc n) es (keys @ ks) s = (Inr ((keys @ ks) @ ks'), s)" "collects pre (root s) es ks'" by blast
  have "collects pre (root s) [(p, True)] ks" using k(2) ds(3) by (simp add: collects_def)
  from collects_append [OF 4(4) this k'(2) below_disjoint [OF 4(7)]] f k k' show ?case by simp
qed

lemma sorted_list_unique:
  assumes "distinct xs" and "distinct ys" and "set xs = set ys"
  shows "sort xs = sort (ys :: 'a :: linorder list)"
  using assms by (intro sorted_distinct_set_unique) simp_all

lemma lists_agree:
  assumes "keyspace K" and "same_objects X K s m"
  shows "fs_List None pre s = (fst (mem_List None pre m), s)"
proof -
  have q: "tree_ok (root s)" "shaped K {} (root s)" "fs_io s = []" "fs_others s = []"
    "mem_invar (fx_md5 X) m" "fs_view X s = mem_view m"
    using assms(2) by (simp_all add: same_objects_def quiet_def)
  have "length p < maxDepth" if "map_of (root s) p = Some DirNode" for p
  proof -
    from that q(2) obtain k where k: "k \<in> K" "strict_prefix p (nativeName k)" by (auto simp: shaped_def)
    from prefix_length_less [OF k(2)] k(1) assms(1) show ?thesis by (auto simp: keyspace_def)
  qed
  then have "walkable (root s) maxDepth [([], True)]"
    by (auto simp: walkable_def in_dir_def maxDepth_def)
  from walkDir_collects [OF q(1,3,4) this, of pre "[]"] obtain ks where
    ks: "walkDir pre maxDepth [([], True)] [] s = (Inr ks, s)" "collects pre (root s) [([], True)] ks" by auto
  have key: "k \<in> set ks \<longleftrightarrow> HasPrefix k pre \<and> mem_view m k \<noteq> None" for k
  proof
    assume "k \<in> set ks"
    with ks(2) obtain p where p: "files (root s) p \<noteq> None" "k = join_path p" "HasPrefix k pre"
      by (auto simp: collects_def below_def)
    then obtain l where "l \<in> K" "p = nativeName l" using q(2) by (auto simp: files_some shaped_def)
    with p keyspace_valid [OF assms(1)] valid_names(3) have "fs_view X s k \<noteq> None"
      by (simp add: fs_view_def tree_view_def)
    with p(3) q(6) show "HasPrefix k pre \<and> mem_view m k \<noteq> None" by simp
  next
    assume k: "HasPrefix k pre \<and> mem_view m k \<noteq> None"
    then have v: "validateKey k = None" "files (root s) (nativeName k) \<noteq> None"
      by (simp_all add: fs_view_def tree_view_def q(6) [symmetric] split: if_splits)
    then have "nativeName k \<in> below (root s) [([], True)]" "\<not> isReservedKey k"
      by (auto simp: below_def validateKey_def split: if_splits)
    with ks(2) valid_names(3) [OF v(1)] k show "k \<in> set ks"
      by (force simp: collects_def)
  qed
  have "sort ks = sort (filter (\<lambda>k. HasPrefix k pre) (map fst (objects m)))"
  proof (rule sorted_list_unique)
    show "distinct ks" using ks(2) by (simp add: collects_def)
    show "distinct (filter (\<lambda>k. HasPrefix k pre) (map fst (objects m)))" using q(5) by (simp add: mem_invar_def)
    show "set ks = set (filter (\<lambda>k. HasPrefix k pre) (map fst (objects m)))"
      using key by (auto simp: mem_view_def map_of_eq_None_iff)
  qed
  with ks(1) show ?thesis by (simp add: fs_List_def mem_List_def and_then_def)
qed

lemma same_objects_cong:
  "same_objects X K s m \<Longrightarrow> mem_invar (fx_md5 X) m' \<Longrightarrow> mem_view m' = mem_view m \<Longrightarrow> same_objects X K s m'"
  by (simp add: same_objects_def)

lemma deleteKeys_agree:
  assumes "fs_disk X (=)" and "keyspace K" and "same_objects X K s m" and "set ks \<subseteq> K"
    and "\<And>n. fx_TryLock X None n = (True, None)"
  shows "\<exists>s' m'. deleteKeys X None ks s = (None, s') \<and> same_objects X K s' m' \<and>
    mem_view m' = (\<lambda>k. if k \<in> set ks then None else mem_view m k)"
  using assms(3,4)
proof (induction ks arbitrary: s m)
  case (Cons k ks)
  from deletes_agree [OF assms(1,2) Cons.prems(1) _ assms(5), of k] Cons.prems(2) obtain u where
    u: "fs_Delete X None k s = (None, u)" "same_objects X K u (snd (mem_Delete None k m))" by auto
  from Cons.IH [OF u(2)] Cons.prems(2) obtain s' m' where
    d: "deleteKeys X None ks u = (None, s')" "same_objects X K s' m'"
      "mem_view m' = (\<lambda>l. if l \<in> set ks then None else mem_view (snd (mem_Delete None k m)) l)" by auto
  have "mem_view (snd (mem_Delete None k m)) = (mem_view m)(k := None)"
    by (simp add: mem_Delete_def mem_view_delete)
  with d(3) have "mem_view m' = (\<lambda>l. if l \<in> set (k # ks) then None else mem_view m l)" by auto
  with u d show ?case by (intro exI [of _ s'] exI [of _ m']) simp
qed auto

lemma deletePrefix_agree:
  assumes "fs_disk X (=)" and "keyspace K" and "same_objects X K s m"
    and "\<And>n. fx_TryLock X None n = (True, None)"
  shows "\<exists>s'. fs_DeletePrefix X None pre s = (None, s') \<and> same_objects X K s' (snd (mem_DeletePrefix None pre m))"
proof -
  have q: "shaped K {} (root s)" "mem_invar (fx_md5 X) m" "fs_view X s = mem_view m"
    using assms(3) by (simp_all add: same_objects_def quiet_def)
  define ks where "ks = sort (filter (\<lambda>k. HasPrefix k pre) (map fst (objects m)))"
  have l: "fs_List None pre s = (Inr ks, s)"
    using lists_agree [OF assms(2,3), of pre] by (simp add: mem_List_def ks_def)
  have mem: "k \<in> set ks \<longleftrightarrow> HasPrefix k pre \<and> mem_view m k \<noteq> None" for k
    by (auto simp: ks_def mem_view_def map_of_eq_None_iff)
  have "set ks \<subseteq> K"
  proof
    fix k assume "k \<in> set ks"
    then have "fs_view X s k \<noteq> None" using mem q(3) by simp
    then obtain b where "files (root s) (nativeName k) = Some b"
      by (auto simp: fs_view_def tree_view_def split: if_splits)
    then have "nativeName k \<in> nativeName ` K" using q(1) by (auto simp: files_some shaped_def)
    then show "k \<in> K" by (auto simp: nativeName_inj)
  qed
  from deleteKeys_agree [OF assms(1-3) this assms(4)] obtain s' m' where
    d: "deleteKeys X None ks s = (None, s')" "same_objects X K s' m'"
      "mem_view m' = (\<lambda>k. if k \<in> set ks then None else mem_view m k)" by blast
  have "mem_view (snd (mem_DeletePrefix None pre m)) = mem_view m'"
  proof
    show "mem_view (snd (mem_DeletePrefix None pre m)) k = mem_view m' k" for k
      using fun_cong [OF d(3), of k] mem [of k]
      by (cases "mem_view m k") (simp_all add: mem_DeletePrefix_def mem_view_deletePrefix)
  qed
  with same_objects_cong [OF d(2)] q(2) have "same_objects X K s' (snd (mem_DeletePrefix None pre m))"
    by (simp add: mem_DeletePrefix_def mem_invar_filter)
  with l d(1) show ?thesis by (simp add: fs_DeletePrefix_def)
qed

section \<open>Sequences of operations\<close>

datatype store_op =
    OpGet string | OpGetRange string int int | OpStat string
  | OpPut string bytes PutCondition | OpList string | OpDelete string | OpDeletePrefix string

text \<open>What a caller sees of an operation, the modification time aside.\<close>

datatype answer =
    Got "(body \<times> string) result" | GotRange "body result" | Info "(string \<times> int) result"
  | Written "string result" | Keys "string list result" | Gone "err option"

fun perform :: "'s BlobStore \<Rightarrow> store_op \<Rightarrow> 's \<Rightarrow> answer \<times> 's" where
  "perform S (OpGet k) s = apfst Got (Get S None k s)"
| "perform S (OpGetRange k i j) s = apfst GotRange (GetRange S None k i j s)"
| "perform S (OpStat k) s = apfst (\<lambda>r. Info (map_sum id (\<lambda>x. (ETag x, Size x)) r)) (Stat S None k s)"
| "perform S (OpPut k b c) s = apfst Written (Put S None k (Inr b) c s)"
| "perform S (OpList p) s = apfst Keys (ListKeys S None p s)"
| "perform S (OpDelete k) s = apfst Gone (Delete S None k s)"
| "perform S (OpDeletePrefix p) s = apfst Gone (DeletePrefix S None p s)"

fun run_ops :: "'s BlobStore \<Rightarrow> store_op list \<Rightarrow> 's \<Rightarrow> answer list" where
  "run_ops S [] s = []"
| "run_ops S (x # xs) s = (let (r, t) = perform S x s in r # run_ops S xs t)"

text \<open>Operations on keys of a key space, with ranges that make sense.\<close>

fun op_in :: "string set \<Rightarrow> store_op \<Rightarrow> bool" where
  "op_in K (OpGet k) = (k \<in> K)"
| "op_in K (OpGetRange k i j) = (k \<in> K \<and> 0 \<le> i \<and> i \<le> j + 1)"
| "op_in K (OpStat k) = (k \<in> K)"
| "op_in K (OpPut k b c) = (k \<in> K)"
| "op_in K (OpList p) = True"
| "op_in K (OpDelete k) = (k \<in> K)"
| "op_in K (OpDeletePrefix p) = True"

lemma perform_agree:
  assumes "fs_disk X (=)" and "keyspace K" and "same_objects X K s m" and "op_in K x"
    and "\<And>n. fx_TryLock X None n = (True, None)"
  shows "\<exists>r s' m'. perform (fs_store X) x s = (r, s') \<and> perform (mem_store (fx_md5 X)) x m = (r, m') \<and>
    same_objects X K s' m'"
proof (cases x)
  case (OpPut k b c)
  with puts_agree [OF assms(1-3) _ assms(5), of k b c] assms(4) show ?thesis
    by (auto simp: fs_store_def mem_store_def apfst_def map_prod_def split: prod.splits)
next
  case (OpDelete k)
  with deletes_agree [OF assms(1-3) _ assms(5), of k] assms(4) show ?thesis
    by (auto simp: fs_store_def mem_store_def mem_Delete_def)
next
  case (OpDeletePrefix p)
  with deletePrefix_agree [OF assms(1-3) assms(5), of p] show ?thesis
    by (auto simp: fs_store_def mem_store_def mem_DeletePrefix_def)
next
  case (OpGet k)
  with reads_agree(1) [OF assms(2,3)] assms(3,4) show ?thesis
    by (auto simp: fs_store_def mem_store_def mem_Get_def split: option.splits)
next
  case (OpGetRange k i j)
  with reads_agree(2) [OF assms(2,3)] assms(3,4) show ?thesis
    by (auto simp: fs_store_def mem_store_def mem_GetRange_def Let_def split: option.splits)
next
  case (OpStat k)
  have "snd (mem_Stat None k m) = m" by (simp add: mem_Stat_def split: option.splits)
  with reads_agree(3,4) [OF assms(2,3), of k] assms(3,4) OpStat show ?thesis
    by (cases "fs_Stat X None k s"; cases "mem_Stat None k m") (auto simp: fs_store_def mem_store_def)
next
  case (OpList p)
  with lists_agree [OF assms(2,3)] assms(3) show ?thesis
    by (auto simp: fs_store_def mem_store_def mem_List_def)
qed

lemma run_ops_agree:
  assumes "fs_disk X (=)" and "keyspace K" and "same_objects X K s m" and "\<forall>x \<in> set xs. op_in K x"
    and "\<And>n. fx_TryLock X None n = (True, None)"
  shows "run_ops (fs_store X) xs s = run_ops (mem_store (fx_md5 X)) xs m"
  using assms(3,4)
proof (induction xs arbitrary: s m)
  case (Cons x xs)
  from perform_agree [OF assms(1,2) Cons.prems(1) _ assms(5), of x] Cons.prems(2) obtain r s' m' where
    p: "perform (fs_store X) x s = (r, s')" "perform (mem_store (fx_md5 X)) x m = (r, m')" "same_objects X K s' m'"
    by auto
  from Cons.IH [OF p(3)] Cons.prems(2) p show ?case by simp
qed simp

lemma same_objects_empty:
  assumes "root s = []" and "fs_io s = []" and "fs_others s = []"
  shows "same_objects X K s (NewMemBlobStore t)"
proof -
  have "fs_view X s = mem_view (NewMemBlobStore t)"
    using assms(1) by (simp add: fun_eq_iff fs_view_def tree_view_def files_def mem_view_def NewMemBlobStore_def)
  with assms show ?thesis
    by (simp add: same_objects_def quiet_def shaped_def tree_ok_def mem_invar_new)
qed

section \<open>Properties\<close>

text \<open>
  C26: on a directory of its own, with no failing system call, \<^verbatim>\<open>FileSystemBlobStore\<close> cannot be told
  from \<^verbatim>\<open>MemBlobStore\<close> (modification times aside): from an empty store on, every sequence of
  operations on valid keys of which none is a directory of another returns the same results.
\<close>

theorem fs_equals_mem:
  assumes "fs_disk X (=)" and "\<And>n. fx_TryLock X None n = (True, None)" and "keyspace K"
    and "\<forall>x \<in> set xs. op_in K x" and "root s = []" and "fs_io s = []" and "fs_others s = []"
  shows "run_ops (fs_store X) xs s = run_ops (mem_store (fx_md5 X)) xs (NewMemBlobStore t)"
  by (rule run_ops_agree [OF assms(1,3) same_objects_empty [OF assms(5-7)] assms(4,2)])

definition sample_ops :: "store_op list" where
  "sample_ops = [OpPut ''a/b'' ''1'' NoCondition, OpPut ''a/c'' ''2'' \<lparr>IfMatch = '''', IfNoneMatch = True\<rparr>,
     OpPut ''a/b'' ''3'' \<lparr>IfMatch = ''0'', IfNoneMatch = False\<rparr>, OpList ''a/'', OpDeletePrefix ''a/b'', OpGet ''a/b'']"

theorem fs_equals_mem_witness:
  "run_ops (fs_store sample_fs) sample_ops empty_dir =
     run_ops (mem_store (fx_md5 sample_fs)) sample_ops (NewMemBlobStore 0) \<and>
   run_ops (fs_store sample_fs) sample_ops empty_dir =
     [Written (Inr ''7831''), Written (Inr ''7832''), Written (Inl ErrPreconditionFailed),
      Keys (Inr [''a/b'', ''a/c'']), Gone None, Got (Inl ErrNotFound)]"
proof -
  have k: "keyspace {''a/b'', ''a/c''}"
  proof -
    have "validateKey ''a/b'' = None" "validateKey ''a/c'' = None" by code_simp+
    then show ?thesis by (simp add: keyspace_def nativeName_def maxDepth_def)
  qed
  have "run_ops (fs_store sample_fs) sample_ops empty_dir =
     run_ops (mem_store (fx_md5 sample_fs)) sample_ops (NewMemBlobStore 0)"
    by (rule fs_equals_mem [OF sample_disk.fs_disk_axioms _ k])
      (simp_all add: sample_fs_def sample_ops_def empty_dir_def)
  moreover have "run_ops (mem_store (fx_md5 sample_fs)) sample_ops (NewMemBlobStore 0) =
     [Written (Inr ''7831''), Written (Inr ''7832''), Written (Inl ErrPreconditionFailed),
      Keys (Inr [''a/b'', ''a/c'']), Gone None, Got (Inl ErrNotFound)]" by code_simp
  ultimately show ?thesis by simp
qed

section \<open>Below a file\<close>

lemma SplitByte_middle: "SplitByte (s @ c # r) c = SplitByte s c @ SplitByte r c"
  by (induction s) (auto split: list.splits)

text \<open>A path that leads through a file cannot be followed.\<close>

lemma Lstat_below_file:
  assumes ok: "tree_ok t" and f: "map_of t p = Some (FileNode b m)" and q: "q \<noteq> []"
  shows "root_Lstat (p @ q) t = (Inl ENOTDIR, t)" and "map_of t (p @ q) = None"
proof -
  have stuck: "open_dir t [] (p @ q') = Some ENOTDIR" for q'
  proof (induction q' rule: rev_induct)
    case Nil
    obtain p' c where p: "p = p' @ [c]" using tree_okD(1) [OF ok f] by (metis append_butlast_last_id)
    with tree_okD(3) [OF ok f] have "open_dir t [] p' = None" by (simp add: open_dir_iff [OF ok])
    with f p show ?case by (simp add: open_dir_snoc)
  next
    case (snoc c q')
    then show ?case using open_dir_snoc [of t "[]" "p @ q'" c] by simp
  qed
  have b: "butlast (p @ q) = p @ butlast q" using q by (simp add: butlast_append)
  with stuck show r: "root_Lstat (p @ q) t = (Inl ENOTDIR, t)" by (simp add: root_Lstat_def)
  show "map_of t (p @ q) = None" using Lstat_some [OF ok, of "p @ q"] r by (cases "map_of t (p @ q)") auto
qed

text \<open>
  C29: below a file nothing can be looked up.  In every state of the directory in which the key \<open>k\<close>
  is there, and with no failing system call, \<^verbatim>\<open>Get\<close> and \<^verbatim>\<open>Stat\<close> of every valid key \<open>k/r\<close>, which does
  not exist, return an error of the file system that is not the \<^verbatim>\<open>ErrNotFound\<close> the interface promises
  for a missing key, and \<^verbatim>\<open>Delete\<close> of it returns that error instead of none; no object changes.
\<close>

theorem fs_below_file:
  assumes "tree_ok (root s)" and "fs_io s = []" and "fs_others s = []"
    and "\<And>n. fx_TryLock X None n = (True, None)"
    and "fs_view X s k \<noteq> None" and "validateKey (k @ ''/'' @ r) = None"
  shows "fs_view X s (k @ ''/'' @ r) = None \<and> fs_Get X None (k @ ''/'' @ r) s = (Inl ENOTDIR, s) \<and>
    fs_Stat X None (k @ ''/'' @ r) s = (Inl ENOTDIR, s) \<and> \<not> errors_Is ENOTDIR ErrNotFound \<and>
    (\<exists>s'. fs_Delete X None (k @ ''/'' @ r) s = (Some ENOTDIR, s') \<and> root s' = root s)"
proof -
  from assms(5) obtain b m where "map_of (root s) (nativeName k) = Some (FileNode b m)"
    by (auto simp: fs_view_def tree_view_def files_def split: if_splits option.splits node.splits)
  note L = Lstat_below_file [OF assms(1) this SplitByte_nonempty [of r "CHR ''/''"]]
  have n: "nativeName (k @ ''/'' @ r) = nativeName k @ SplitByte r CHR ''/''"
    by (simp add: nativeName_def SplitByte_middle)
  have e: "\<not> errors_Is ENOTDIR fs_ErrNotExist" "\<not> errors_Is ENOTDIR ErrNotFound" by (simp_all add: fs_errors)
  have o: "openBlob (k @ ''/'' @ r) s = (Inl ENOTDIR, s)"
    using assms(2,3) L(1) e(1) unfolding openBlob_def n by (simp add: root_Open_def calls mapFSErr_def)
  have "fs_Delete X None (k @ ''/'' @ r) s = (Some ENOTDIR, s\<lparr>fs_calls := Suc (fs_calls s)\<rparr>)"
    using assms(2-4,6) L(1) e(1) unfolding fs_Delete_def n
    by (simp add: withLock_def deleteLocked_def calls err_of_def)
  moreover have "fs_view X s (k @ ''/'' @ r) = None"
    using L(2) by (simp only: fs_view_def tree_view_def files_def n) simp
  ultimately show ?thesis using o e(2) assms(6) by (simp add: fs_Get_def fs_Stat_def and_then_def)
qed

definition file_dir :: FileSystemBlobStore where
  "file_dir = empty_dir\<lparr>root := [([''a''], FileNode ''1'' 0)]\<rparr>"

theorem fs_below_file_witness:
  "fst (fs_Get sample_fs None ''a'' file_dir) = Inr (Inr ''1'', ''7831'') \<and>
   fs_Get sample_fs None ''a/b'' file_dir = (Inl ENOTDIR, file_dir) \<and>
   (\<exists>s'. fs_Delete sample_fs None ''a/b'' file_dir = (Some ENOTDIR, s'))"
proof -
  have v: "validateKey ''a'' = None" "validateKey (''a'' @ ''/'' @ ''b'') = None" by code_simp+
  have "tree_ok (root file_dir)"
    by (auto simp: file_dir_def tree_ok_def in_dir_def name_ok_def split: if_splits)
  moreover have "fs_view sample_fs file_dir ''a'' \<noteq> None"
    using v(1) by (simp add: fs_view_def tree_view_def files_def file_dir_def nativeName_def)
  ultimately have "fs_Get sample_fs None (''a'' @ ''/'' @ ''b'') file_dir = (Inl ENOTDIR, file_dir) \<and>
      (\<exists>s'. fs_Delete sample_fs None (''a'' @ ''/'' @ ''b'') file_dir = (Some ENOTDIR, s'))"
    using fs_below_file [of file_dir sample_fs "''a''" "''b''"] v(2)
    by (auto simp: file_dir_def empty_dir_def sample_fs_def)
  moreover have "fst (fs_Get sample_fs None ''a'' file_dir) = Inr (Inr ''1'', ''7831'')" by code_simp
  ultimately show ?thesis by simp
qed

end
