(* ===== verification/Blob_S3.thy ===== *)
theory Blob_S3
  imports Blob_Mem Strconv
begin

text \<open>
  \<^verbatim>\<open>S3BlobStore\<close> (\<^verbatim>\<open>blob_s3.go\<close>).  The client of the AWS SDK and the service behind it are an
  argument: a record of the calls the source makes, over the state of the service.  What the SDK
  and S3 document about them is the locale \<open>s3_service\<close>: quoted ETags, the request headers
  \<^verbatim>\<open>If-Match\<close>, \<^verbatim>\<open>If-None-Match\<close> and \<^verbatim>\<open>Range\<close>, the status codes 404, 409 and 412, and pages of
  keys under a prefix.  From it follows that the store keeps the contract of \<^verbatim>\<open>BlobStore\<close>.
\<close>

section \<open>The client\<close>

text \<open>An error of the SDK: the chain that \<^verbatim>\<open>errors.As\<close> walks, outermost first.\<close>

datatype sdk_cause =
    NoSuchKey
  | NotFoundType
  | ResponseError int
  | OtherCause string

type_synonym sdk_err = "sdk_cause list"

record delete_error =
  de_Key :: "string option"
  de_Code :: "string option"
  de_Message :: "string option"

record head_output =
  head_ETag :: "string option"
  head_ContentLength :: "int option"
  head_LastModified :: "int option"

text \<open>
  Every call takes the context, the bucket and the fields of its input that the source sets; an
  absent field is \<open>None\<close>.  The paginator of \<^verbatim>\<open>ListObjectsV2\<close> is the finite sequence of what
  \<^verbatim>\<open>NextPage\<close> returns.
\<close>

record 's s3_client =
  GetObject :: "ctx \<Rightarrow> string \<Rightarrow> string \<Rightarrow> string option \<Rightarrow> 's \<Rightarrow> (sdk_err + body \<times> string option) \<times> 's"
  HeadObject :: "ctx \<Rightarrow> string \<Rightarrow> string \<Rightarrow> 's \<Rightarrow> (sdk_err + head_output) \<times> 's"
  PutObject :: "ctx \<Rightarrow> string \<Rightarrow> string \<Rightarrow> body \<Rightarrow> string option \<Rightarrow> string option \<Rightarrow> 's \<Rightarrow>
    (sdk_err + string option) \<times> 's"
  ListPages :: "ctx \<Rightarrow> string \<Rightarrow> string \<Rightarrow> 's \<Rightarrow> (sdk_err + string option list) list \<times> 's"
  DeleteObject :: "ctx \<Rightarrow> string \<Rightarrow> string \<Rightarrow> 's \<Rightarrow> sdk_err option \<times> 's"
  DeleteObjects :: "ctx \<Rightarrow> string \<Rightarrow> string list \<Rightarrow> bool \<Rightarrow> 's \<Rightarrow> (sdk_err + delete_error list) \<times> 's"

record 's S3BlobStore =
  s_client :: "'s s3_client"
  s_bucket :: string

definition NewS3BlobStore :: "'s s3_client \<Rightarrow> string \<Rightarrow> 's S3BlobStore" where
  "NewS3BlobStore c b = \<lparr>s_client = c, s_bucket = b\<rparr>"

section \<open>Errors\<close>

text \<open>The first \<^verbatim>\<open>ResponseError\<close> of a chain, which is the one \<^verbatim>\<open>errors.As\<close> finds.\<close>

fun HTTPStatus :: "sdk_err \<Rightarrow> int option" where
  "HTTPStatus [] = None"
| "HTTPStatus (ResponseError n # es) = Some n"
| "HTTPStatus (e # es) = HTTPStatus es"

definition isNotFound :: "sdk_err \<Rightarrow> bool" where
  "isNotFound err = (if NoSuchKey \<in> set err then True
     else if NotFoundType \<in> set err then True
     else HTTPStatus err = Some 404)"

definition isPreconditionFailed :: "sdk_err \<Rightarrow> bool" where
  "isPreconditionFailed err = (if HTTPStatus err = Some 412 then True else HTTPStatus err = Some 409)"

text \<open>An error that is returned as it is; the rest of the program only sees its text.\<close>

fun cause_text :: "sdk_cause \<Rightarrow> string" where
  "cause_text NoSuchKey = ''NoSuchKey: ''"
| "cause_text NotFoundType = ''NotFound: ''"
| "cause_text (ResponseError n) = ''https response error StatusCode: '' @ FormatInt n"
| "cause_text (OtherCause msg) = msg"

definition of_sdk :: "sdk_err \<Rightarrow> err" where
  "of_sdk err = OtherErr (concat (map cause_text err))"

section \<open>Operations\<close>

definition aws_ToString :: "string option \<Rightarrow> string" where
  "aws_ToString x = (case x of None \<Rightarrow> '''' | Some v \<Rightarrow> v)"

definition aws_ToInt64 :: "int option \<Rightarrow> int" where
  "aws_ToInt64 x = (case x of None \<Rightarrow> 0 | Some v \<Rightarrow> v)"

text \<open>The zero value of \<^verbatim>\<open>time.Time\<close>, January 1 of the year 1, in nanoseconds from 1970.\<close>

definition time_zero :: int where
  "time_zero = - 62135596800 * 1000000000"

definition quoted :: "string \<Rightarrow> string" where
  "quoted e = [CHR 0x22] @ e @ [CHR 0x22]"

definition s3_Get :: "'s S3BlobStore \<Rightarrow> ctx \<Rightarrow> string \<Rightarrow> 's \<Rightarrow> (body \<times> string) result \<times> 's" where
  "s3_Get S ctx key s =
     (case GetObject (s_client S) ctx (s_bucket S) key None s of
        (Inl err, t) \<Rightarrow> (Inl (if isNotFound err then ErrNotFound else of_sdk err), t)
      | (Inr (body, etag), t) \<Rightarrow> (Inr (body, Normalize (aws_ToString etag)), t))"

definition rangeHeader :: "int \<Rightarrow> int \<Rightarrow> string" where
  "rangeHeader start end = ''bytes='' @ FormatInt start @ ''-'' @ FormatInt end"

definition s3_GetRange :: "'s S3BlobStore \<Rightarrow> ctx \<Rightarrow> string \<Rightarrow> int \<Rightarrow> int \<Rightarrow> 's \<Rightarrow> body result \<times> 's" where
  "s3_GetRange S ctx key start end s =
     (case GetObject (s_client S) ctx (s_bucket S) key (Some (rangeHeader start end)) s of
        (Inl err, t) \<Rightarrow> (Inl (if isNotFound err then ErrNotFound else of_sdk err), t)
      | (Inr (body, etag), t) \<Rightarrow> (Inr body, t))"

definition s3_Stat :: "'s S3BlobStore \<Rightarrow> ctx \<Rightarrow> string \<Rightarrow> 's \<Rightarrow> BlobInfo result \<times> 's" where
  "s3_Stat S ctx key s =
     (case HeadObject (s_client S) ctx (s_bucket S) key s of
        (Inl err, t) \<Rightarrow> (Inl (if isNotFound err then ErrNotFound else of_sdk err), t)
      | (Inr out, t) \<Rightarrow>
          (Inr \<lparr>ETag = Normalize (aws_ToString (head_ETag out)), Size = aws_ToInt64 (head_ContentLength out),
             LastModified = (case head_LastModified out of None \<Rightarrow> time_zero | Some m \<Rightarrow> m)\<rparr>, t))"

definition s3_Put ::
  "'s S3BlobStore \<Rightarrow> ctx \<Rightarrow> string \<Rightarrow> body \<Rightarrow> PutCondition \<Rightarrow> 's \<Rightarrow> string result \<times> 's" where
  "s3_Put S ctx key body cond s =
     (if IfMatch cond \<noteq> '''' \<and> IfNoneMatch cond then (Inl errBothConditions, s)
      else
        (let ifMatch = (if IfMatch cond \<noteq> '''' then Some (quoted (Normalize (IfMatch cond))) else None);
             ifNoneMatch = (if IfNoneMatch cond then Some ''*'' else None)
         in case PutObject (s_client S) ctx (s_bucket S) key body ifMatch ifNoneMatch s of
              (Inl err, t) \<Rightarrow> (Inl (if isPreconditionFailed err then ErrPreconditionFailed else of_sdk err), t)
            | (Inr etag, t) \<Rightarrow> (Inr (Normalize (aws_ToString etag)), t)))"

fun collectPages :: "(sdk_err + string option list) list \<Rightarrow> string list \<Rightarrow> string list result" where
  "collectPages [] keys = Inr keys"
| "collectPages (Inl err # ps) keys = Inl (of_sdk err)"
| "collectPages (Inr page # ps) keys = collectPages ps (keys @ map aws_ToString page)"

definition s3_List :: "'s S3BlobStore \<Rightarrow> ctx \<Rightarrow> string \<Rightarrow> 's \<Rightarrow> string list result \<times> 's" where
  "s3_List S ctx pre s =
     (case ListPages (s_client S) ctx (s_bucket S) pre s of (ps, t) \<Rightarrow> (collectPages ps [], t))"

definition s3_Delete :: "'s S3BlobStore \<Rightarrow> ctx \<Rightarrow> string \<Rightarrow> 's \<Rightarrow> err option \<times> 's" where
  "s3_Delete S ctx key s =
     (case DeleteObject (s_client S) ctx (s_bucket S) key s of (x, t) \<Rightarrow> (map_option of_sdk x, t))"

definition batchSize :: nat where
  "batchSize = 1000"

text \<open>The slice expression \<^verbatim>\<open>keys[i:j]\<close>, which panics out of range.\<close>

definition slice :: "'a list \<Rightarrow> nat \<Rightarrow> nat \<Rightarrow> 'a list result" where
  "slice xs i j =
     (if i \<le> j \<and> j \<le> length xs then Inr (take (j - i) (drop i xs))
      else Inl (OtherErr ''panic: slice bounds out of range''))"

text \<open>The error of a request that succeeded for some of its keys only.\<close>

definition deleteError :: "delete_error list \<Rightarrow> err option" where
  "deleteError errs =
     (case errs of [] \<Rightarrow> None
      | e # es \<Rightarrow>
          Some (OtherErr (''delete '' @ aws_ToString (de_Key e) @ '': '' @ aws_ToString (de_Code e) @ '': '' @
             aws_ToString (de_Message e) @ '' ('' @ FormatInt (int (length (e # es))) @ '' keys failed)'')))"

text \<open>The loop of \<^verbatim>\<open>DeletePrefix\<close> from the index \<open>i\<close> on.\<close>

function deleteFrom :: "'s S3BlobStore \<Rightarrow> ctx \<Rightarrow> string list \<Rightarrow> nat \<Rightarrow> 's \<Rightarrow> err option \<times> 's" where
  "deleteFrom S ctx keys i s =
     (if \<not> i < length keys then (None, s)
      else
        (let end = i + batchSize;
             end = (if length keys < end then length keys else end)
         in case slice keys i end of
              Inl panic \<Rightarrow> (Some panic, s)
            | Inr objs \<Rightarrow>
                (case DeleteObjects (s_client S) ctx (s_bucket S) objs True s of
                   (Inl err, t) \<Rightarrow> (Some (of_sdk err), t)
                 | (Inr errs, t) \<Rightarrow>
                     (case deleteError errs of
                        Some e \<Rightarrow> (Some e, t)
                      | None \<Rightarrow> deleteFrom S ctx keys (i + batchSize) t))))"
  by pat_completeness auto

termination
  by (relation "measure (\<lambda>(S, ctx, keys, i, s). length keys - i)") (auto simp: batchSize_def)

declare deleteFrom.simps [simp del]

definition s3_DeletePrefix :: "'s S3BlobStore \<Rightarrow> ctx \<Rightarrow> string \<Rightarrow> 's \<Rightarrow> err option \<times> 's" where
  "s3_DeletePrefix S ctx pre s =
     (case s3_List S ctx pre s of
        (Inl e, t) \<Rightarrow> (Some e, t)
      | (Inr keys, t) \<Rightarrow> if length keys = 0 then (None, t) else deleteFrom S ctx keys 0 t)"

definition s3_store :: "'s S3BlobStore \<Rightarrow> 's BlobStore" where
  "s3_store S =
     \<lparr>Get = s3_Get S, GetRange = s3_GetRange S, Stat = s3_Stat S, Put = s3_Put S,
      ListKeys = s3_List S, Delete = s3_Delete S, DeletePrefix = s3_DeletePrefix S\<rparr>"

section \<open>The requests of a bulk removal\<close>

text \<open>A reference for the loop of \<^verbatim>\<open>DeletePrefix\<close>: cut the keys into batches, send one after the other.\<close>

function batches :: "string list \<Rightarrow> string list list" where
  "batches keys = (if keys = [] then [] else take batchSize keys # batches (drop batchSize keys))"
  by pat_completeness auto

termination by (relation "measure length") (auto simp: batchSize_def)

declare batches.simps [simp del]

fun deleteBatches :: "'s S3BlobStore \<Rightarrow> ctx \<Rightarrow> string list list \<Rightarrow> 's \<Rightarrow> err option \<times> 's" where
  "deleteBatches S ctx [] s = (None, s)"
| "deleteBatches S ctx (objs # bs) s =
     (case DeleteObjects (s_client S) ctx (s_bucket S) objs True s of
        (Inl err, t) \<Rightarrow> (Some (of_sdk err), t)
      | (Inr errs, t) \<Rightarrow>
          (case deleteError errs of Some e \<Rightarrow> (Some e, t) | None \<Rightarrow> deleteBatches S ctx bs t))"

lemma deleteError_None [simp]: "deleteError [] = None" "deleteError errs = None \<longleftrightarrow> errs = []"
  by (simp_all add: deleteError_def split: list.splits)

lemma deleteFrom_batches: "deleteFrom S ctx keys i s = deleteBatches S ctx (batches (drop i keys)) s"
proof (induction "length keys - i" arbitrary: i s rule: less_induct)
  case less
  show ?case
  proof (cases "i < length keys")
    case True
    let ?e = "if length keys < i + batchSize then length keys else i + batchSize"
    have "slice keys i ?e = Inr (take batchSize (drop i keys))"
      using True by (auto simp: slice_def)
    moreover have "batches (drop i keys) = take batchSize (drop i keys) # batches (drop (i + batchSize) keys)"
      using True by (subst batches.simps) (simp add: add.commute)
    moreover have "deleteFrom S ctx keys (i + batchSize) t =
        deleteBatches S ctx (batches (drop (i + batchSize) keys)) t" for t
      using True by (intro less) (simp add: batchSize_def)
    ultimately show ?thesis
      using True by (subst deleteFrom.simps) (simp add: Let_def split: prod.splits sum.splits option.splits)
  qed (simp add: deleteFrom.simps batches.simps)
qed

lemma s3_DeletePrefix_batches:
  "s3_DeletePrefix S ctx pre s =
     (case s3_List S ctx pre s of
        (Inl e, t) \<Rightarrow> (Some e, t)
      | (Inr keys, t) \<Rightarrow> deleteBatches S ctx (batches keys) t)"
  by (auto simp: s3_DeletePrefix_def deleteFrom_batches batches.simps [of "[]"] split: prod.splits sum.splits)

lemma concat_batches: "concat (batches keys) = keys"
  by (induction keys rule: batches.induct) (subst batches.simps, simp)

section \<open>What the service promises\<close>

text \<open>The request headers of a conditional write, on the object that is under the key.\<close>

definition headers_ok :: "string option \<Rightarrow> string option \<Rightarrow> (bytes \<times> string) option \<Rightarrow> bool" where
  "headers_ok im inm x \<longleftrightarrow>
     (case im of None \<Rightarrow> True | Some q \<Rightarrow> (\<exists>b e. x = Some (b, e) \<and> q = quoted e)) \<and>
     (case inm of None \<Rightarrow> True | Some p \<Rightarrow> p = ''*'' \<and> x = None)"

locale s3_service =
  fixes S :: "'s S3BlobStore"
    and view :: "'s \<Rightarrow> objs"
    and invar :: "'s \<Rightarrow> bool"
    and env :: "objs \<Rightarrow> objs \<Rightarrow> bool"
  assumes env_refl: "env v v"
    and env_trans: "env u v \<Longrightarrow> env v w \<Longrightarrow> env u w"
    and etag_unique: "invar s \<Longrightarrow> invar t \<Longrightarrow> view s k = Some (b, e) \<Longrightarrow> view t l = Some (b', e) \<Longrightarrow> b = b'"
    and etag_plain: "invar s \<Longrightarrow> view s k = Some (b, e) \<Longrightarrow> e \<noteq> '''' \<and> CHR 0x22 \<notin> set e"
    and GetObject_step: "invar s \<Longrightarrow> GetObject (s_client S) ctx (s_bucket S) k h s = (r, t) \<Longrightarrow>
      invar t \<and> env (view s) (view t)"
    and GetObject_200: "invar s \<Longrightarrow> GetObject (s_client S) ctx (s_bucket S) k None s = (Inr (rd, q), t) \<Longrightarrow>
      \<exists>b e. view t k = Some (b, e) \<and> q = Some (quoted e) \<and> (\<forall>a. rd = Inr a \<longrightarrow> a = b)"
    and GetObject_206: "invar s \<Longrightarrow> 0 \<le> i \<Longrightarrow> i \<le> j \<Longrightarrow>
      GetObject (s_client S) ctx (s_bucket S) k (Some (rangeHeader i j)) s = (Inr (Inr p, q), t) \<Longrightarrow>
      \<exists>b e. view t k = Some (b, e) \<and> i < int (length b) \<and> p = take (nat (j + 1 - i)) (drop (nat i) b)"
    and GetObject_404: "invar s \<Longrightarrow> GetObject (s_client S) ctx (s_bucket S) k h s = (Inl err, t) \<Longrightarrow>
      NoSuchKey \<in> set err \<or> NotFoundType \<in> set err \<or> HTTPStatus err = Some 404 \<Longrightarrow> view t k = None"
    and HeadObject_step: "invar s \<Longrightarrow> HeadObject (s_client S) ctx (s_bucket S) k s = (r', t) \<Longrightarrow>
      invar t \<and> env (view s) (view t)"
    and PutObject_200: "invar s \<Longrightarrow> PutObject (s_client S) ctx (s_bucket S) k rd im inm s = (Inr q, t) \<Longrightarrow>
      invar t \<and> (\<exists>u b e. invar u \<and> env (view s) (view u) \<and> rd = Inr b \<and> headers_ok im inm (view u k) \<and>
        q = Some (quoted e) \<and> view t = (view u)(k \<mapsto> (b, e)))"
    and PutObject_fail: "invar s \<Longrightarrow> PutObject (s_client S) ctx (s_bucket S) k rd im inm s = (Inl err, t) \<Longrightarrow>
      invar t \<and> (\<exists>u. invar u \<and> env (view s) (view u) \<and>
        (view t = view u \<or> HTTPStatus err \<noteq> Some 412 \<and> HTTPStatus err \<noteq> Some 409 \<and>
          (\<exists>b e. rd = Inr b \<and> headers_ok im inm (view u k) \<and> view t = (view u)(k \<mapsto> (b, e)))))"
    and ListPages_step: "invar s \<Longrightarrow> ListPages (s_client S) ctx (s_bucket S) p s = (ps, t) \<Longrightarrow>
      invar t \<and> env (view s) (view t)"
    and ListPages_keys: "invar s \<Longrightarrow> ListPages (s_client S) ctx (s_bucket S) p s = (ps, t) \<Longrightarrow> Inr page \<in> set ps \<Longrightarrow>
      x \<in> set page \<Longrightarrow> \<exists>k. x = Some k \<and> HasPrefix k p"
    and DeleteObject_step: "invar s \<Longrightarrow> DeleteObject (s_client S) ctx (s_bucket S) k s = (d, t) \<Longrightarrow>
      invar t \<and> (\<exists>u. invar u \<and> env (view s) (view u) \<and> (view t = view u \<or> view t = (view u)(k := None)))"
    and DeleteObjects_step: "invar s \<Longrightarrow> DeleteObjects (s_client S) ctx (s_bucket S) ks qt s = (ds, t) \<Longrightarrow>
      invar t \<and> (\<exists>u. env (view s) (view u) \<and> (\<forall>k. view t k = view u k \<or> (k \<in> set ks \<and> view t k = None)))"
begin

lemma etag_Normalize:
  assumes "invar s" and "view s k = Some (b, e)"
  shows "Normalize e = e" and "Normalize (quoted e) = e"
proof -
  have e: "CHR 0x22 \<notin> set e" "e \<noteq> []" using etag_plain [OF assms] by auto
  then show "Normalize e = e" by (intro Normalize_trimmed) (metis hd_in_set last_in_set)
  show "Normalize (quoted e) = e" using e(1) TrimByte_around by (simp add: quoted_def Normalize_def)
qed

text \<open>The headers that \<^verbatim>\<open>Put\<close> sends say what its condition says.\<close>

lemma headers_cond:
  "headers_ok (if IfMatch c \<noteq> '''' then Some (quoted (Normalize (IfMatch c))) else None)
      (if IfNoneMatch c then Some ''*'' else None) x \<longleftrightarrow> cond_ok c x"
  by (auto simp: headers_ok_def cond_ok_def quoted_def)

lemma collectPages_keys:
  "collectPages ps keys = Inr ks \<Longrightarrow> k \<in> set ks \<Longrightarrow>
     k \<in> set keys \<or> (\<exists>page x. Inr page \<in> set ps \<and> x \<in> set page \<and> k = aws_ToString x)"
  by (induction ps keys rule: collectPages.induct) fastforce+

lemma deleteBatches_spec:
  assumes "invar s" and "\<forall>k \<in> set (concat bs). HasPrefix k p" and "deleteBatches S ctx bs s = (d, t)"
  shows "invar t \<and> sweeps env p (view s) (view t)"
  using assms
proof (induction bs arbitrary: s)
  case (Cons objs bs)
  obtain r u where u: "DeleteObjects (s_client S) ctx (s_bucket S) objs True s = (r, u)" by fastforce
  from DeleteObjects_step [OF Cons.prems(1) u] obtain v where v: "invar u" "env (view s) (view v)"
    "\<forall>k. view u k = view v k \<or> (k \<in> set objs \<and> view u k = None)" by blast
  have "sweeps env p (view s) (view v)" using v(2) by (blast intro: sweeps.intros)
  then have w: "sweeps env p (view s) (view u)"
    by (rule sweeps_del) (use v(3) Cons.prems(2) in auto)
  show ?case
  proof (cases "r = Inr []")
    case True
    with Cons.IH [OF v(1)] Cons.prems(2,3) u w show ?thesis by (auto intro: sweeps_trans)
  next
    case False
    with Cons.prems(3) u have "t = u" by (auto split: sum.splits option.splits)
    with v(1) w show ?thesis by simp
  qed
qed (auto intro: sweeps.intros)

lemma s3_cas: "cas_store (s3_store S) view invar env"
proof (unfold_locales, goal_cases)
  case 1 show ?case by (rule env_refl)
next
  case 2 then show ?case by (rule env_trans)
next
  case 3 then show ?case by (rule etag_unique)
next
  case (4 s k b e)
  then show ?case using etag_plain etag_Normalize(1) by blast
next
  case (5 s ctx k r t)
  then show ?case
    by (auto simp: s3_store_def s3_Get_def dest: GetObject_step split: prod.splits sum.splits)
next
  case (6 s ctx k rd e t)
  then obtain q where q: "GetObject (s_client S) ctx (s_bucket S) k None s = (Inr (rd, q), t)" "e = Normalize (aws_ToString q)"
    by (auto simp: s3_store_def s3_Get_def split: prod.splits sum.splits)
  from GetObject_200 [OF 6(1) q(1)] obtain b e' where b: "view t k = Some (b, e')" "q = Some (quoted e')"
    "\<forall>a. rd = Inr a \<longrightarrow> a = b" by blast
  have "invar t" using GetObject_step [OF 6(1) q(1)] by simp
  with etag_Normalize(2) [OF _ b(1)] b q(2) show ?case by (simp add: aws_ToString_def)
next
  case (7 s ctx k x t)
  then obtain err where e: "GetObject (s_client S) ctx (s_bucket S) k None s = (Inl err, t)"
    "x = (if isNotFound err then ErrNotFound else of_sdk err)"
    by (auto simp: s3_store_def s3_Get_def split: prod.splits sum.splits)
  with 7(3) have "isNotFound err" by (auto simp: of_sdk_def split: if_splits)
  with GetObject_404 [OF 7(1) e(1)] show ?case by (auto simp: isNotFound_def split: if_splits)
next
  case (8 s ctx k i j g t)
  then show ?case
    by (auto simp: s3_store_def s3_GetRange_def dest: GetObject_step split: prod.splits sum.splits)
next
  case (9 s ctx k i j p t)
  then obtain q where "GetObject (s_client S) ctx (s_bucket S) k (Some (rangeHeader i j)) s = (Inr (Inr p, q), t)"
    by (auto simp: s3_store_def s3_GetRange_def split: prod.splits sum.splits)
  from GetObject_206 [OF 9(1,3,4) this] show ?case by blast
next
  case (10 s ctx k info t)
  then show ?case
    by (auto simp: s3_store_def s3_Stat_def dest: HeadObject_step split: prod.splits sum.splits)
next
  case (11 s ctx p ks t)
  then show ?case
    by (auto simp: s3_store_def s3_List_def dest: ListPages_step split: prod.splits)
next
  case (12 s ctx k rd c e t)
  let ?im = "if IfMatch c \<noteq> '''' then Some (quoted (Normalize (IfMatch c))) else None"
  let ?inm = "if IfNoneMatch c then Some ''*'' else None"
  from 12 obtain q where q: "PutObject (s_client S) ctx (s_bucket S) k rd ?im ?inm s = (Inr q, t)" "e = Normalize (aws_ToString q)"
    by (auto simp: s3_store_def s3_Put_def Let_def split: prod.splits sum.splits if_splits)
  from PutObject_200 [OF 12(1) q(1)] obtain u b e' where u: "invar t" "invar u" "env (view s) (view u)" "rd = Inr b"
    "cond_ok c (view u k)" "q = Some (quoted e')" "view t = (view u)(k \<mapsto> (b, e'))"
    unfolding headers_cond by blast
  have "e = e'" using etag_Normalize(2) [OF u(1), of k b e'] u(6,7) q(2) by (simp add: aws_ToString_def)
  with u show ?case by blast
next
  case (13 s ctx k rd c x t)
  let ?im = "if IfMatch c \<noteq> '''' then Some (quoted (Normalize (IfMatch c))) else None"
  let ?inm = "if IfNoneMatch c then Some ''*'' else None"
  show ?case
  proof (cases "IfMatch c \<noteq> '''' \<and> IfNoneMatch c")
    case True
    with 13 env_refl show ?thesis by (auto simp: s3_store_def s3_Put_def)
  next
    case False
    with 13(2) obtain err where e: "PutObject (s_client S) ctx (s_bucket S) k rd ?im ?inm s = (Inl err, t)"
      "x = (if isPreconditionFailed err then ErrPreconditionFailed else of_sdk err)"
      by (auto simp: s3_store_def s3_Put_def Let_def split: prod.splits sum.splits if_splits)
    have "HTTPStatus err \<noteq> Some 412 \<and> HTTPStatus err \<noteq> Some 409 \<Longrightarrow> \<not> errors_Is x ErrPreconditionFailed"
      using e(2) by (simp add: isPreconditionFailed_def of_sdk_def)
    with PutObject_fail [OF 13(1) e(1)] show ?thesis unfolding headers_cond by blast
  qed
next
  case (14 s ctx k d t)
  then obtain y where "DeleteObject (s_client S) ctx (s_bucket S) k s = (y, t)"
    by (auto simp: s3_store_def s3_Delete_def split: prod.splits)
  from DeleteObject_step [OF 14(1) this] show ?case .
next
  case (15 s ctx p d t)
  obtain ps u where u: "ListPages (s_client S) ctx (s_bucket S) p s = (ps, u)" by fastforce
  from ListPages_step [OF 15(1) u] have v: "invar u" "env (view s) (view u)" by auto
  then have w: "sweeps env p (view s) (view u)" by (blast intro: sweeps.intros)
  show ?case
  proof (cases "collectPages ps []")
    case (Inr keys)
    have "\<forall>k \<in> set (concat (batches keys)). HasPrefix k p"
      using collectPages_keys [OF Inr] ListPages_keys [OF 15(1) u] by (fastforce simp: concat_batches aws_ToString_def)
    from deleteBatches_spec [OF v(1) this] 15(2) u Inr v w show ?thesis
      by (auto simp: s3_store_def s3_DeletePrefix_batches s3_List_def intro: sweeps_trans split: if_splits)
  qed (use 15(2) u v w in \<open>auto simp: s3_store_def s3_DeletePrefix_batches s3_List_def\<close>)
qed

end

sublocale s3_service \<subseteq> s3: cas_store "s3_store S" view invar env
  by (rule s3_cas)

section \<open>A service of one's own\<close>

text \<open>
  A service that one client uses and that does not fail: what exists is served and listed, a write
  whose headers hold is done and any other answered 412, a removal is done.
\<close>

locale s3_quiet = s3_service S view invar "(=)"
  for S :: "'s S3BlobStore" and view :: "'s \<Rightarrow> objs" and invar :: "'s \<Rightarrow> bool" +
  assumes Get_200: "invar s \<Longrightarrow> view s k = Some (b, e) \<Longrightarrow>
      \<exists>t. GetObject (s_client S) None (s_bucket S) k None s = (Inr (Inr b, Some (quoted e)), t)"
    and Get_206: "invar s \<Longrightarrow> view s k = Some (b, e) \<Longrightarrow> 0 \<le> i \<Longrightarrow> i \<le> j \<Longrightarrow> j < int (length b) \<Longrightarrow>
      \<exists>p q t. GetObject (s_client S) None (s_bucket S) k (Some (rangeHeader i j)) s = (Inr (Inr p, q), t)"
    and Get_404: "invar s \<Longrightarrow> view s k = None \<Longrightarrow>
      \<exists>err t. GetObject (s_client S) None (s_bucket S) k h s = (Inl err, t) \<and> isNotFound err"
    and Head_200: "invar s \<Longrightarrow> view s k = Some (b, e) \<Longrightarrow>
      \<exists>z t. HeadObject (s_client S) None (s_bucket S) k s =
        (Inr \<lparr>head_ETag = Some (quoted e), head_ContentLength = Some (int (length b)), head_LastModified = z\<rparr>, t)"
    and Head_404: "invar s \<Longrightarrow> view s k = None \<Longrightarrow>
      \<exists>err t. HeadObject (s_client S) None (s_bucket S) k s = (Inl err, t) \<and> isNotFound err"
    and Put_200: "invar s \<Longrightarrow> headers_ok im inm (view s k) \<Longrightarrow>
      \<exists>q t. PutObject (s_client S) None (s_bucket S) k (Inr b) im inm s = (Inr q, t)"
    and Put_412: "invar s \<Longrightarrow> \<not> headers_ok im inm (view s k) \<Longrightarrow>
      \<exists>err t. PutObject (s_client S) None (s_bucket S) k (Inr b) im inm s = (Inl err, t) \<and> HTTPStatus err = Some 412"
    and List_200: "invar s \<Longrightarrow>
      \<exists>pages t. ListPages (s_client S) None (s_bucket S) p s = (map (\<lambda>ks. Inr (map Some ks)) pages, t) \<and>
        sorted (concat pages) \<and> distinct (concat pages) \<and> set (concat pages) = {k. HasPrefix k p \<and> view s k \<noteq> None}"
    and Delete_204: "invar s \<Longrightarrow>
      \<exists>t. DeleteObject (s_client S) None (s_bucket S) k s = (None, t) \<and> view t = (view s)(k := None)"
    and Deletes_200: "invar s \<Longrightarrow>
      \<exists>t. DeleteObjects (s_client S) None (s_bucket S) ks True s = (Inr [], t) \<and>
        view t = (\<lambda>k. if k \<in> set ks then None else view s k)"
begin

lemma collect_all: "collectPages (map (\<lambda>ks. Inr (map Some ks)) pages) keys = Inr (keys @ concat pages)"
  by (induction pages arbitrary: keys) (simp_all add: comp_def aws_ToString_def)

lemma s3_List_all:
  assumes "invar s"
  shows "\<exists>ks t. s3_List S None p s = (Inr ks, t) \<and> invar t \<and> view t = view s \<and> sorted ks \<and> distinct ks \<and>
    set ks = {k. HasPrefix k p \<and> view s k \<noteq> None}"
proof -
  from List_200 [OF assms, of p] obtain pages t where
    l: "ListPages (s_client S) None (s_bucket S) p s = (map (\<lambda>ks. Inr (map Some ks)) pages, t)"
    and ks: "sorted (concat pages)" "distinct (concat pages)" "set (concat pages) = {k. HasPrefix k p \<and> view s k \<noteq> None}"
    by blast
  have "s3_List S None p s = (Inr (concat pages), t)" by (simp add: s3_List_def l collect_all)
  moreover have "invar t" "view t = view s" using ListPages_step [OF assms l] by auto
  ultimately show ?thesis using ks by blast
qed

lemma deleteBatches_all:
  "invar s \<Longrightarrow> \<exists>t. deleteBatches S None bs s = (None, t) \<and> invar t \<and>
     view t = (\<lambda>k. if k \<in> set (concat bs) then None else view s k)"
proof (induction bs arbitrary: s)
  case (Cons ks bs)
  from Deletes_200 [OF Cons.prems, of ks] obtain t where
    t: "DeleteObjects (s_client S) None (s_bucket S) ks True s = (Inr [], t)"
      "view t = (\<lambda>k. if k \<in> set ks then None else view s k)" by blast
  from Cons.IH [of t] DeleteObjects_step [OF Cons.prems t(1)] t show ?case by (auto simp: fun_eq_iff)
qed simp

lemma s3_DeletePrefix_all:
  assumes "invar s"
  shows "\<exists>t. s3_DeletePrefix S None p s = (None, t) \<and> view t = (\<lambda>k. if HasPrefix k p then None else view s k)"
proof -
  from s3_List_all [OF assms, of p] obtain ks t where
    l: "s3_List S None p s = (Inr ks, t)" "invar t" "view t = view s" "set ks = {k. HasPrefix k p \<and> view s k \<noteq> None}"
    by blast
  from deleteBatches_all [OF l(2), of "batches ks"] obtain u where
    u: "deleteBatches S None (batches ks) t = (None, u)" "view u = (\<lambda>k. if k \<in> set ks then None else view s k)"
    unfolding l(3) concat_batches by blast
  have v: "(\<lambda>k. if k \<in> set ks then None else view s k) = (\<lambda>k. if HasPrefix k p then None else view s k)"
    unfolding l(4) by (rule ext) (simp del: not_None_eq)
  show ?thesis using l(1) u v by (simp add: s3_DeletePrefix_batches)
qed

lemma s3_Put_condition:
  assumes "\<not> (IfMatch c \<noteq> '''' \<and> IfNoneMatch c)" and "invar s"
  shows "if cond_ok c (view s k) then \<exists>e t. s3_Put S None k (Inr b) c s = (Inr e, t)
    else \<exists>t. s3_Put S None k (Inr b) c s = (Inl ErrPreconditionFailed, t)"
proof -
  let ?im = "if IfMatch c \<noteq> '''' then Some (quoted (Normalize (IfMatch c))) else None"
  let ?inm = "if IfNoneMatch c then Some ''*'' else None"
  obtain r t where r: "PutObject (s_client S) None (s_bucket S) k (Inr b) ?im ?inm s = (r, t)" by fastforce
  show ?thesis
  proof (cases "cond_ok c (view s k)")
    case True
    with Put_200 [OF assms(2), of ?im ?inm k b] headers_cond r obtain q where "r = Inr q" by auto
    with True r assms(1) show ?thesis by (simp add: s3_Put_def Let_def)
  next
    case False
    with Put_412 [OF assms(2), of ?im ?inm k b] headers_cond r obtain err where
      "r = Inl err" "HTTPStatus err = Some 412" by auto
    with False r assms(1) show ?thesis by (simp add: s3_Put_def Let_def isPreconditionFailed_def)
  qed
qed

lemma s3_exclusive: "exclusive_store (s3_store S) view invar"
proof (unfold_locales, goal_cases)
  case (1 s k b e)
  then show ?case using Get_200 [OF 1] etag_Normalize(2) [OF 1] by (auto simp: s3_store_def s3_Get_def aws_ToString_def)
next
  case (2 s k)
  then show ?case using Get_404 [OF 2, of None] by (auto simp: s3_store_def s3_Get_def)
next
  case (3 s k b e i j)
  then show ?case using Get_206 [OF 3] by (auto simp: s3_store_def s3_GetRange_def)
next
  case (4 s c k b)
  then show ?case using s3_Put_condition [OF 4(2,1), of k b] by (simp add: s3_store_def)
next
  case (5 s c k b)
  then show ?case using s3_Put_condition [OF 5(2,1), of k b] by (simp add: s3_store_def)
next
  case (6 s p)
  then show ?case using s3_List_all [of s p] by (auto simp: s3_store_def)
next
  case (7 s k)
  then show ?case using Delete_204 [OF 7, of k] by (auto simp: s3_store_def s3_Delete_def)
next
  case (8 s p)
  then show ?case using s3_DeletePrefix_all [of s p] by (simp add: s3_store_def)
next
  case (9 s k b e)
  then show ?case using Head_200 [OF 9] etag_Normalize(2) [OF 9]
    by (auto simp: s3_store_def s3_Stat_def aws_ToString_def aws_ToInt64_def)
next
  case (10 s k)
  then show ?case using Head_404 [OF 10] by (auto simp: s3_store_def s3_Stat_def)
qed

end

sublocale s3_quiet \<subseteq> s3: exclusive_store "s3_store S" view invar
  by (rule s3_exclusive)

section \<open>An instance\<close>

text \<open>
  A service over the in-memory store, as one reads the documentation: an unreadable range is
  refused, a range past the end is 416, a missing key is 404, a failed precondition 412.
\<close>

definition parse_range :: "string \<Rightarrow> (int \<times> int) option" where
  "parse_range h =
     (case CutByte (TrimPrefix h ''bytes='') CHR ''-'' of
        (a, b, found) \<Rightarrow>
          if found \<and> a \<noteq> [] \<and> b \<noteq> [] \<and> list_all is_digit (a @ b)
          then Some (int (read_nat a), int (read_nat b)) else None)"

definition mem_GetObject ::
  "ctx \<Rightarrow> string \<Rightarrow> string \<Rightarrow> string option \<Rightarrow> MemBlobStore \<Rightarrow> (sdk_err + body \<times> string option) \<times> MemBlobStore" where
  "mem_GetObject ctx bkt key rng s =
     (case mem_Get ctx key s of
        (Inl ErrNotFound, t) \<Rightarrow> (Inl [ResponseError 404, NoSuchKey], t)
      | (Inl e, t) \<Rightarrow> (Inl [OtherCause ''canceled''], t)
      | (Inr (Inr b, e), t) \<Rightarrow>
          (case rng of
             None \<Rightarrow> (Inr (Inr b, Some (quoted e)), t)
           | Some h \<Rightarrow>
               (case parse_range h of
                  None \<Rightarrow> (Inl [ResponseError 400], t)
                | Some (i, j) \<Rightarrow>
                    if int (length b) \<le> i then (Inl [ResponseError 416], t)
                    else (Inr (Inr (take (nat (j + 1 - i)) (drop (nat i) b)), Some (quoted e)), t)))
      | (Inr (Inl x, e), t) \<Rightarrow> (Inr (Inl x, Some (quoted e)), t))"

definition mem_HeadObject :: "ctx \<Rightarrow> string \<Rightarrow> string \<Rightarrow> MemBlobStore \<Rightarrow> (sdk_err + head_output) \<times> MemBlobStore" where
  "mem_HeadObject ctx bkt key s =
     (case mem_Stat ctx key s of
        (Inl e, t) \<Rightarrow> (Inl [NotFoundType], t)
      | (Inr i, t) \<Rightarrow> (Inr \<lparr>head_ETag = Some (quoted (ETag i)), head_ContentLength = Some (Size i),
          head_LastModified = Some (LastModified i)\<rparr>, t))"

definition mem_PutObject ::
  "(bytes \<Rightarrow> bytes) \<Rightarrow> ctx \<Rightarrow> string \<Rightarrow> string \<Rightarrow> body \<Rightarrow> string option \<Rightarrow> string option \<Rightarrow> MemBlobStore \<Rightarrow>
     (sdk_err + string option) \<times> MemBlobStore" where
  "mem_PutObject md5 ctx bkt key body im inm s =
     (let stale = (case im of None \<Rightarrow> False
            | Some q \<Rightarrow> (case mem_view s key of None \<Rightarrow> True | Some (b, e) \<Rightarrow> q \<noteq> quoted e));
          exists = (case inm of None \<Rightarrow> False | Some p \<Rightarrow> p \<noteq> ''*'' \<or> mem_view s key \<noteq> None)
      in if stale \<or> exists then (Inl [ResponseError 412], s)
         else (case mem_Put md5 ctx key body NoCondition s of
                 (Inl e, t) \<Rightarrow> (Inl [OtherCause ''canceled''], t)
               | (Inr e, t) \<Rightarrow> (Inr (Some (quoted e)), t)))"

definition mem_s3 :: "(bytes \<Rightarrow> bytes) \<Rightarrow> MemBlobStore s3_client" where
  "mem_s3 md5 =
     \<lparr>GetObject = mem_GetObject, HeadObject = mem_HeadObject, PutObject = mem_PutObject md5,
      ListPages = (\<lambda>ctx bkt p s. case mem_List ctx p s of
        (Inl e, t) \<Rightarrow> ([Inl [OtherCause ''canceled'']], t)
      | (Inr ks, t) \<Rightarrow> (map (\<lambda>k. Inr [Some k]) ks, t)),
      DeleteObject = (\<lambda>ctx bkt k s. apfst (map_option (\<lambda>e. [OtherCause ''canceled''])) (mem_Delete ctx k s)),
      DeleteObjects = (\<lambda>ctx bkt ks quiet s.
        (Inr [], s\<lparr>objects := filter (\<lambda>(k, e). k \<notin> set ks) (objects s)\<rparr>))\<rparr>"

lemma parse_rangeHeader:
  assumes "0 \<le> i" and "i \<le> j"
  shows "parse_range (rangeHeader i j) = Some (i, j)"
proof -
  have "CHR ''-'' \<notin> set (FormatInt i)"
    using assms(1) show_nat_digits [of "nat i"] by (auto simp: FormatInt_def list_all_iff is_digit_def)
  then have "CutByte (FormatInt i @ CHR ''-'' # FormatInt j) CHR ''-'' = (FormatInt i, FormatInt j, True)"
    by (rule CutByte_append)
  with assms show ?thesis
    by (simp add: parse_range_def rangeHeader_def TrimPrefix_def HasPrefix_def FormatInt_def show_nat_digits)
qed

lemma mem_view_filter:
  "mem_view (s\<lparr>objects := filter (\<lambda>(k, e). k \<notin> A) (objects s)\<rparr>) = (\<lambda>k. if k \<in> A then None else mem_view s k)"
  by (rule ext) (simp add: mem_view_def map_of_filter_key)

lemma mem_PutObject_cases:
  "mem_PutObject md5 ctx bkt k rd im inm s =
     (if headers_ok im inm (mem_view s k)
      then case (ctx, rd) of
          (None, Inr b) \<Rightarrow> (Inr (Some (quoted (Compute md5 b))), s\<lparr>objects := AList.update k
             \<lparr>mem_body = b, mem_etag = Compute md5 b, mem_modTime = clock s\<rparr> (objects s)\<rparr>)
        | _ \<Rightarrow> (Inl [OtherCause ''canceled''], s)
      else (Inl [ResponseError 412], s))"
proof -
  have "headers_ok im inm (mem_view s k) \<longleftrightarrow>
      \<not> ((case im of None \<Rightarrow> False | Some q \<Rightarrow> (case mem_view s k of None \<Rightarrow> True | Some (b, e) \<Rightarrow> q \<noteq> quoted e)) \<or>
         (case inm of None \<Rightarrow> False | Some p \<Rightarrow> p \<noteq> ''*'' \<or> mem_view s k \<noteq> None))"
    by (cases im; cases inm; cases "mem_view s k") (auto simp: headers_ok_def)
  then show ?thesis
    by (cases ctx; cases rd) (simp_all add: mem_PutObject_def mem_Put_cases NoCondition_def cond_ok_def)
qed

context digest
begin

lemma mem_s3_service: "s3_service (NewS3BlobStore (mem_s3 md5) bkt) mem_view (mem_invar md5) (=)"
proof (unfold_locales, goal_cases)
  case 3 then show ?case by (metis mem_view_etag Compute_inj)
next
  case (4 s k b e)
  then have "e = Compute md5 b" by (rule mem_view_etag)
  then show ?case using hex_EncodeToString_no_quote by (simp add: Compute_nonempty) (simp add: Compute_def)
next
  case (7 s i j ctx k p q t)
  then have g: "mem_GetObject ctx bkt k (Some (rangeHeader i j)) s = (Inr (Inr p, q), t)"
    by (simp add: NewS3BlobStore_def mem_s3_def)
  then obtain e where e: "map_of (objects s) k = Some e" "ctx = None"
    by (cases ctx; cases "map_of (objects s) k") (simp_all add: mem_GetObject_def mem_Get_def)
  with parse_rangeHeader [OF 7(2,3)] g e show ?case
    by (auto simp: mem_GetObject_def mem_Get_def mem_view_def split: if_splits)
next
  case (10 s ctx k rd im inm q t)
  then have "mem_PutObject md5 ctx bkt k rd im inm s = (Inr q, t)" by (simp add: NewS3BlobStore_def mem_s3_def)
  then obtain b where b: "headers_ok im inm (mem_view s k)" "rd = Inr b" "q = Some (quoted (Compute md5 b))"
    "t = s\<lparr>objects := AList.update k \<lparr>mem_body = b, mem_etag = Compute md5 b, mem_modTime = clock s\<rparr> (objects s)\<rparr>"
    by (cases ctx; cases rd) (auto simp: mem_PutObject_cases split: if_splits)
  then have "mem_view t = (mem_view s)(k \<mapsto> (b, Compute md5 b))" "mem_invar md5 t"
    using 10(1) by (simp_all add: mem_view_update mem_invar_update)
  with b 10(1) show ?case by blast
next
  case (11 s ctx k rd im inm err t)
  then have "mem_PutObject md5 ctx bkt k rd im inm s = (Inl err, t)" by (simp add: NewS3BlobStore_def mem_s3_def)
  then have "t = s" by (cases ctx; cases rd) (auto simp: mem_PutObject_cases split: if_splits)
  with 11(1) show ?case by blast
next
  case (15 s ctx ks qt ds t)
  then show ?case
    by (auto simp: NewS3BlobStore_def mem_s3_def mem_view_filter intro: mem_invar_filter split: if_splits)
qed (auto simp: NewS3BlobStore_def mem_s3_def mem_GetObject_def mem_HeadObject_def mem_Get_def mem_Stat_def mem_List_def
    mem_Delete_def mem_view_def mem_view_delete mem_invar_delete isNotFound_def
    split: option.splits if_splits)

end

lemma mem_pages: "map (\<lambda>k. Inr [Some k]) ks = map (\<lambda>l. Inr (map Some l)) (map (\<lambda>k. [k]) ks)"
  by simp

lemma concat_singletons: "concat (map (\<lambda>k. [k]) ks) = ks"
  by (induction ks) simp_all

context digest
begin

lemma mem_s3_quiet: "s3_quiet (NewS3BlobStore (mem_s3 md5) bkt) mem_view (mem_invar md5)"
proof (intro s3_quiet.intro [OF mem_s3_service] s3_quiet_axioms.intro, goal_cases)
  case (2 s k b e i j)
  then show ?case using parse_rangeHeader [of i j]
    by (auto simp: NewS3BlobStore_def mem_s3_def mem_GetObject_def mem_Get_def mem_view_def)
next
  case (6 s im inm k b)
  then show ?case by (simp add: NewS3BlobStore_def mem_s3_def mem_PutObject_cases)
next
  case (7 s im inm k b)
  then show ?case by (simp add: NewS3BlobStore_def mem_s3_def mem_PutObject_cases)
next
  case (8 s p)
  let ?ks = "sort (filter (\<lambda>k. HasPrefix k p) (map fst (objects s)))"
  have "set ?ks = {k. HasPrefix k p \<and> mem_view s k \<noteq> None}"
    by (auto simp: mem_view_def map_of_eq_None_iff)
  then show ?case using 8
    by (intro exI [of _ "map (\<lambda>k. [k]) ?ks"] exI [of _ s])
      (simp add: NewS3BlobStore_def mem_s3_def mem_List_def concat_singletons mem_invar_def comp_def)
qed (auto simp: NewS3BlobStore_def mem_s3_def mem_GetObject_def mem_HeadObject_def mem_Get_def mem_Stat_def
    mem_Delete_def mem_view_def mem_view_delete mem_view_filter isNotFound_def map_of_filter_key)

end

sublocale digest \<subseteq> mem_s3: s3_quiet "NewS3BlobStore (mem_s3 md5) ''bucket''" mem_view "mem_invar md5"
  by (rule mem_s3_quiet)

lemma batches_sizes: "b \<in> set (batches keys) \<Longrightarrow> 0 < length b \<and> length b \<le> batchSize"
proof (induction keys rule: batches.induct)
  case (1 keys)
  then show ?case by (cases "keys = []") (auto simp: batches.simps [of keys] batches.simps [of "[]"] batchSize_def)
qed

lemma batches_count: "length (batches keys) = (length keys + (batchSize - 1)) div batchSize"
proof (induction keys rule: batches.induct)
  case (1 keys)
  show ?case
  proof (cases "keys = []")
    case False
    show ?thesis
    proof (cases "length keys \<le> batchSize")
      case True
      with 1 False have "length (batches keys) = 1" by (subst batches.simps) (simp add: batchSize_def)
      moreover have "(length keys + (batchSize - 1)) div batchSize = 1"
        using True False by (intro div_nat_eqI) (auto simp: batchSize_def Suc_le_eq)
      ultimately show ?thesis by simp
    next
      case l: False
      have "length (batches keys) = Suc ((length keys - batchSize + (batchSize - 1)) div batchSize)"
        using 1 False by (subst batches.simps) simp
      also have "\<dots> = (length keys - batchSize + (batchSize - 1) + batchSize) div batchSize"
        by (simp add: batchSize_def)
      also have "length keys - batchSize + (batchSize - 1) + batchSize = length keys + (batchSize - 1)"
        using l by simp
      finally show ?thesis .
    qed
  qed (simp add: batches.simps batchSize_def)
qed

section \<open>Properties\<close>

text \<open>
  C30: \<^verbatim>\<open>S3BlobStore\<close> keeps the contract of \<^verbatim>\<open>BlobStore\<close> on every service that behaves as S3 and the
  SDK document it: the headers it sends say what the condition says, the status codes it reads are
  mapped to the right sentinels, and nothing but keys under the prefix is removed by the batches.
\<close>

theorem s3_contract:
  assumes "s3_service S view invar env"
  shows "cas_store (s3_store S) view invar env"
  using assms by (rule s3_service.s3_cas)

theorem s3_contract_witness:
  "cas_store (s3_store (NewS3BlobStore (mem_s3 (\<lambda>b. CHR ''x'' # b)) ''bucket'')) mem_view
     (mem_invar (\<lambda>b. CHR ''x'' # b)) (=)"
proof (rule s3_contract)
  have "digest (\<lambda>b. CHR ''x'' # b)" by unfold_locales simp_all
  then show "s3_service (NewS3BlobStore (mem_s3 (\<lambda>b. CHR ''x'' # b)) ''bucket'') mem_view
     (mem_invar (\<lambda>b. CHR ''x'' # b)) (=)" by (rule digest.mem_s3_service)
qed

text \<open>The requests \<open>bs\<close> are sent one after the other, and each succeeds for all its keys.\<close>

inductive sent :: "'s S3BlobStore \<Rightarrow> ctx \<Rightarrow> string list list \<Rightarrow> 's \<Rightarrow> 's \<Rightarrow> bool" for S ctx where
  sent_none: "sent S ctx [] s s"
| sent_one: "DeleteObjects (s_client S) ctx (s_bucket S) b True s = (Inr [], t) \<Longrightarrow> sent S ctx bs t u \<Longrightarrow>
    sent S ctx (b # bs) s u"

lemma deleteBatches_sent:
  "deleteBatches S ctx bs s = (r, u) \<Longrightarrow>
     (r = None \<and> sent S ctx bs s u) \<or>
     (\<exists>bs' b rest v x. bs = bs' @ b # rest \<and> sent S ctx bs' s v \<and> r \<noteq> None \<and>
        DeleteObjects (s_client S) ctx (s_bucket S) b True v = (x, u) \<and> x \<noteq> Inr [])"
proof (induction bs arbitrary: s)
  case (Cons c bs)
  obtain x t where x: "DeleteObjects (s_client S) ctx (s_bucket S) c True s = (x, t)" by fastforce
  show ?case
  proof (cases "x = Inr []")
    case True
    with Cons.prems x have "deleteBatches S ctx bs t = (r, u)" by simp
    from Cons.IH [OF this] show ?thesis
    proof
      assume "r = None \<and> sent S ctx bs t u"
      then show ?thesis using x True by (auto intro: sent_one)
    next
      assume "\<exists>bs' b rest v x. bs = bs' @ b # rest \<and> sent S ctx bs' t v \<and> r \<noteq> None \<and>
        DeleteObjects (s_client S) ctx (s_bucket S) b True v = (x, u) \<and> x \<noteq> Inr []"
      then obtain bs' b rest v y where "bs = bs' @ b # rest" "sent S ctx bs' t v" "r \<noteq> None"
        "DeleteObjects (s_client S) ctx (s_bucket S) b True v = (y, u)" "y \<noteq> Inr []" by blast
      moreover from this(2) x True have "sent S ctx (c # bs') s v" by (auto intro: sent_one)
      ultimately show ?thesis by (metis append_Cons)
    qed
  next
    case False
    have "r \<noteq> None \<and> u = t"
    proof (cases x)
      case (Inr errs)
      with False obtain e where "deleteError errs = Some e" by (cases "deleteError errs") simp_all
      with Cons.prems x Inr show ?thesis by simp (metis option.discI)
    qed (use Cons.prems x in auto)
    then show ?thesis
      using x False sent_none [of S ctx s]
      by (intro disjI2, intro exI [of _ "[] :: string list list"] exI [of _ c] exI [of _ bs] exI [of _ s] exI [of _ x]) simp
  qed
qed (simp add: sent_none)

text \<open>
  C31: the requests of \<^verbatim>\<open>DeletePrefix\<close>.  If the listing fails, its error is returned and nothing is
  sent.  Otherwise the listed keys are cut, in order and each position once, into as few batches as
  the limit of 1000 keys allows, none of them empty and none over the limit, and \<^verbatim>\<open>DeleteObjects\<close> is
  called for one after the other: for all of them, when no error is returned, and up to and including
  the first that fails, as a request or for one of its keys, when an error is returned.
\<close>

theorem delete_prefix_requests:
  assumes "s3_DeletePrefix S ctx pre s = (r, u)"
  shows "case s3_List S ctx pre s of
      (Inl e, t) \<Rightarrow> r = Some e \<and> u = t
    | (Inr keys, t) \<Rightarrow>
        (\<exists>bs rest. concat (bs @ rest) = keys \<and> list_all (\<lambda>b. 0 < length b \<and> length b \<le> 1000) (bs @ rest) \<and>
           length (bs @ rest) = (length keys + 999) div 1000 \<and>
           (case rest of
              [] \<Rightarrow> r = None \<and> sent S ctx bs t u
            | b # _ \<Rightarrow> r \<noteq> None \<and>
                (\<exists>v x. sent S ctx bs t v \<and> x \<noteq> Inr [] \<and>
                   DeleteObjects (s_client S) ctx (s_bucket S) b True v = (x, u))))"
proof -
  obtain l t where l: "s3_List S ctx pre s = (l, t)" by fastforce
  show ?thesis
  proof (cases l)
    case (Inl e)
    with l assms show ?thesis by (simp add: s3_DeletePrefix_batches)
  next
    case (Inr keys)
    with l assms have d: "deleteBatches S ctx (batches keys) t = (r, u)" by (simp add: s3_DeletePrefix_batches)
    have b: "concat (batches keys) = keys" "list_all (\<lambda>b. 0 < length b \<and> length b \<le> 1000) (batches keys)"
      "length (batches keys) = (length keys + 999) div 1000"
      using concat_batches [of keys] batches_sizes [of _ keys] batches_count [of keys]
      by (simp_all add: batchSize_def list_all_iff)
    from deleteBatches_sent [OF d] show ?thesis
    proof
      assume "r = None \<and> sent S ctx (batches keys) t u"
      with b l Inr show ?thesis by simp (rule exI [of _ "batches keys"], rule exI [of _ "[]"], simp)
    next
      assume "\<exists>bs' b rest v x. batches keys = bs' @ b # rest \<and> sent S ctx bs' t v \<and> r \<noteq> None \<and>
        DeleteObjects (s_client S) ctx (s_bucket S) b True v = (x, u) \<and> x \<noteq> Inr []"
      then obtain bs' c rest v x where c: "batches keys = bs' @ c # rest" "sent S ctx bs' t v" "r \<noteq> None"
        "DeleteObjects (s_client S) ctx (s_bucket S) c True v = (x, u)" "x \<noteq> Inr []" by blast
      with b l Inr show ?thesis by simp (rule exI [of _ bs'], rule exI [of _ "c # rest"], simp, blast)
    qed
  qed
qed

definition two_keys :: MemBlobStore where
  "two_keys = (NewMemBlobStore 0)\<lparr>objects :=
     [(''p/a'', \<lparr>mem_body = ''1'', mem_etag = ''e'', mem_modTime = 0\<rparr>),
      (''p/b'', \<lparr>mem_body = ''2'', mem_etag = ''f'', mem_modTime = 0\<rparr>)]\<rparr>"

theorem delete_prefix_requests_witness:
  "\<exists>r u bs. s3_DeletePrefix (NewS3BlobStore (mem_s3 (\<lambda>b. CHR ''x'' # b)) ''bucket'') None ''p/'' two_keys = (r, u) \<and>
     r = None \<and> objects u = [] \<and> concat bs = [''p/a'', ''p/b''] \<and> length bs = 1 \<and>
     sent (NewS3BlobStore (mem_s3 (\<lambda>b. CHR ''x'' # b)) ''bucket'') None bs two_keys u"
proof -
  let ?S = "NewS3BlobStore (mem_s3 (\<lambda>b. CHR ''x'' # b)) ''bucket''"
  have l: "s3_List ?S None ''p/'' two_keys = (Inr [''p/a'', ''p/b''], two_keys)"
    by (simp add: s3_List_def NewS3BlobStore_def mem_s3_def mem_List_def two_keys_def NewMemBlobStore_def HasPrefix_def
        aws_ToString_def)
  have d: "s3_DeletePrefix ?S None ''p/'' two_keys = (None, two_keys\<lparr>objects := []\<rparr>)"
    by (simp add: s3_DeletePrefix_batches l batches.simps batchSize_def)
      (simp add: NewS3BlobStore_def mem_s3_def two_keys_def)
  from delete_prefix_requests [OF d] obtain bs rest where
    b: "concat (bs @ rest) = [''p/a'', ''p/b'']" "length (bs @ rest) = 1"
      "case rest of [] \<Rightarrow> (None :: err option) = None \<and> sent ?S None bs two_keys (two_keys\<lparr>objects := []\<rparr>)
       | b # _ \<Rightarrow> False"
    by (auto simp: l cong: list.case_cong)
  then have "rest = []" "sent ?S None bs two_keys (two_keys\<lparr>objects := []\<rparr>)" by (cases rest; simp)+
  with b(1,2) d show ?thesis by (intro exI [of _ None] exI [of _ "two_keys\<lparr>objects := []\<rparr>"] exI [of _ bs]) simp
qed



end
