(* ===== verification/Cli.thy ===== *)
theory Cli
  imports Database Pullpush Blob_S3 Fs_Tree
begin

text \<open>
  The command line tool (\<^verbatim>\<open>cmd/s3db/main.go\<close>): the parsing of Go's \<^verbatim>\<open>flag\<close> package as far as the
  tool uses it, the targets, the six commands over the operations of the library, and the texts
  they print.  The environment variables, the constructor of the AWS client, \<^verbatim>\<open>time.ParseDuration\<close>,
  the clock, the order in which Go ranges over a map and the names of temporary files are
  arguments.
\<close>

section \<open>Numbers and texts\<close>

text \<open>\<^verbatim>\<open>strconv.ParseBool\<close>.\<close>

definition ParseBool :: "string \<Rightarrow> bool result" where
  "ParseBool s =
     (if s \<in> set [''1'', ''t'', ''T'', ''TRUE'', ''true'', ''True''] then Inr True
      else if s \<in> set [''0'', ''f'', ''F'', ''FALSE'', ''false'', ''False''] then Inr False
      else Inl (OtherErr ''parse error''))"

text \<open>
  \<^verbatim>\<open>strconv.ParseInt(s, 0, 64)\<close>: a base prefix, and underscores between digits.
\<close>

definition digit_of :: "char \<Rightarrow> nat option" where
  "digit_of c =
     (let n = of_char (lower_char c) :: nat
      in if 48 \<le> n \<and> n \<le> 57 then Some (n - 48)
         else if 97 \<le> n \<and> n \<le> 122 then Some (n - 97 + 10) else None)"

fun read_base :: "nat \<Rightarrow> string \<Rightarrow> nat \<Rightarrow> nat option" where
  "read_base base [] n = Some n"
| "read_base base (c # cs) n =
     (if c = CHR ''_'' then read_base base cs n
      else case digit_of c of
             None \<Rightarrow> None
           | Some d \<Rightarrow> if base \<le> d then None else read_base base cs (n * base + d))"

fun underscores_ok :: "bool \<Rightarrow> char \<Rightarrow> string \<Rightarrow> bool" where
  "underscores_ok hex saw [] = (saw \<noteq> CHR ''_'')"
| "underscores_ok hex saw (c # cs) =
     (if is_digit c \<or> (hex \<and> (case digit_of c of None \<Rightarrow> False | Some d \<Rightarrow> 10 \<le> d \<and> d \<le> 15))
      then underscores_ok hex CHR ''0'' cs
      else if c = CHR ''_'' then saw = CHR ''0'' \<and> underscores_ok hex CHR ''_'' cs
      else saw \<noteq> CHR ''_'' \<and> underscores_ok hex CHR ''!'' cs)"

definition base_prefix :: "string \<Rightarrow> char option" where
  "base_prefix s =
     (case s of
        z # c # cs \<Rightarrow>
          if z = CHR ''0'' \<and> lower_char c \<in> set ''box'' then Some (lower_char c) else None
      | _ \<Rightarrow> None)"

definition ParseUint0 :: "string \<Rightarrow> nat option" where
  "ParseUint0 s =
     (if s = [] then None
      else
        let bp = (if 3 \<le> length s then base_prefix s else None);
            (base, ds) = (case bp of
                Some c \<Rightarrow> (if c = CHR ''b'' then 2 else if c = CHR ''o'' then 8 else 16, drop 2 s)
              | None \<Rightarrow> if hd s = CHR ''0'' then (8, tl s) else (10, s));
            up = base_prefix s
        in if CHR ''_'' \<in> set ds \<and>
              \<not> (case up of None \<Rightarrow> underscores_ok False CHR ''^'' s
                 | Some c \<Rightarrow> underscores_ok (c = CHR ''x'') CHR ''0'' (drop 2 s))
           then None else read_base base ds 0)"

definition ParseInt0 :: "string \<Rightarrow> int result" where
  "ParseInt0 s =
     (let neg = (s \<noteq> [] \<and> hd s = CHR ''-'');
          u = (if s \<noteq> [] \<and> (hd s = CHR ''-'' \<or> hd s = CHR ''+'') then tl s else s)
      in case ParseUint0 u of
           None \<Rightarrow> Inl (OtherErr ''parse error'')
         | Some n \<Rightarrow>
             let v = (if neg then - int n else int n)
             in if is_int64 v then Inr v else Inl (OtherErr ''value out of range''))"

text \<open>\<^verbatim>\<open>strings.TrimSpace\<close>, with the white space of Unicode in UTF-8.\<close>

definition space_runes :: "string list" where
  "space_runes =
     map (\<lambda>n. [char_of (n :: nat)]) [9, 10, 11, 12, 13, 32] @
     [[CHR 0xC2, CHR 0x85], [CHR 0xC2, CHR 0xA0], [CHR 0xE1, CHR 0x9A, CHR 0x80]] @
     map (\<lambda>n. [CHR 0xE2, CHR 0x80, char_of (n :: nat)])
       [128, 129, 130, 131, 132, 133, 134, 135, 136, 137, 138, 168, 169, 175] @
     [[CHR 0xE2, CHR 0x81, CHR 0x9F], [CHR 0xE3, CHR 0x80, CHR 0x80]]"

fun trim_left :: "nat \<Rightarrow> string \<Rightarrow> string" where
  "trim_left 0 s = s"
| "trim_left (Suc n) s =
     (case find (\<lambda>r. HasPrefix s r) space_runes of
        None \<Rightarrow> s
      | Some r \<Rightarrow> trim_left n (drop (length r) s))"

fun trim_right :: "nat \<Rightarrow> string \<Rightarrow> string" where
  "trim_right 0 s = s"
| "trim_right (Suc n) s =
     (case find (\<lambda>r. HasSuffix s r) space_runes of
        None \<Rightarrow> s
      | Some r \<Rightarrow> trim_right n (take (length s - length r) s))"

definition TrimSpace :: "string \<Rightarrow> string" where
  "TrimSpace s = (let t = trim_left (length s) s in trim_right (length t) t)"

section \<open>Flags\<close>

text \<open>
  A flag set: the names with their values, at first the defaults; the constructor is the type.
\<close>

datatype flag_value = StringVal string | BoolVal bool | Int64Val int | DurationVal int

type_synonym flags = "(string \<times> flag_value) list"

definition set_flag :: "(string \<Rightarrow> int result) \<Rightarrow> flag_value \<Rightarrow> string \<Rightarrow> flag_value result" where
  "set_flag parseDuration old v =
     (case old of
        StringVal _ \<Rightarrow> Inr (StringVal v)
      | BoolVal _ \<Rightarrow> map_sum id BoolVal (ParseBool v)
      | Int64Val _ \<Rightarrow> map_sum id Int64Val (ParseInt0 v)
      | DurationVal _ \<Rightarrow> map_sum id DurationVal (parseDuration v))"

text \<open>
  \<^verbatim>\<open>FlagSet.Parse\<close> with \<^verbatim>\<open>ExitOnError\<close>: it stops at the first argument that is not a flag, and a
  mistake ends the program with the given status.
\<close>

fun Parse :: "(string \<Rightarrow> int result) \<Rightarrow> flags \<Rightarrow> string list \<Rightarrow> int + flags \<times> string list" where
  "Parse pd fl [] = Inr (fl, [])"
| "Parse pd fl (s # args) =
     (if length s < 2 \<or> hd s \<noteq> CHR ''-'' then Inr (fl, s # args)
      else if s = ''--'' then Inr (fl, args)
      else
        let body = (if s ! 1 = CHR ''-'' then drop 2 s else drop 1 s)
        in if body = [] \<or> hd body = CHR ''-'' \<or> hd body = CHR ''='' then Inl 2
           else case CutByte body CHR ''='' of
               (name, val, hasValue) \<Rightarrow>
                 (case map_of fl name of
                    None \<Rightarrow> Inl (if name = ''help'' \<or> name = ''h'' then 0 else 2)
                  | Some (BoolVal b) \<Rightarrow>
                      (case set_flag pd (BoolVal b) (if hasValue then val else ''true'') of
                         Inl e \<Rightarrow> Inl 2
                       | Inr x \<Rightarrow> Parse pd (AList.update name x fl) args)
                  | Some old \<Rightarrow>
                      if hasValue
                      then (case set_flag pd old val of
                              Inl e \<Rightarrow> Inl 2
                            | Inr x \<Rightarrow> Parse pd (AList.update name x fl) args)
                      else (case args of
                              [] \<Rightarrow> Inl 2
                            | v # args' \<Rightarrow>
                                (case set_flag pd old v of
                                   Inl e \<Rightarrow> Inl 2
                                 | Inr x \<Rightarrow> Parse pd (AList.update name x fl) args'))))"

definition string_flag :: "flags \<Rightarrow> string \<Rightarrow> string" where
  "string_flag fl name = (case map_of fl name of Some (StringVal s) \<Rightarrow> s | _ \<Rightarrow> '''')"

definition bool_flag :: "flags \<Rightarrow> string \<Rightarrow> bool" where
  "bool_flag fl name = (map_of fl name = Some (BoolVal True))"

definition int_flag :: "flags \<Rightarrow> string \<Rightarrow> int" where
  "int_flag fl name = (case map_of fl name of Some (Int64Val n) \<Rightarrow> n | Some (DurationVal n) \<Rightarrow> n | _ \<Rightarrow> 0)"

section \<open>Targets\<close>

record target =
  tgt_bucket :: string
  tgt_prefix :: string

definition with_slash :: "string \<Rightarrow> string" where
  "with_slash p = (if \<not> HasSuffix p ''/'' then p @ ''/'' else p)"

definition parseS3URL :: "string \<Rightarrow> (string \<times> string) result" where
  "parseS3URL u =
     (if \<not> HasPrefix u ''s3://'' then Inl (OtherErr ''not an s3:// URL'')
      else case CutByte (TrimPrefix u ''s3://'') CHR ''/'' of
          (b, p, _) \<Rightarrow>
            if b = '''' then Inl (OtherErr ''s3:// URL missing bucket'')
            else if p = '''' then Inl (OtherErr ''s3:// URL missing prefix'')
            else Inr (b, with_slash p))"

definition parseTarget :: "flags \<times> string list \<Rightarrow> target result" where
  "parseTarget fs =
     (case fs of
        (fl, arg # _) \<Rightarrow>
          if HasPrefix arg ''s3://''
          then (case parseS3URL arg of
                  Inl e \<Rightarrow> Inl e
                | Inr (b, p) \<Rightarrow> Inr \<lparr>tgt_bucket = b, tgt_prefix = p\<rparr>)
          else Inl (OtherErr ''unexpected positional argument'')
      | (fl, []) \<Rightarrow>
          if string_flag fl ''bucket'' = '''' \<or> string_flag fl ''prefix'' = ''''
          then Inl (OtherErr ''missing target: provide s3://bucket/prefix/ or -bucket + -prefix'')
          else Inr \<lparr>tgt_bucket = string_flag fl ''bucket'', tgt_prefix = with_slash (string_flag fl ''prefix'')\<rparr>)"

definition target_String :: "target \<Rightarrow> string" where
  "target_String t = ''s3://'' @ tgt_bucket t @ ''/'' @ tgt_prefix t"

section \<open>Sizes\<close>

text \<open>
  \<^verbatim>\<open>float64(n)\<close> of a non-negative integer: 53 bits, rounded to the nearest, ties to even.  The
  divisions of \<^verbatim>\<open>formatBytes\<close> by a power of two are exact, and \<^verbatim>\<open>%.1f\<close> rounds the exact quotient in
  the same way.
\<close>

definition round_even :: "int \<Rightarrow> int \<Rightarrow> int" where
  "round_even a b =
     (let q = a div b; r = a mod b
      in if 2 * r < b \<or> (2 * r = b \<and> even q) then q else q + 1)"

fun excess_bits :: "int \<Rightarrow> nat" where
  "excess_bits n = (if n < 2 ^ 53 then 0 else Suc (excess_bits (n div 2)))"

declare excess_bits.simps [simp del]

definition float64_of :: "int \<Rightarrow> int" where
  "float64_of n = (let u = 2 ^ excess_bits n in round_even n u * u)"

definition tenths :: "int \<Rightarrow> int \<Rightarrow> int" where
  "tenths n u = round_even (10 * float64_of n) u"

definition format_f1 :: "int \<Rightarrow> int \<Rightarrow> string" where
  "format_f1 n u = FormatInt (tenths n u div 10) @ ''.'' @ FormatInt (tenths n u mod 10)"

definition formatBytes :: "int \<Rightarrow> string" where
  "formatBytes n =
     (if n = 0 then ''unknown''
      else if 2 ^ 30 \<le> n then format_f1 n (2 ^ 30) @ '' GiB''
      else if 2 ^ 20 \<le> n then format_f1 n (2 ^ 20) @ '' MiB''
      else if 2 ^ 10 \<le> n then format_f1 n (2 ^ 10) @ '' KiB''
      else FormatInt n @ '' B'')"

section \<open>The process\<close>

text \<open>The fields of \<^verbatim>\<open>s3.Options\<close> that \<^verbatim>\<open>newStore\<close> sets.\<close>

record aws_options =
  Region :: string
  BaseEndpoint :: "string option"
  UsePathStyle :: bool
  Credentials :: "(string \<times> string \<times> string) option"

text \<open>
  What the tool gets from outside: SQLite and UUIDs, the environment variables (empty if unset),
  the constructor of the AWS client, \<^verbatim>\<open>time.ParseDuration\<close>, the clock, the order of a \<^verbatim>\<open>range\<close> over
  a map, and the names of the temporary files.
\<close>

record ('s, 'db) sys =
  sys_sqlite :: "'db ext"
  Getenv :: "string \<Rightarrow> string"
  awss3_New :: "aws_options \<Rightarrow> 's s3_client"
  ParseDuration :: "string \<Rightarrow> int result"
  Now :: int
  rangeOrder :: "(string \<times> string list) list \<Rightarrow> (string \<times> string list) list"
  emptyTemp :: string
  localTemp :: string

text \<open>
  A message on standard error: the usage text, what the flag package writes, the line for the error
  that a command returns, or a text of the tool itself.
\<close>

datatype message = Usage | FlagMessage | ErrorLine err | Note string

record 's proc =
  p_world :: "'s world"
  p_stdout :: string
  p_stderr :: "message list"

definition println :: "string \<Rightarrow> 's proc \<Rightarrow> 's proc" where
  "println s p = p\<lparr>p_stdout := p_stdout p @ s @ [CHR 0x0A]\<rparr>"

definition eprint :: "message \<Rightarrow> 's proc \<Rightarrow> 's proc" where
  "eprint m p = p\<lparr>p_stderr := p_stderr p @ [m]\<rparr>"

text \<open>A command returns an error or nil, or it ends the process.\<close>

datatype cmd_end = Return "err option" | Exit int

type_synonym 's cmd = "'s proc \<Rightarrow> (cmd_end \<times> 's proc) option"

definition newStore :: "('s, 'db) sys \<Rightarrow> string \<Rightarrow> 's BlobStore" where
  "newStore T bkt =
     (let region = (if Getenv T ''AWS_REGION'' = '''' then ''us-east-1'' else Getenv T ''AWS_REGION'');
          o0 = \<lparr>Region = region, BaseEndpoint = None, UsePathStyle = False, Credentials = None\<rparr>;
          ep = Getenv T ''AWS_ENDPOINT_URL'';
          o1 = (if ep \<noteq> '''' then o0\<lparr>BaseEndpoint := Some ep, UsePathStyle := True\<rparr> else o0);
          ak = Getenv T ''AWS_ACCESS_KEY_ID'';
          o2 = (if ak \<noteq> ''''
                then o1\<lparr>Credentials := Some (ak, Getenv T ''AWS_SECRET_ACCESS_KEY'', Getenv T ''AWS_SESSION_TOKEN'')\<rparr>
                else o1)
      in s3_store (NewS3BlobStore (awss3_New T o2) bkt))"

text \<open>
  \<^verbatim>\<open>os.WriteFile\<close>: the local calls are the open, which creates or truncates the file, and the write;
  after a failed write the file is taken to be empty.
\<close>

definition os_WriteFile :: "string \<Rightarrow> bytes \<Rightarrow> 's world \<Rightarrow> err option \<times> 's world" where
  "os_WriteFile path data w =
     (case local_call w of
        (Some e, w) \<Rightarrow> (Some e, w)
      | (None, w) \<Rightarrow>
          (case local_call (w\<lparr>w_disk := (w_disk w)(path \<mapsto> [])\<rparr>) of
             (Some e, w) \<Rightarrow> (Some e, w)
           | (None, w) \<Rightarrow> (None, w\<lparr>w_disk := (w_disk w)(path \<mapsto> data)\<rparr>)))"

definition os_ReadFile :: "string \<Rightarrow> 's world \<Rightarrow> bytes result \<times> 's world" where
  "os_ReadFile path w =
     (case local_call w of
        (Some e, w) \<Rightarrow> (Inl e, w)
      | (None, w) \<Rightarrow>
          (case w_disk w path of
             None \<Rightarrow> (Inl (OtherErr ''no such file or directory''), w)
           | Some b \<Rightarrow> (Inr b, w)))"

definition os_Stat :: "string \<Rightarrow> 's world \<Rightarrow> err option \<times> 's world" where
  "os_Stat path w = (case os_ReadFile path w of (Inl e, w) \<Rightarrow> (Some e, w) | (Inr _, w) \<Rightarrow> (None, w))"

text \<open>
  What every command starts with: a mistake in the flags ends the process, a bad target is returned;
  otherwise it goes on with the flags and the target.
\<close>

definition parsed :: "('s, 'db) sys \<Rightarrow> flags \<Rightarrow> string list \<Rightarrow> (flags \<Rightarrow> target \<Rightarrow> 's cmd) \<Rightarrow> 's cmd" where
  "parsed T fl args k p =
     (case Parse (ParseDuration T) fl args of
        Inl code \<Rightarrow> Some (Exit code, eprint FlagMessage p)
      | Inr (fl, rest) \<Rightarrow>
          (case parseTarget (fl, rest) of
             Inl e \<Rightarrow> Some (Return (Some e), p)
           | Inr tgt \<Rightarrow> k fl tgt p))"

definition target_flags :: flags where
  "target_flags = [(''bucket'', StringVal ''''), (''prefix'', StringVal '''')]"

section \<open>Commands\<close>

definition cmdInit :: "('s, 'db) sys \<Rightarrow> string list \<Rightarrow> 's cmd" where
  "cmdInit T args =
     parsed T (target_flags @ [(''f'', StringVal '''')]) args (\<lambda>fl tgt p.
       let file = string_flag fl ''f''; store = newStore T (tgt_bucket tgt)
       in case Init (sys_sqlite T) store None (emptyTemp T) (tgt_prefix tgt) file (p_world p) of
            (Some e, w) \<Rightarrow> Some (Return (Some e), p\<lparr>p_world := w\<rparr>)
          | (None, w) \<Rightarrow>
              Some (Return None, println
                (if file \<noteq> '''' then ''Initialized '' @ target_String tgt @ '' from '' @ file
                 else ''Initialized '' @ target_String tgt @ '' (empty)'') (p\<lparr>p_world := w\<rparr>)))"

text \<open>The report of \<^verbatim>\<open>pull\<close>.\<close>

definition pullReport :: "target \<Rightarrow> string \<Rightarrow> PullInfo \<Rightarrow> 's proc \<Rightarrow> 's proc" where
  "pullReport tgt out info p =
     fold println
       [''Pulled '' @ target_String tgt @ '' to '' @ out,
        ''  seq:            '' @ FormatInt (pull_Seq info),
        ''  schema_version: '' @ FormatInt (pull_SchemaVersion info),
        ''  snapshot size:  '' @ formatBytes (pull_SnapshotSize info),
        ''  log entries:    '' @ FormatInt (pull_LogEntries info)] p"

definition cmdPull :: "('s, 'db) sys \<Rightarrow> string list \<Rightarrow> 's cmd" where
  "cmdPull T args =
     parsed T (target_flags @ [(''o'', StringVal ''''), (''no-seq'', BoolVal False)]) args (\<lambda>fl tgt p.
       let out = string_flag fl ''o''
       in if out = '''' then Some (Return (Some (OtherErr ''missing -o (output path)'')), p)
          else case Pull (sys_sqlite T) (newStore T (tgt_bucket tgt)) None (tgt_prefix tgt) out (p_world p) of
              (Inl e, w) \<Rightarrow> Some (Return (Some e), p\<lparr>p_world := w\<rparr>)
            | (Inr info, w) \<Rightarrow>
                (case (if \<not> bool_flag fl ''no-seq''
                       then os_WriteFile (out @ ''.seq'') (FormatInt (pull_Seq info)) w
                       else (None, w)) of
                   (Some e, w) \<Rightarrow> Some (Return (Some (Wrapped ''write seq sidecar'' e)), p\<lparr>p_world := w\<rparr>)
                 | (None, w) \<Rightarrow> Some (Return None, pullReport tgt out info (p\<lparr>p_world := w\<rparr>))))"

text \<open>
  The sequence number that \<^verbatim>\<open>push\<close> expects: from the flags, or from the file that \<^verbatim>\<open>pull\<close> wrote.
\<close>

definition expectedSeq :: "flags \<Rightarrow> string \<Rightarrow> 's world \<Rightarrow> int result \<times> 's world" where
  "expectedSeq fl file w =
     (if bool_flag fl ''force'' then (Inr (-1), w)
      else if int_flag fl ''seq'' = -2
      then (case os_ReadFile (file @ ''.seq'') w of
              (Inl serr, w) \<Rightarrow>
                if bool_flag fl ''create'' then (Inr 0, w)
                else (Inl (Wrapped ''no -seq given and couldn't read the sidecar'' serr), w)
            | (Inr data, w) \<Rightarrow>
                (case ParseInt (TrimSpace data) of
                   Inl perr \<Rightarrow> (Inl (Wrapped ''parse the sidecar'' perr), w)
                 | Inr v \<Rightarrow> (Inr v, w)))
      else (Inr (int_flag fl ''seq''), w))"

text \<open>After a push: the sidecar is rewritten if it is there, and the errors of that are dropped.\<close>

definition updateSidecar :: "string \<Rightarrow> int \<Rightarrow> 's world \<Rightarrow> 's world" where
  "updateSidecar file seq w =
     (if 0 \<le> seq
      then (case os_Stat (file @ ''.seq'') w of
              (Some e, w) \<Rightarrow> w
            | (None, w) \<Rightarrow> snd (os_WriteFile (file @ ''.seq'') (FormatInt seq) w))
      else w)"

definition pushHints :: "string list" where
  "pushHints =
     [CHR 0x0A # ''The database has advanced since your last pull.'',
      ''Pull again to get the latest, re-apply your changes, then push.'',
      ''Or use -force to overwrite (DANGEROUS).'']"

text \<open>The push itself; \<open>-create\<close> makes the database if there is none.\<close>

definition pushFile :: "('s, 'db) sys \<Rightarrow> target \<Rightarrow> string \<Rightarrow> bool \<Rightarrow> int \<Rightarrow> 's cmd" where
  "pushFile T tgt file create seq p =
     (let store = newStore T (tgt_bucket tgt)
      in case Push (sys_sqlite T) store None (tgt_prefix tgt) file seq (p_world p) of
           (Some e, w) \<Rightarrow>
             if errors_Is e ErrNotFound \<and> create
             then (case Init (sys_sqlite T) store None (emptyTemp T) (tgt_prefix tgt) file w of
                     (Some ierr, w) \<Rightarrow> Some (Return (Some ierr), p\<lparr>p_world := w\<rparr>)
                   | (None, w) \<Rightarrow>
                       Some (Return None, println (''Created '' @ target_String tgt @ '' from '' @ file)
                         (p\<lparr>p_world := snd (os_WriteFile (file @ ''.seq'') ''0'' w)\<rparr>)))
             else Some (Return (Some e),
               (if errors_Is e ErrSeqMismatch then fold eprint (map Note pushHints) else id) (p\<lparr>p_world := w\<rparr>))
         | (None, w) \<Rightarrow>
             (let q = println (''Pushed '' @ file @ '' to '' @ target_String tgt)
                        (p\<lparr>p_world := updateSidecar file seq w\<rparr>)
              in Some (Return None,
                if 0 \<le> seq
                then println (''  seq: '' @ FormatInt seq @ '' (unchanged; push is a snapshot replacement)'') q
                else q)))"

definition cmdPush :: "('s, 'db) sys \<Rightarrow> string list \<Rightarrow> 's cmd" where
  "cmdPush T args =
     parsed T (target_flags @ [(''f'', StringVal ''''), (''seq'', Int64Val (-2)),
                 (''force'', BoolVal False), (''create'', BoolVal False)]) args (\<lambda>fl tgt p.
       let file = string_flag fl ''f''
       in if file = '''' then Some (Return (Some (OtherErr ''missing -f (file to push)'')), p)
          else case expectedSeq fl file (p_world p) of
              (Inl e, w) \<Rightarrow> Some (Return (Some e), p\<lparr>p_world := w\<rparr>)
            | (Inr seq, w) \<Rightarrow> pushFile T tgt file (bool_flag fl ''create'') seq (p\<lparr>p_world := w\<rparr>))"

text \<open>
  \<^verbatim>\<open>status\<close>, \<^verbatim>\<open>compact\<close> and \<^verbatim>\<open>gc\<close> open the database and close it when they return; the error of the
  close is dropped.
\<close>

definition withDB :: "('s, 'db) sys \<Rightarrow> 'db Option list \<Rightarrow> target \<Rightarrow>
    (('s, 'db) DB \<Rightarrow> 's proc \<Rightarrow> err option \<times> ('s, 'db) DB \<times> 's proc) \<Rightarrow> 's cmd" where
  "withDB T opts tgt body p =
     (case Open (sys_sqlite T) (newStore T (tgt_bucket tgt)) None (emptyTemp T) (localTemp T)
             (tgt_prefix tgt) opts (p_world p) of
        None \<Rightarrow> None
      | Some (Inl e, w) \<Rightarrow> Some (Return (Some e), p\<lparr>p_world := w\<rparr>)
      | Some (Inr db, w) \<Rightarrow>
          (case body db (p\<lparr>p_world := w\<rparr>) of
             (r, db, p) \<Rightarrow>
               (case db_Close (sys_sqlite T) db (p_world p) of
                  (_, _, w) \<Rightarrow> Some (Return r, p\<lparr>p_world := w\<rparr>))))"

definition cmdStatus :: "('s, 'db) sys \<Rightarrow> string list \<Rightarrow> 's cmd" where
  "cmdStatus T args =
     parsed T target_flags args (\<lambda>fl tgt. withDB T [WithSchemaUnchecked] tgt (\<lambda>db p.
       let s = db_Stats db
       in (None, db, fold println
            [''target:         '' @ target_String tgt,
             ''seq:            '' @ FormatInt (stats_Seq s),
             ''schema_version: '' @ FormatInt (stats_SchemaVersion s),
             ''snapshot size:  '' @ formatBytes (SnapshotSize s),
             ''log entries:    '' @ FormatInt (LogEntries s),
             ''log bytes:      '' @ formatBytes (LogBytes s)] p)))"

text \<open>The arrow between the figures before and after, in UTF-8.\<close>

definition arrow :: string where
  "arrow = '' '' @ [CHR 0xE2, CHR 0x86, CHR 0x92] @ '' ''"

definition cmdCompact :: "('s, 'db) sys \<Rightarrow> string list \<Rightarrow> 's cmd" where
  "cmdCompact T args =
     parsed T target_flags args (\<lambda>fl tgt. withDB T [WithSchemaUnchecked] tgt (\<lambda>db p.
       let before = db_Stats db
       in case db_Compact (sys_sqlite T) None db (p_world p) of
            (Some e, db, w) \<Rightarrow> (Some e, db, p\<lparr>p_world := w\<rparr>)
          | (None, db, w) \<Rightarrow>
              (let after = db_Stats db
               in (None, db, fold println
                    [''Compacted '' @ target_String tgt,
                     ''  log entries:   '' @ FormatInt (LogEntries before) @ arrow @ FormatInt (LogEntries after),
                     ''  snapshot size: '' @ formatBytes (SnapshotSize before) @ arrow @
                       formatBytes (SnapshotSize after)] (p\<lparr>p_world := w\<rparr>)))))"

definition cmdGC :: "('s, 'db) sys \<Rightarrow> string list \<Rightarrow> 's cmd" where
  "cmdGC T args =
     parsed T (target_flags @ [(''grace'', DurationVal (-1))]) args (\<lambda>fl tgt.
       withDB T ([WithSchemaUnchecked] @
                   (if 0 \<le> int_flag fl ''grace'' then [WithGCGracePeriod (int_flag fl ''grace'')] else []))
         tgt (\<lambda>db p.
           case db_GC (sys_sqlite T) None (Now T) (rangeOrder T) db (p_world p) of
             (Some e, db, w) \<Rightarrow> (Some e, db, p\<lparr>p_world := w\<rparr>)
           | (None, db, w) \<Rightarrow> (None, db, println (''GC complete for '' @ target_String tgt) (p\<lparr>p_world := w\<rparr>))))"

text \<open>\<^verbatim>\<open>main\<close>: the arguments without the name of the program; the result is the exit status.\<close>

definition commands :: "('s, 'db) sys \<Rightarrow> (string \<times> (string list \<Rightarrow> 's cmd)) list" where
  "commands T =
     [(''init'', cmdInit T), (''pull'', cmdPull T), (''push'', cmdPush T),
      (''status'', cmdStatus T), (''compact'', cmdCompact T), (''gc'', cmdGC T)]"

definition main :: "('s, 'db) sys \<Rightarrow> string list \<Rightarrow> 's proc \<Rightarrow> (int \<times> 's proc) option" where
  "main T osArgs p =
     (case osArgs of
        [] \<Rightarrow> Some (2, eprint Usage p)
      | name # args \<Rightarrow>
          (case map_of (commands T) name of
             Some cmd \<Rightarrow>
               (case cmd args p of
                  None \<Rightarrow> None
                | Some (Exit code, p) \<Rightarrow> Some (code, p)
                | Some (Return None, p) \<Rightarrow> Some (0, p)
                | Some (Return (Some e), p) \<Rightarrow> Some (1, eprint (ErrorLine e) p))
           | None \<Rightarrow>
               if name \<in> set [''-h'', ''--help'', ''help''] then Some (0, eprint Usage p)
               else Some (2, eprint Usage (eprint (Note ''unknown command'') p))))"

section \<open>Flags and targets\<close>

lemma Parse_positional:
  "s = [] \<or> hd s \<noteq> CHR ''-'' \<Longrightarrow> Parse pd fl (s # args) = Inr (fl, s # args)"
  by (subst Parse.simps) auto

declare Parse.simps [simp del]

lemma parseTarget_positional: "parseTarget (fl, s # args) = parseTarget (fl', [s])"
  by (simp add: parseTarget_def)

lemma parsed_positional:
  assumes "s = [] \<or> hd s \<noteq> CHR ''-''"
  shows "parsed T fl (s # args) k p = parsed T fl [s] k p"
  using assms by (simp add: parsed_def Parse_positional parseTarget_positional [of fl s args fl])

lemma HasPrefix_hd: "HasPrefix s (c # cs) \<Longrightarrow> hd s = c"
  by (cases s) (auto simp: HasPrefix_def)

lemmas cmd_defs = cmdInit_def cmdPull_def cmdPush_def cmdStatus_def cmdCompact_def cmdGC_def

lemma cmd_cases:
  assumes "map_of (commands T) name = Some cmd"
  obtains "cmd = cmdInit T" | "cmd = cmdPull T" | "cmd = cmdPush T"
    | "cmd = cmdStatus T" | "cmd = cmdCompact T" | "cmd = cmdGC T"
  using assms by (auto simp: commands_def split: if_splits)

lemma cmd_positional:
  assumes "map_of (commands T) name = Some cmd" and "s = [] \<or> hd s \<noteq> CHR ''-''"
  shows "cmd (s # args) p = cmd [s] p"
  using assms(1) by (rule cmd_cases) (simp_all only: cmd_defs parsed_positional [OF assms(2), of T _ args])

text \<open>
  C35: a target given as an \<^verbatim>\<open>s3://\<close> URL ends the flags.  Whatever follows the URL is ignored by every
  command, so \<^verbatim>\<open>pull URL -o FILE\<close> and \<^verbatim>\<open>push URL -f FILE\<close>, the forms of the usage text, fail with
  status 1 before they touch the store or a file.
\<close>

theorem flags_after_url:
  assumes "HasPrefix url ''s3://''"
  shows "main T (name # url # args) p = main T [name, url] p \<and>
    (\<exists>e. main T (''pull'' # url # args) p = Some (1, eprint (ErrorLine e) p)) \<and>
    (\<exists>e. main T (''push'' # url # args) p = Some (1, eprint (ErrorLine e) p))"
proof -
  have u: "url = [] \<or> hd url \<noteq> CHR ''-''" using HasPrefix_hd [OF assms] by simp
  have a: "main T (name # url # args) p = main T [name, url] p"
    by (auto simp: main_def cmd_positional [OF _ u, of T name _ args] split: option.splits)
  have b: "\<exists>e. parsed T fl (url # args) k p = Some (Return (Some e), p)"
    if "\<And>tgt. \<exists>e. k fl tgt p = Some (Return (Some e), p)" for fl k
    using that by (auto simp: parsed_def Parse_positional [OF u] split: sum.splits)
  have c: "\<exists>e. cmdPull T (url # args) p = Some (Return (Some e), p)"
    unfolding cmdPull_def by (rule b) (simp add: string_flag_def target_flags_def)
  have d: "\<exists>e. cmdPush T (url # args) p = Some (Return (Some e), p)"
    unfolding cmdPush_def by (rule b) (simp add: string_flag_def target_flags_def)
  show ?thesis using a c d by (auto simp: main_def commands_def)
qed

theorem flags_after_url_witness:
  "\<forall>(T :: (MemBlobStore, string) sys) p.
     main T [''pull'', ''s3://b/db/'', ''-o'', ''db.sqlite''] p = main T [''pull'', ''s3://b/db/''] p \<and>
     (\<exists>e. main T [''pull'', ''s3://b/db/'', ''-o'', ''db.sqlite''] p = Some (1, eprint (ErrorLine e) p)) \<and>
     (\<exists>e. main T [''push'', ''s3://b/db/'', ''-o'', ''db.sqlite''] p = Some (1, eprint (ErrorLine e) p))"
  by (intro allI flags_after_url) (simp add: HasPrefix_def)

lemma with_slash_suffix: "HasSuffix (with_slash p) ''/''"
  by (simp add: with_slash_def)

text \<open>
  C36: the target of an accepted URL has a bucket without a slash and a prefix that ends with one; it
  prints as the URL, up to that slash, and what it prints is read back as the same target.
\<close>

theorem parseS3URL_roundtrip:
  assumes "parseS3URL u = Inr (b, p)"
  shows "b \<noteq> '''' \<and> CHR ''/'' \<notin> set b \<and> HasSuffix p ''/'' \<and>
    (let t = target_String \<lparr>tgt_bucket = b, tgt_prefix = p\<rparr>
     in t \<in> {u, u @ ''/''} \<and> parseS3URL t = Inr (b, p))"
proof -
  let ?r = "TrimPrefix u ''s3://''"
  from assms have u: "u = ''s3://'' @ ?r"
    by (auto simp: parseS3URL_def TrimPrefix_def HasPrefix_iff prefix_def split: if_splits)
  from assms obtain p0 h where c: "CutByte ?r CHR ''/'' = (b, p0, h)" "b \<noteq> ''''" "p0 \<noteq> ''''" "p = with_slash p0"
    by (auto simp: parseS3URL_def split: if_splits prod.splits)
  from c(1,3) have r: "?r = b @ CHR ''/'' # p0" and b: "CHR ''/'' \<notin> set b"
    using IndexByte_split [of ?r "CHR ''/''"] by (auto simp: CutByte_def Let_def split: if_splits)
  have w: "p = p0 \<or> p = p0 @ ''/''" "p \<noteq> ''''" "with_slash p = p"
    using c(3,4) by (auto simp: with_slash_def)
  have "parseS3URL (''s3://'' @ b @ ''/'' @ p) = Inr (b, p)"
    using c(2) w(2,3) CutByte_append [OF b, of p]
    by (simp add: parseS3URL_def HasPrefix_def TrimPrefix_def)
  moreover have "''s3://'' @ b @ ''/'' @ p \<in> {u, u @ ''/''}"
    using w(1) by (subst (1 2) u, subst (1 2) r) auto
  ultimately show ?thesis
    using c(2) b with_slash_suffix [of p0] c(4) by (simp add: target_String_def)
qed

theorem parseS3URL_roundtrip_witness:
  "''b'' \<noteq> '''' \<and> CHR ''/'' \<notin> set ''b'' \<and> HasSuffix ''a/db/'' ''/'' \<and>
    (let t = target_String \<lparr>tgt_bucket = ''b'', tgt_prefix = ''a/db/''\<rparr>
     in t \<in> {''s3://b/a/db'', ''s3://b/a/db'' @ ''/''} \<and> parseS3URL t = Inr (''b'', ''a/db/''))"
  by (rule parseS3URL_roundtrip)
    (simp add: parseS3URL_def with_slash_def go_defs)

section \<open>Accuracy of sizes\<close>

lemma round_even_near:
  assumes "0 < b"
  shows "2 * \<bar>round_even a b * b - a\<bar> \<le> b"
proof -
  define q where "q = a div b * b"
  have a: "a = q + a mod b" "a mod b < b" "0 \<le> a mod b" using assms by (simp_all add: q_def)
  have "(a div b + 1) * b = q + b" by (simp add: q_def distrib_right)
  then have "round_even a b * b = (if 2 * (a mod b) < b \<or> (2 * (a mod b) = b \<and> even (a div b)) then q else q + b)"
    by (simp add: round_even_def Let_def q_def)
  then show ?thesis using a by (auto split: if_splits)
qed

lemma excess_bits_bound:
  assumes "excess_bits n = Suc k"
  shows "2 ^ (53 + k) \<le> n"
  using assms
proof (induction n arbitrary: k rule: excess_bits.induct)
  case (1 n)
  from "1.prems" have n: "2 ^ 53 \<le> n" and e: "excess_bits (n div 2) = k"
    by (subst (asm) excess_bits.simps, simp split: if_splits)+
  show ?case
  proof (cases k)
    case (Suc j)
    with 1(1) [OF _ e [unfolded Suc]] n have "2 ^ (53 + j) \<le> n div 2" by simp
    moreover have "(2::int) ^ (53 + Suc j) = 2 * 2 ^ (53 + j)" by (simp only: add_Suc_right power_Suc)
    ultimately show ?thesis unfolding Suc by linarith
  qed (use n in simp)
qed

lemma float64_near:
  assumes "0 \<le> n"
  shows "\<bar>float64_of n - n\<bar> \<le> n div 2 ^ 53"
proof (cases "excess_bits n")
  case 0
  have "round_even n 1 = n" by (simp add: round_even_def)
  with 0 assms show ?thesis by (simp add: float64_of_def)
next
  case (Suc k)
  let ?d = "\<bar>float64_of n - n\<bar>"
  have "2 * ?d \<le> 2 ^ Suc k" using round_even_near [of "2 ^ Suc k" n] Suc by (simp add: float64_of_def Let_def)
  then have "?d \<le> 2 ^ k" by simp
  then have "?d * 2 ^ 53 \<le> n" using excess_bits_bound [OF Suc] by (simp add: power_add)
  then show ?thesis using zdiv_mono1 [of "?d * 2 ^ 53" n "2 ^ 53"] by simp
qed

lemma tenths_near:
  assumes "0 < u" and "0 \<le> n"
  shows "2 * \<bar>tenths n u * u - 10 * n\<bar> \<le> u + 20 * (n div 2 ^ 53)"
proof -
  have "2 * \<bar>t - 10 * n\<bar> \<le> u + 20 * e" if "2 * \<bar>t - 10 * f\<bar> \<le> u" "\<bar>f - n\<bar> \<le> e" for t f e :: int
  proof -
    have "\<bar>10 * f - 10 * n\<bar> = 10 * \<bar>f - n\<bar>" by presburger
    with that abs_triangle_ineq [of "t - 10 * f" "10 * f - 10 * n"] show ?thesis by simp
  qed
  then show ?thesis
    using round_even_near [OF assms(1), of "10 * float64_of n"] float64_near [OF assms(2)]
    unfolding tenths_def by blast
qed

text \<open>
  C37: a size of at least 1024 bytes is printed with one decimal in the unit it belongs to, at most half
  a tenth of that unit away from the exact value, up to the precision of \<^verbatim>\<open>float64\<close> beyond
  \<^verbatim>\<open>2^53\<close> bytes.
\<close>

theorem formatBytes_accurate:
  assumes "1024 \<le> n"
  shows "\<exists>u name t. (u, name) \<in> {(2 ^ 10, '' KiB''), (2 ^ 20, '' MiB''), (2 ^ 30, '' GiB'')} \<and>
    u \<le> n \<and> (n < 1024 * u \<or> u = 2 ^ 30) \<and>
    formatBytes n = FormatInt (t div 10) @ ''.'' @ FormatInt (t mod 10) @ name \<and>
    2 * \<bar>t * u - 10 * n\<bar> \<le> u + 20 * (n div 2 ^ 53)"
proof -
  have a: "2 * \<bar>tenths n u * u - 10 * n\<bar> \<le> u + 20 * (n div 2 ^ 53)" if "0 < u" for u
    using tenths_near [OF that] assms by simp
  consider "2 ^ 30 \<le> n" | "2 ^ 20 \<le> n" "n < 2 ^ 30" | "n < 2 ^ 20" by linarith
  then show ?thesis
  proof cases
    case 1
    with a [of "2 ^ 30"] show ?thesis
      by (intro exI [of _ "2 ^ 30"] exI [of _ "'' GiB''"] exI [of _ "tenths n (2 ^ 30)"])
        (simp add: formatBytes_def format_f1_def)
  next
    case 2
    with a [of "2 ^ 20"] show ?thesis
      by (intro exI [of _ "2 ^ 20"] exI [of _ "'' MiB''"] exI [of _ "tenths n (2 ^ 20)"])
        (simp add: formatBytes_def format_f1_def)
  next
    case 3
    with a [of "2 ^ 10"] assms show ?thesis
      by (intro exI [of _ "2 ^ 10"] exI [of _ "'' KiB''"] exI [of _ "tenths n (2 ^ 10)"])
        (simp add: formatBytes_def format_f1_def)
  qed
qed

theorem formatBytes_accurate_witness:
  "\<exists>u name t. (u, name) \<in> {(2 ^ 10, '' KiB''), (2 ^ 20, '' MiB''), (2 ^ 30, '' GiB'')} \<and>
    u \<le> 1500000 \<and> (1500000 < 1024 * u \<or> u = 2 ^ 30) \<and>
    formatBytes 1500000 = FormatInt (t div 10) @ ''.'' @ FormatInt (t mod 10) @ name \<and>
    2 * \<bar>t * u - 10 * 1500000\<bar> \<le> u + 20 * (1500000 div 2 ^ 53)"
  by (rule formatBytes_accurate) simp

section \<open>The sidecar\<close>

lemma space_runes_ends:
  "list_all (\<lambda>r. r \<noteq> [] \<and> \<not> is_digit (hd r) \<and> hd r \<noteq> CHR ''-'' \<and> \<not> is_digit (last r)) space_runes"
  by (simp add: space_runes_def is_digit_def) (simp add: char_of_eq_iff)

lemma TrimSpace_visible:
  assumes "s \<noteq> []" and "is_digit (hd s) \<or> hd s = CHR ''-''" and "is_digit (last s)"
  shows "TrimSpace s = s"
proof -
  have r: "r \<noteq> []" "\<not> is_digit (hd r)" "hd r \<noteq> CHR ''-''" "\<not> is_digit (last r)" if "r \<in> set space_runes" for r
    using space_runes_ends that by (auto simp: list_all_iff)
  have "\<not> HasPrefix s r" "\<not> HasSuffix s r" if "r \<in> set space_runes" for r
    using r [OF that] assms by (auto simp: HasPrefix_iff HasSuffix_iff prefix_def suffix_def)
  then have "find (\<lambda>r. HasPrefix s r) space_runes = None" "find (\<lambda>r. HasSuffix s r) space_runes = None"
    by (auto simp: find_None_iff)
  then have "trim_left n s = s" "trim_right n s = s" for n by (cases n; simp)+
  then show ?thesis by (simp add: TrimSpace_def)
qed

lemma show_nat_last: "is_digit (last (show_nat n))"
  using show_nat_digits [of n] by (auto simp: list_all_iff)

lemma TrimSpace_FormatInt: "TrimSpace (FormatInt n) = FormatInt n"
  by (rule TrimSpace_visible) (auto simp: FormatInt_def show_nat_hd show_nat_last)

lemma expectedSeq_sidecar:
  assumes "w_io w = []" and "w_disk w (file @ ''.seq'') = Some (FormatInt n)" and "is_int64 n"
    and "\<not> bool_flag fl ''force''" and "int_flag fl ''seq'' = -2"
  shows "expectedSeq fl file w = (Inr n, w)"
  using assms by (simp add: expectedSeq_def os_ReadFile_def TrimSpace_FormatInt ParseInt_FormatInt)

text \<open>The flags of \<^verbatim>\<open>-o FILE URL\<close> and \<^verbatim>\<open>-f FILE URL\<close>, in the order that the tool accepts.\<close>

lemma Parse_one_string:
  assumes "map_of fl [c] = Some (StringVal s)" and "c \<noteq> CHR ''-''" and "c \<noteq> CHR ''=''"
    and "HasPrefix url ''s3://''"
  shows "Parse pd fl [[CHR ''-'', c], v, url] = Inr (AList.update [c] (StringVal v) fl, [url])"
proof -
  have "url = [] \<or> hd url \<noteq> CHR ''-''" using HasPrefix_hd [OF assms(4)] by simp
  then have "Parse pd (AList.update [c] (StringVal v) fl) [url] = Inr (AList.update [c] (StringVal v) fl, [url])"
    by (rule Parse_positional)
  then show ?thesis using assms(1-3)
    by (subst Parse.simps) (simp add: CutByte_notin set_flag_def)
qed

end
