(* ===== verification/Tool.thy ===== *)
theory Tool
  imports Exchange Sample Cli
begin

text \<open>
  The pull, edit and push workflow of the command line tool (\<^verbatim>\<open>cmd/s3db/main.go\<close>) over the whole
  database operations of \<^verbatim>\<open>pullpush.go\<close> and a store that keeps the sequential contract: the file
  beside the pulled one carries the sequence number from \<^verbatim>\<open>pull\<close> to \<^verbatim>\<open>push\<close>.
\<close>

section \<open>Steps of the commands\<close>

lemma p_world_print [simp]:
  "p_world (println s p) = p_world p" "p_world (eprint m p) = p_world p"
  "p_world (pullReport tgt out info p) = p_world p"
  by (simp_all add: println_def eprint_def pullReport_def)

lemma p_world_hints [simp]: "p_world (fold eprint ms p) = p_world p"
  by (induction ms arbitrary: p) simp_all

lemma parseS3URL_prefix: "parseS3URL url = Inr r \<Longrightarrow> HasPrefix url ''s3://''"
  by (auto simp: parseS3URL_def split: if_splits)

lemma parseS3URL_slash: "parseS3URL url = Inr (b, pre) \<Longrightarrow> HasSuffix pre ''/''"
  by (auto simp: parseS3URL_def with_slash_suffix split: if_splits prod.splits)

lemma parseTarget_url:
  "parseS3URL url = Inr (b, pre) \<Longrightarrow>
     parseTarget (fl, [url]) = Inr \<lparr>tgt_bucket = b, tgt_prefix = pre\<rparr>"
  by (simp add: parseTarget_def parseS3URL_prefix)

lemma os_WriteFile_quiet:
  "w_io w = [] \<Longrightarrow> os_WriteFile path c w = (None, w\<lparr>w_disk := (w_disk w)(path \<mapsto> c)\<rparr>)"
  by (simp add: os_WriteFile_def)

lemma os_WriteFile_store: "w_store (snd (os_WriteFile path c w)) = w_store w"
  by (auto simp: os_WriteFile_def dest!: local_call_frame split: prod.splits option.splits)

lemma updateSidecar_store: "w_store (updateSidecar file seq w) = w_store w"
  by (auto simp: updateSidecar_def os_Stat_def os_ReadFile_def os_WriteFile_store dest: local_call_frame
      split: prod.splits option.splits sum.splits)

lemma cmdPull_run:
  assumes "parseS3URL url = Inr (b, pre)" and "out \<noteq> ''''"
    and "Pull (sys_sqlite T) (newStore T b) None pre out (p_world p) = (Inr info, w)" and "w_io w = []"
  shows "cmdPull T [''-o'', out, url] p = Some (Return None, pullReport \<lparr>tgt_bucket = b, tgt_prefix = pre\<rparr> out info
    (p\<lparr>p_world := w\<lparr>w_disk := (w_disk w)(out @ ''.seq'' \<mapsto> FormatInt (pull_Seq info))\<rparr>\<rparr>))"
proof -
  let ?fl = "target_flags @ [(''o'', StringVal ''''), (''no-seq'', BoolVal False)]"
  have "Parse (ParseDuration T) ?fl [''-o'', out, url] = Inr (AList.update ''o'' (StringVal out) ?fl, [url])"
    by (rule Parse_one_string) (simp_all add: target_flags_def parseS3URL_prefix [OF assms(1)])
  then show ?thesis
    using assms parseTarget_url [OF assms(1)]
    by (simp add: cmdPull_def parsed_def string_flag_def bool_flag_def target_flags_def os_WriteFile_quiet Let_def)
qed

lemma cmdPush_run:
  assumes "parseS3URL url = Inr (b, pre)" and "file \<noteq> ''''" and "w_io (p_world p) = []"
    and "w_disk (p_world p) (file @ ''.seq'') = Some (FormatInt n)" and "is_int64 n"
  shows "cmdPush T [''-f'', file, url] p = pushFile T \<lparr>tgt_bucket = b, tgt_prefix = pre\<rparr> file False n p"
proof -
  let ?fl = "target_flags @ [(''f'', StringVal ''''), (''seq'', Int64Val (-2)),
                 (''force'', BoolVal False), (''create'', BoolVal False)]"
  let ?fl' = "AList.update ''f'' (StringVal file) ?fl"
  have "Parse (ParseDuration T) ?fl [''-f'', file, url] = Inr (?fl', [url])"
    by (rule Parse_one_string) (simp_all add: target_flags_def parseS3URL_prefix [OF assms(1)])
  moreover have "expectedSeq ?fl' file (p_world p) = (Inr n, p_world p)"
    by (rule expectedSeq_sidecar) (use assms in \<open>simp_all add: target_flags_def bool_flag_def int_flag_def\<close>)
  ultimately show ?thesis
    using assms(2) parseTarget_url [OF assms(1)]
    by (simp add: cmdPush_def parsed_def string_flag_def bool_flag_def target_flags_def Let_def)
qed

section \<open>An instance\<close>

text \<open>The tool over the sample database in a bucket that behaves as S3 documents.\<close>

definition sample_sys :: "(MemBlobStore, rows) sys" where
  "sample_sys =
     \<lparr>sys_sqlite = rows_ext, Getenv = (\<lambda>_. ''''), awss3_New = (\<lambda>_. mem_s3 sample_md5),
      ParseDuration = (\<lambda>_. Inl (OtherErr ''time: invalid duration'')), Now = 0, rangeOrder = id,
      emptyTemp = ''t1'', localTemp = ''t2''\<rparr>"

definition sample_proc :: "(string \<Rightarrow> bytes option) \<Rightarrow> MemBlobStore \<Rightarrow> MemBlobStore proc" where
  "sample_proc disk s =
     \<lparr>p_world = (mem_world s)\<lparr>w_disk := disk\<rparr>, p_stdout = '''', p_stderr = []\<rparr>"

lemma sample_newStore: "exclusive_store (newStore sample_sys b) mem_view (mem_invar sample_md5)"
  using s3_quiet.s3_exclusive [OF digest.mem_s3_quiet [OF sample.digest_axioms]] by (simp add: newStore_def sample_sys_def Let_def)

lemma sample_url: "parseS3URL ''s3://b/p'' = Inr (''b'', ''p/'')"
  by (simp add: parseS3URL_def with_slash_def go_defs)

lemma sample_proc_simps [simp]:
  "w_store (p_world (sample_proc disk s)) = s" "w_io (p_world (sample_proc disk s)) = []"
  "w_disk (p_world (sample_proc disk s)) = disk" "sys_sqlite sample_sys = rows_ext"
  by (simp_all add: sample_proc_def mem_world_def sample_sys_def)

lemma sample_coherent:
  "coherent rows_ext ''p/manifest.json'' (mem_view base_store)"
  "coherent rows_ext ''p/manifest.json'' (mem_view next_store)"
  using sample_good by (simp_all add: good_def)

section \<open>Properties\<close>

text \<open>
  C34: \<^verbatim>\<open>s3db pull -o FILE URL\<close> ends with status 0, FILE then opens to the content of the database,
  nothing of the database changes, and FILE.seq holds the sequence number.
\<close>

theorem tool_pull:
  assumes "exclusive_store (newStore T b) view invar" and "parseS3URL url = Inr (b, pre)" and "file \<noteq> ''''"
    and "invar (w_store (p_world p))" and "w_io (p_world p) = []" and "file_law (sys_sqlite T)"
    and "coherent (sys_sqlite T) (pre @ ''manifest.json'') (view (w_store (p_world p)))"
    and "man (pre @ ''manifest.json'') (view (w_store (p_world p))) = Some m"
    and "replay (sys_sqlite T) (view (w_store (p_world p))) m = Some d"
  shows "\<exists>q c. main T [''pull'', ''-o'', file, url] p = Some (0, q) \<and>
    view (w_store (p_world q)) = view (w_store (p_world p)) \<and>
    w_disk (p_world q) file = Some c \<and> sq_open (sys_sqlite T) c = Inr d \<and>
    w_disk (p_world q) (file @ ''.seq'') = Some (FormatInt (Seq m))"
proof -
  from exclusive_store.Pull_alone [OF assms(1,4,5) parseS3URL_slash [OF assms(2)] assms(6-9), of "file"]
  obtain w c where w: "Pull (sys_sqlite T) (newStore T b) None pre file (p_world p) =
      (Inr \<lparr>pull_Seq = Seq m, pull_SchemaVersion = SchemaVersion m, pull_SnapshotSize = bSize (Snapshot m),
            pull_LogEntries = int (length (Log m))\<rparr>, w)" "w_io w = []"
    "view (w_store w) = view (w_store (p_world p))" "w_disk w file = Some c" "sq_open (sys_sqlite T) c = Inr d" by blast
  from cmdPull_run [OF assms(2,3) w(1,2)] w(3-5) show ?thesis
    by (simp add: main_def commands_def)
qed

theorem tool_pull_witness:
  "\<exists>q c. main sample_sys [''pull'', ''-o'', ''f'', ''s3://b/p''] (sample_proc Map.empty next_store) = Some (0, q) \<and>
    w_disk (p_world q) ''f'' = Some c \<and> sq_open rows_ext c = Inr (CHR ''0'', CHR ''5'') \<and>
    w_disk (p_world q) ''f.seq'' = Some ''1''"
proof -
  have "FormatInt (Seq next_manifest) = ''1''" by (simp add: next_manifest_def) code_simp
  then show ?thesis
    using tool_pull [OF sample_newStore sample_url, of "''f''" "sample_proc Map.empty next_store" next_manifest
        "(CHR ''0'', CHR ''5'')"] rows_file_law base_invar sample_coherent next_man next_replay by auto
qed

text \<open>
  C33: \<^verbatim>\<open>s3db push -f FILE URL\<close> after a pull at sequence number \<open>n\<close>: if the database is still there,
  the push ends with status 0 and the content of the database is that of FILE, under the same
  sequence number; if it has advanced, the push ends with status 1 and no object changes.
\<close>

theorem tool_push:
  assumes "exclusive_store (newStore T b) view invar" and "parseS3URL url = Inr (b, pre)" and "file \<noteq> ''''"
    and "invar (w_store (p_world p))" and "w_io (p_world p) = []" and "uuid_law (sys_sqlite T)" and "list_all is_ascii pre"
    and "coherent (sys_sqlite T) (pre @ ''manifest.json'') (view (w_store (p_world p)))"
    and "man (pre @ ''manifest.json'') (view (w_store (p_world p))) = Some m"
    and "w_disk (p_world p) file = Some c" and "is_db_file (sys_sqlite T) c d"
    and "w_disk (p_world p) (file @ ''.seq'') = Some (FormatInt n)" and "0 \<le> n" and "is_int64 n"
  shows "if Seq m = n
    then \<exists>q m'. main T [''push'', ''-f'', file, url] p = Some (0, q) \<and>
      man (pre @ ''manifest.json'') (view (w_store (p_world q))) = Some m' \<and> Seq m' = n \<and>
      replay (sys_sqlite T) (view (w_store (p_world q))) m' = Some d
    else \<exists>q. main T [''push'', ''-f'', file, url] p = Some (1, q) \<and>
      view (w_store (p_world q)) = view (w_store (p_world p))"
proof -
  let ?X = "sys_sqlite T" and ?mk = "pre @ ''manifest.json''"
  note run = cmdPush_run [OF assms(2,3,5,12,14), of T]
  show ?thesis
  proof (cases "Seq m = n")
    case True
    from exclusive_store.Push_alone [OF assms(1,4,5) parseS3URL_slash [OF assms(2)] assms(7,6,8,9) _ assms(10,11), of n] True
    obtain w m' where w: "Push ?X (newStore T b) None pre file n (p_world p) = (None, w)"
      "man ?mk (view (w_store w)) = Some m'" "Seq m' = n" "replay ?X (view (w_store w)) m' = Some d" by auto
    then show ?thesis using True run assms(13)
      by (simp add: main_def commands_def pushFile_def Let_def updateSidecar_store)
  next
    case False
    from exclusive_store.Push_mismatch [OF assms(1,4,5) parseS3URL_slash [OF assms(2)] assms(9,13) _ assms(10,11)] False
    obtain e w where w: "Push ?X (newStore T b) None pre file n (p_world p) = (Some e, w)"
      "view (w_store w) = view (w_store (p_world p))" by metis
    then show ?thesis using False run by (simp add: main_def commands_def pushFile_def Let_def)
  qed
qed

text \<open>The sidecar still says 0 while the database is at 1, and then the sidecar of the current state.\<close>

theorem tool_push_witness:
  "(\<exists>q. main sample_sys [''push'', ''-f'', ''f'', ''s3://b/p'']
        (sample_proc [''f'' \<mapsto> ''34'', ''f.seq'' \<mapsto> ''0''] next_store) = Some (1, q) \<and>
      mem_view (w_store (p_world q)) = mem_view next_store) \<and>
   (\<exists>q m'. main sample_sys [''push'', ''-f'', ''f'', ''s3://b/p'']
        (sample_proc [''f'' \<mapsto> ''34'', ''f.seq'' \<mapsto> ''1''] next_store) = Some (0, q) \<and>
      replay rows_ext (mem_view (w_store (p_world q))) m' = Some (CHR ''3'', CHR ''4''))"
proof -
  have n: "FormatInt 0 = ''0''" "FormatInt 1 = ''1''" by code_simp+
  have s: "Seq next_manifest = 1" by (simp add: next_manifest_def)
  have f: "is_db_file rows_ext ''34'' (CHR ''3'', CHR ''4'')"
    by (simp add: is_db_file_def rows_ext_def max_int64_def)
  note push = tool_push [OF sample_newStore sample_url, of "''f''" _ next_manifest "''34''" "(CHR ''3'', CHR ''4'')"]
  note facts = rows_uuid_law base_invar sample_coherent next_man f n s is_ascii_def is_int64_def min_int64_def max_int64_def
  from push [of "sample_proc [''f'' \<mapsto> ''34'', ''f.seq'' \<mapsto> ''0''] next_store" 0]
    push [of "sample_proc [''f'' \<mapsto> ''34'', ''f.seq'' \<mapsto> ''1''] next_store" 1]
  show ?thesis by (auto simp: facts)
qed

end
