(* ===== verification/Reopen.thy ===== *)
theory Reopen
  imports Operations Sample
begin

text \<open>
  What a handle is worth after two failures of local calls.  After a compaction whose reopening of
  the local file failed (\<^verbatim>\<open>compact.go\<close>, \<^verbatim>\<open>reopenConn\<close>) the closed connection stays in it, no refresh
  replaces it as long as the database does not change, and \<^verbatim>\<open>withInterrupt\<close> (\<^verbatim>\<open>s3db.go\<close>) panics.  After
  an update whose \<^verbatim>\<open>RELEASE\<close> is interrupted (\<^verbatim>\<open>commit.go\<close>, \<^verbatim>\<open>doUpdate\<close>) the connection is back at the
  savepoint under the new sequence number, and no refresh brings the committed change to it.
\<close>

section \<open>Handles with nothing to fetch\<close>

text \<open>A handle whose connection is at the sequence number and on the snapshot of the manifest.\<close>

definition idle :: "manifest \<Rightarrow> 'db commitState \<Rightarrow> bool" where
  "idle m st \<longleftrightarrow>
     st_conn st \<noteq> NilConn \<and> localSeq st = Seq m \<and> snapshotKey st = bKey (Snapshot m)"

lemma syncToManifest_idle:
  assumes "manifest_inv (st_manifest st)" and "idle (st_manifest st) st"
  shows "syncToManifest X cfg ctx path st w = (None, st, w)"
proof -
  let ?m = "st_manifest st"
  have "bSeq (Snapshot ?m) \<le> Seq ?m" using assms(1) by (simp add: manifest_inv_def)
  then have n: "\<not> needRefresh st"
    using assms(2) by (auto simp: needRefresh_def idle_def split: conn.splits)
  have "\<not> Seq ?m < eSeq e" if "e \<in> set (Log ?m)" for e
    using assms(1) that contiguous_mem [of "bSeq (Snapshot ?m)" "Log ?m" e] by (simp add: manifest_inv_def)
  then have "filter (\<lambda>e. localSeq st < eSeq e) (Log ?m) = []"
    using assms(2) by (simp add: filter_empty_conv idle_def)
  with n show ?thesis by (simp add: syncToManifest_def applyLog_def)
qed

context exclusive_store
begin

lemma refresh_idle:
  assumes "invar (w_store w)" and "cfg_store cfg = store" and "view (w_store w) (manifestKey cfg) = Some (b, e)"
    and "man (manifestKey cfg) (view (w_store w)) = Some m" and "manifest_inv m" and "SchemaVersion m = schemaVer cfg"
    and "idle m st"
  shows "\<exists>t. refreshManifest X cfg None path st w = (None, st\<lparr>st_manifest := m, st_etag := e\<rparr>, w\<lparr>w_store := t\<rparr>) \<and>
    invar t \<and> view t = view (w_store w)"
proof -
  from load_alone [OF assms(1,3,4)] obtain t where
    t: "loadManifest store None (manifestKey cfg) (w_store w) = (Inr (m, e), t)" "invar t" "view t = view (w_store w)"
    by blast
  have "syncToManifest X cfg None path (st\<lparr>st_manifest := m, st_etag := e\<rparr>) (w\<lparr>w_store := t\<rparr>) =
      (None, st\<lparr>st_manifest := m, st_etag := e\<rparr>, w\<lparr>w_store := t\<rparr>)"
    using assms(5,7) by (intro syncToManifest_idle) (simp_all add: idle_def)
  with t assms(2,6) show ?thesis by (auto simp: refreshManifest_def on_store_def schemaCheck_def)
qed

lemma closed_panics:
  assumes "invar (w_store w)" and "cfg_store (db_cfg db) = store"
    and "view (w_store w) (manifestKey (db_cfg db)) = Some (b, e)"
    and "man (manifestKey (db_cfg db)) (view (w_store w)) = Some m" and "manifest_inv m"
    and "SchemaVersion m = schemaVer (db_cfg db)"
    and "idle m (db_st db)" and "st_conn (db_st db) = ClosedConn"
  shows "View X None fn db w = Panic \<and> Update X None fn db w = Panic"
  using refresh_idle [OF assms(1-7), of X "db_localPath db"] assms(8)
  by (auto simp: View_def Update_def withInterrupt_def set_interrupt_def)

text \<open>The upload of a compaction whose sixth local call, the reopening, fails.\<close>

lemma uploadSnapshot_no_reopen:
  assumes "invar (w_store w)" and "st_conn st = OpenConn d" and "w_io w = [None, None, None, None, Some msg]"
  shows "\<exists>x t b e w'. uploadSnapshot X store None what k path st w = (Inl x, st\<lparr>st_conn := ClosedConn\<rparr>, w') \<and>
    w_store w' = t \<and> invar t \<and> view t = (view (w_store w))(k \<mapsto> (b, e))"
proof -
  from Put_hit [OF assms(1), of NoCondition k "sq_file X d"] obtain e t where
    t: "Put store None k (Inr (sq_file X d)) NoCondition (w_store w) = (Inr e, t)"
    by (auto simp: NoCondition_def cond_ok_def)
  from Put_done [OF assms(1) t] have "invar t" "view t = (view (w_store w))(k \<mapsto> (sq_file X d, e))" by auto
  with t show ?thesis using assms(2,3)
    by (auto simp: uploadSnapshot_def conn_Close_def local_call_def uploadFile_def on_store_def Let_def
        reopenConn_def openLocalConn_def sqlite_OpenConn_def)
qed

lemma Compact_no_reopen:
  assumes s: "invar (w_store w)" "cfg_store (db_cfg db) = store" "wf_cfg (db_cfg db)" "0 < maxRetries (db_cfg db)"
    and v: "view (w_store w) (manifestKey (db_cfg db)) = Some (b, e)"
      "man (manifestKey (db_cfg db)) (view (w_store w)) = Some m"
    and m: "manifest_inv m" "SchemaVersion m = schemaVer (db_cfg db)" "Log m \<noteq> []"
    and st: "idle m (db_st db)" "st_conn (db_st db) = OpenConn d" "sq_vacuum X d = Inr d1"
    and io: "w_io w = [None, None, None, None, None, Some msg]"
  shows "\<exists>x db' w'. db_Compact X None db w = (Some x, db', w') \<and> View X None fn db' w' = Panic \<and>
    Update X None fn db' w' = Panic"
proof -
  let ?cfg = "db_cfg db" and ?path = "db_localPath db" and ?st = "(db_st db)\<lparr>st_manifest := m, st_etag := e\<rparr>"
  from refresh_idle [OF s(1,2) v m(1,2) st(1), of X ?path] obtain t where
    r: "refreshManifest X ?cfg None ?path (db_st db) w = (None, ?st, w\<lparr>w_store := t\<rparr>)" "invar t" "view t = view (w_store w)"
    by blast
  let ?k = "compactKey ?cfg (uuid_string X (w_uuid w))" and ?st1 = "?st\<lparr>st_conn := OpenConn d1\<rparr>"
  let ?w = "w\<lparr>w_store := t, w_io := [None, None, None, None, Some msg], w_uuid := Suc (w_uuid w)\<rparr>"
  have va: "vacuum X ?st (w\<lparr>w_store := t\<rparr>) = (None, ?st1, w\<lparr>w_store := t, w_io := [None, None, None, None, Some msg]\<rparr>)"
    using st(2,3) io by (simp add: vacuum_def local_call_def)
  from uploadSnapshot_no_reopen [of ?w ?st1 d1 msg X "''compact''" ?k ?path] r(2) obtain x b1 e1 w1 where
    u: "uploadSnapshot X store None ''compact'' ?k ?path ?st1 ?w = (Inl x, ?st1\<lparr>st_conn := ClosedConn\<rparr>, w1)"
      "invar (w_store w1)" "view (w_store w1) = (view t)(?k \<mapsto> (b1, e1))" by auto
  let ?st2 = "?st\<lparr>st_conn := ClosedConn\<rparr>"
  have "compactAttempt X ?cfg None ?path (db_st db) w = (Commit.Return (Some x), ?st2, w1)"
    using r(1) va u(1) m(3) s(2) by (simp add: compactAttempt_def new_uuid_def)
  moreover obtain n where "nat (maxRetries ?cfg) = Suc n" using s(4) by (cases "nat (maxRetries ?cfg)") auto
  ultimately have c: "db_Compact X None db w = (Some x, db\<lparr>db_st := ?st2\<rparr>, w1)"
    by (simp add: db_Compact_def compactLocked_def)
  have "?k \<noteq> manifestKey ?cfg" using s(3) by (simp add: wf_cfg_def compactKey_def)
  with u(3) r(3) v have v1: "view (w_store w1) (manifestKey ?cfg) = Some (b, e)"
    "man (manifestKey ?cfg) (view (w_store w1)) = Some m" by (simp_all add: man_upd)
  have "View X None fn (db\<lparr>db_st := ?st2\<rparr>) w1 = Panic \<and> Update X None fn (db\<lparr>db_st := ?st2\<rparr>) w1 = Panic"
    by (rule closed_panics [where m = m]) (use u(2) s(2) v1 m st(1) in \<open>simp_all add: idle_def\<close>)
  with c show ?thesis by blast
qed

end

context sole_client
begin

text \<open>
  An update whose \<^verbatim>\<open>RELEASE\<close>, its fifth local call, is interrupted: the savepoint, the session, its
  attachment and the changeset come before it.
\<close>

lemma Update_interrupted:
  assumes db: "db_cfg db = cfg" "0 < maxRetries cfg" "autoCompactAfter (db_opts db) \<le> 0"
    and s: "invar (w_store w)" "good X mk (view (w_store w))" "fresh (view (w_store w)) (w_uuid w)"
    and m: "man mk (view (w_store w)) = Some m" "replay X (view (w_store w)) m = Some d"
      "SchemaVersion m = schemaVer cfg" "idle m (db_st db)" "st_conn (db_st db) = OpenConn d"
    and fn: "fn d = (None, d', delta)" "sq_changeset X d d' \<noteq> []" "recordable X fn"
    and io: "w_io w = [None, None, None, None, Some msg]"
  shows "\<exists>db' w' m' b e. Update X None fn db w = Done ((None, None), db', w') \<and> db_cfg db' = cfg \<and> invar (w_store w') \<and>
    w_io w' = [] \<and> view (w_store w') mk = Some (b, e) \<and> man mk (view (w_store w')) = Some m' \<and> manifest_inv m' \<and>
    SchemaVersion m' = schemaVer cfg \<and> Seq m' = Seq m + 1 \<and> replay X (view (w_store w')) m' = Some d' \<and>
    idle m' (db_st db') \<and> st_conn (db_st db') = OpenConn d"
proof -
  from s(2) m(1) have im: "manifest_inv m" by (auto elim: good_man)
  from m(1) obtain b e where b: "view (w_store w) mk = Some (b, e)" by (auto simp: man_eq)
  let ?st = "(db_st db)\<lparr>st_manifest := m, st_etag := e\<rparr>"
  from refresh_idle [OF s(1) refl b m(1) im m(3,4), of X "db_localPath db"] obtain t where
    t: "refreshManifest X cfg None (db_localPath db) (db_st db) w = (None, ?st, w\<lparr>w_store := t\<rparr>)" "invar t"
      "view t = view (w_store w)" by blast
  let ?w = "w\<lparr>w_store := t\<rparr>"
  have "calm 4 ?w" using io by (simp add: calm_def)
  from doUpdate_cas [of ?w ?st d fn d' delta "db_localPath db", OF _ _ _ this db(2) _ _ _ _ _ fn] t s m b im
  obtain u nm e2 r st' w' where u: "releaseSave (Some d)
        (?st\<lparr>st_conn := OpenConn d', st_manifest := nm, st_etag := e2, localSeq := Seq nm\<rparr>)
        (?w\<lparr>w_io := drop 4 (w_io w), w_uuid := Suc (w_uuid w), w_store := u\<rparr>) = (r, st', w')"
    "doUpdate X cfg None (db_localPath db) fn ?st ?w = (None, st', w')" "invar u" "man mk (view u) = Some nm"
    "\<exists>b. view u mk = Some (b, e2)" "Seq nm = Seq m + 1" "Snapshot nm = Snapshot m" "SchemaVersion nm = SchemaVersion m"
    "coherent X mk (view u)" "replay X (view u) nm = Some d'"
    by (auto simp: current_def idle_def)
  from u(1) io have w': "w_io w' = []" "w_store w' = u"
    "st' = ?st\<lparr>st_conn := OpenConn d, st_manifest := nm, st_etag := e2, localSeq := Seq nm\<rparr>"
    by (auto simp: releaseSave_def local_call_def)
  have "Update X None fn db w = Done ((None, None), db\<lparr>db_st := st'\<rparr>, w')"
    using t(1) u(2) w'(3) m(5) db by (simp add: Update_def withInterrupt_def set_interrupt_def)
  moreover have "manifest_inv nm" using u(4,9) by (auto elim: coherent_man)
  moreover from u(5) obtain b2 where "view u mk = Some (b2, e2)" ..
  ultimately show ?thesis using u(3,4,6-8,10) w' m(3,4) db(1)
    by (intro exI [of _ "db\<lparr>db_st := st'\<rparr>"] exI [of _ w'] exI [of _ nm] exI [of _ b2] exI [of _ e2])
      (simp add: idle_def)
qed

lemma View_idle:
  assumes "db_cfg db = cfg" and "invar (w_store w)" and "w_io w = []" and "view (w_store w) mk = Some (b, e)"
    and "man mk (view (w_store w)) = Some m" and "manifest_inv m" and "SchemaVersion m = schemaVer cfg"
    and "idle m (db_st db)" and "st_conn (db_st db) = OpenConn d"
  shows "\<exists>db' w'. View X None fn db w = Done (fst (fn d), db', w')"
  using refresh_idle [OF assms(2) refl assms(4-8), of X "db_localPath db"] assms(1,3,9)
  by (auto simp: View_def withInterrupt_def set_interrupt_def viewTx_def split: prod.splits)

end

section \<open>Properties\<close>

text \<open>
  C18: a compaction that cannot reopen the local file returns an error and leaves the closed
  connection in the handle.  As long as nobody changes the database, the next \<^verbatim>\<open>View\<close> and the next
  \<^verbatim>\<open>Update\<close> panic, for every closure, even though the cause of the failure is gone.
\<close>

theorem failed_reopen_panics:
  assumes "exclusive_store (cfg_store (db_cfg db)) view invar" and "invar (w_store w)"
    and "wf_cfg (db_cfg db)" and "0 < maxRetries (db_cfg db)"
    and "view (w_store w) (manifestKey (db_cfg db)) = Some (b, e)"
    and "man (manifestKey (db_cfg db)) (view (w_store w)) = Some m"
    and "manifest_inv m" and "SchemaVersion m = schemaVer (db_cfg db)" and "Log m \<noteq> []"
    and "idle m (db_st db)" and "st_conn (db_st db) = OpenConn d" and "sq_vacuum X d = Inr d1"
    and "w_io w = [None, None, None, None, None, Some msg]"
  shows "\<exists>x db' w'. db_Compact X None db w = (Some x, db', w') \<and> View X None fn db' w' = Panic \<and>
    Update X None fn db' w' = Panic"
  using exclusive_store.Compact_no_reopen [OF assms(1,2) refl assms(3-)] .

definition next_db :: "(MemBlobStore, rows) DB" where
  "next_db = (sample_db mem_cfg)\<lparr>db_st := \<lparr>st_conn = OpenConn (CHR ''0'', CHR ''5''), localSeq = 1,
      snapshotKey = ''p/snapshots/s.sqlite'', st_manifest = next_manifest,
      st_etag = Compute sample_md5 (encode_manifest next_manifest)\<rparr>\<rparr>"

theorem failed_reopen_panics_witness:
  "\<exists>x db' w'. db_Compact rows_ext None next_db
      ((mem_world next_store)\<lparr>w_io := [None, None, None, None, None, Some ''too many open files'']\<rparr>) = (Some x, db', w') \<and>
    View rows_ext None (set_a CHR ''1'') db' w' = Panic \<and> Update rows_ext None (set_a CHR ''1'') db' w' = Panic"
proof (rule failed_reopen_panics [where view = mem_view and invar = "mem_invar sample_md5" and m = next_manifest])
  have c: "db_cfg next_db = mem_cfg" by (simp add: next_db_def sample_db_def)
  show "exclusive_store (cfg_store (db_cfg next_db)) mem_view (mem_invar sample_md5)"
    using sample.mem_exclusive by (simp add: c sample_cfg_defs)
  show "wf_cfg (db_cfg next_db)" using sample_wf by (simp add: c)
  show "man (manifestKey (db_cfg next_db)) (mem_view (w_store ((mem_world next_store)
      \<lparr>w_io := [None, None, None, None, None, Some ''too many open files'']\<rparr>))) = Some next_manifest"
    using next_man by (simp add: c sample_cfg_defs mem_world_def)
  show "mem_view (w_store ((mem_world next_store)\<lparr>w_io := [None, None, None, None, None, Some ''too many open files'']\<rparr>))
      (manifestKey (db_cfg next_db)) = Some (encode_manifest next_manifest, Compute sample_md5 (encode_manifest next_manifest))"
    by (simp add: c sample_cfg_defs mem_world_def next_view)
  show "manifest_inv next_manifest" by (rule next_wire)
  show "sq_vacuum rows_ext (CHR ''0'', CHR ''5'') = Inr (CHR ''0'', CHR ''5'')" by (simp add: rows_ext_def)
qed (simp_all add: next_db_def sample_db_def sample_cfg_defs mem_world_def base_invar next_manifest_def idle_def)

text \<open>
  C5: the commit loop does not survive an interrupted \<^verbatim>\<open>RELEASE\<close>.  When the context is cancelled
  right after the compare-and-swap, \<^verbatim>\<open>release(&err)\<close> rolls the connection back, but \<^verbatim>\<open>localSeq\<close> is
  advanced already and nil is returned: \<^verbatim>\<open>Update\<close> reports success, the database in the store holds what
  the closure made, the handle claims to be at the new sequence number, and its connection holds the
  old content.  The next \<^verbatim>\<open>View\<close>, with a live context, fetches nothing and runs on the old content:
  the client does not read its own committed write.
\<close>

theorem interrupted_release_diverges:
  assumes "sole_client (db_cfg db) view invar X gen" and "0 < maxRetries (db_cfg db)"
    and "autoCompactAfter (db_opts db) \<le> 0" and "invar (w_store w)"
    and "good X (manifestKey (db_cfg db)) (view (w_store w))"
    and "fresh_keys X (db_cfg db) gen (view (w_store w)) (w_uuid w)"
    and "man (manifestKey (db_cfg db)) (view (w_store w)) = Some m"
    and "replay X (view (w_store w)) m = Some d" and "SchemaVersion m = schemaVer (db_cfg db)"
    and "idle m (db_st db)" and "st_conn (db_st db) = OpenConn d"
    and "fn d = (None, d', delta)" and "sq_changeset X d d' \<noteq> []" and "recordable X fn"
    and "w_io w = [None, None, None, None, Some msg]"
  shows "\<exists>db' w' m' db'' w''. Update X None fn db w = Done ((None, None), db', w') \<and>
    man (manifestKey (db_cfg db)) (view (w_store w')) = Some m' \<and> Seq m' = Seq m + 1 \<and>
    replay X (view (w_store w')) m' = Some d' \<and> localSeq (db_st db') = Seq m' \<and>
    st_conn (db_st db') = OpenConn d \<and> View X None reader db' w' = Done (fst (reader d), db'', w'')"
proof -
  note sc = assms(1)
  obtain db' w' m' b e where u: "Update X None fn db w = Done ((None, None), db', w')" "db_cfg db' = db_cfg db"
    "invar (w_store w')" "w_io w' = []" "view (w_store w') (manifestKey (db_cfg db)) = Some (b, e)"
    "man (manifestKey (db_cfg db)) (view (w_store w')) = Some m'" "manifest_inv m'"
    "SchemaVersion m' = schemaVer (db_cfg db)" "Seq m' = Seq m + 1" "replay X (view (w_store w')) m' = Some d'"
    "idle m' (db_st db')" "st_conn (db_st db') = OpenConn d"
    using sole_client.Update_interrupted [OF sc refl assms(2-)] by blast
  from sole_client.View_idle [OF sc u(2-8,11,12), of reader] u show ?thesis
    by (fastforce simp: idle_def)
qed

text \<open>A reader that reports an error unless row \<open>a\<close> is still 0.\<close>

definition reads_a0 :: "rows txn" where
  "reads_a0 d = (if fst d = CHR ''0'' then None else Some (OtherErr ''a is not 0''), d, 0)"

theorem interrupted_release_diverges_witness:
  "\<exists>db' w' m' db'' w''. Update rows_ext None (set_a CHR ''1'') next_db
       ((mem_world next_store)\<lparr>w_io := [None, None, None, None, Some ''interrupted'']\<rparr>) = Done ((None, None), db', w') \<and>
     replay rows_ext (mem_view (w_store w')) m' = Some (CHR ''1'', CHR ''5'') \<and> localSeq (db_st db') = 2 \<and>
     st_conn (db_st db') = OpenConn (CHR ''0'', CHR ''5'') \<and> View rows_ext None reads_a0 db' w' = Done (None, db'', w'')"
proof -
  let ?w = "(mem_world next_store)\<lparr>w_io := [None, None, None, None, Some ''interrupted'']\<rparr>"
  have c: "db_cfg next_db = mem_cfg" "manifestKey mem_cfg = ''p/manifest.json''" "maxRetries mem_cfg = 10"
    "autoCompactAfter (db_opts next_db) = 0" "schemaVer mem_cfg = SchemaVersion next_manifest" "Seq next_manifest = 1"
    "w_store ?w = next_store" "w_uuid ?w = w_uuid (mem_world next_store)"
    by (simp_all add: next_db_def sample_db_def sample_cfg_defs mem_world_def defaultOptions_def next_manifest_def)
  have i: "idle next_manifest (db_st next_db)" "st_conn (db_st next_db) = OpenConn (CHR ''0'', CHR ''5'')"
    by (simp_all add: next_db_def idle_def next_manifest_def)
  have o: "opened rows_ext sample_gen mem_view (mem_invar sample_md5) (sample_db mem_cfg) (mem_world next_store)
      next_manifest (CHR ''0'', CHR ''5'')" by (rule sample_opened)
  have cs: "sq_changeset rows_ext (CHR ''0'', CHR ''5'') (CHR ''1'', CHR ''5'') \<noteq> []"
    by (simp add: rows_ext_def rows_changeset_def)
  have "fst (reads_a0 (CHR ''0'', CHR ''5'')) = None" by (simp add: reads_a0_def)
  with interrupted_release_diverges [of next_db mem_view "mem_invar sample_md5" rows_ext sample_gen ?w next_manifest
      "(CHR ''0'', CHR ''5'')" "set_a CHR ''1''" "(CHR ''1'', CHR ''5'')" 1 "''interrupted''" reads_a0]
    alone.sole_client_axioms o c i cs rows_recordable show ?thesis
    by (fastforce simp: opened_def staged_def set_a_def sample_db_def mem_world_def)
qed

end
