(* ===== verification/Lifetime.thy ===== *)
theory Lifetime
  imports Compact_Safety Operations Sample
begin

text \<open>
  The life of a handle on a shared database as a step relation: between its calls other clients act,
  local files and the outcomes of the coming local calls change at will, and the handle updates
  (\<^verbatim>\<open>Update\<close>, with automatic compaction off and none of the two mishaps of \<open>no_wedge\<close>) and compacts
  (\<^verbatim>\<open>Compact\<close>), with success or an error.  The invariant of the steps is that the database can be
  replayed and the handle holds the content at its sequence number.
\<close>

section \<open>Steps\<close>

text \<open>
  What an update step must not run into: a rollback after a clean rebase, and a \<^verbatim>\<open>RELEASE\<close> that is
  interrupted after the compare-and-swap.  Either leaves a sequence number on the handle that its
  connection is not at.
\<close>

definition no_wedge :: "'db ext \<Rightarrow> ctx \<Rightarrow> 'db txn \<Rightarrow> ('s, 'db) DB \<Rightarrow> 's world \<Rightarrow> bool" where
  "no_wedge X ctx fn db w =
     (case refreshManifest X (db_cfg db) ctx (db_localPath db) (db_st db) w of
        (None, st, w) \<Rightarrow>
          \<not> rolls_back_rebase X (db_cfg db) ctx (db_localPath db) fn (nat (maxRetries (db_cfg db))) 0 initLoop st w \<and>
          \<not> interrupted_release X (db_cfg db) ctx (db_localPath db) fn (nat (maxRetries (db_cfg db))) 0 initLoop st w
      | _ \<Rightarrow> True)"

inductive lifetime ::
  "'db ext \<Rightarrow> ('s \<Rightarrow> objs) \<Rightarrow> ('s \<Rightarrow> bool) \<Rightarrow> (objs \<Rightarrow> objs \<Rightarrow> bool) \<Rightarrow>
     ('s, 'db) DB \<times> 's world \<Rightarrow> ('s, 'db) DB \<times> 's world \<Rightarrow> bool"
  for X :: "'db ext" and view :: "'s \<Rightarrow> objs" and invar :: "'s \<Rightarrow> bool" and env :: "objs \<Rightarrow> objs \<Rightarrow> bool"
    and s0 :: "('s, 'db) DB \<times> 's world" where
  born: "lifetime X view invar env s0 s0"
| others_act: "lifetime X view invar env s0 (db, w) \<Longrightarrow> room (manifestKey (db_cfg db)) (view (w_store w)) \<Longrightarrow>
    invar (w_store w') \<Longrightarrow> env (view (w_store w)) (view (w_store w')) \<Longrightarrow> w_uuid w' = w_uuid w \<Longrightarrow>
    lifetime X view invar env s0 (db, w')"
| updates: "lifetime X view invar env s0 (db, w) \<Longrightarrow> room (manifestKey (db_cfg db)) (view (w_store w)) \<Longrightarrow>
    autoCompactAfter (db_opts db) \<le> 0 \<Longrightarrow> recordable X fn \<Longrightarrow> no_wedge X ctx fn db w \<Longrightarrow>
    Update X ctx fn db w = Done (r, db', w') \<Longrightarrow> lifetime X view invar env s0 (db', w')"
| compacts: "lifetime X view invar env s0 (db, w) \<Longrightarrow> room (manifestKey (db_cfg db)) (view (w_store w)) \<Longrightarrow>
    db_Compact X ctx db w = (x, db', w') \<Longrightarrow> lifetime X view invar env s0 (db', w')"

section \<open>The invariant\<close>

text \<open>What holds of a handle and the world at every point of its life that started at the view \<open>u\<close>.\<close>

definition alive ::
  "'db ext \<Rightarrow> 's commitConfig \<Rightarrow> (string \<Rightarrow> nat) \<Rightarrow> (string \<Rightarrow> string set) \<Rightarrow> ('s \<Rightarrow> objs) \<Rightarrow> ('s \<Rightarrow> bool) \<Rightarrow>
     objs \<Rightarrow> ('s, 'db) DB \<Rightarrow> 's world \<Rightarrow> bool" where
  "alive X cfg gen others view invar u db w \<longleftrightarrow>
     db_cfg db = cfg \<and> invar (w_store w) \<and> coherent X (manifestKey cfg) (view (w_store w)) \<and>
     evolves gen (manifestKey cfg) others u (view (w_store w)) \<and>
     fresh_keys X cfg gen (view (w_store w)) (w_uuid w) \<and>
     handle_ok X gen (manifestKey cfg) (view (w_store w)) (db_st db) \<and>
     linked_to (manifestKey cfg) view invar (st_manifest (db_st db)) (st_etag (db_st db))"

context client
begin

abbreviation "lives \<equiv> alive X cfg gen others view invar"

lemma lives_env:
  assumes "lives u db w" and "room mk (view (w_store w))" and "invar (w_store w')"
    and "env (view (w_store w)) (view (w_store w'))" and "w_uuid w' = w_uuid w"
  shows "lives u db w'"
proof -
  have g: "good X mk (view (w_store w))" using assms(1,2) by (simp add: alive_def good_def)
  with rely_good [OF assms(4) g] rely_others [OF assms(4) g] fresh_env [OF assms(4) g] handle_ok_env [OF assms(4) g]
    assms show ?thesis by (auto simp: alive_def good_def intro: evolves_trans)
qed

lemma lives_refresh:
  assumes "lives u db w" and "room mk (view (w_store w))" and "refreshManifest X cfg ctx path (db_st db) w = (x, st, w')"
  shows "lives u (db\<lparr>db_st := st\<rparr>) w'" and "good X mk (view (w_store w'))" and "x = None \<Longrightarrow> synced st"
proof -
  have g: "good X mk (view (w_store w))" using assms(1,2) by (simp add: alive_def good_def)
  from refresh_spec [OF _ g _ _ assms(3)] assms(1) have r: "invar (w_store w')" "env (view (w_store w)) (view (w_store w'))"
    "w_uuid w' = w_uuid w" "handle_ok X gen mk (view (w_store w')) st" "linked (st_manifest st) (st_etag st)"
    "x = None \<longrightarrow> synced st" by (auto simp: alive_def)
  from lives_env [OF assms(1,2) r(1-3)] r show "lives u (db\<lparr>db_st := st\<rparr>) w'" by (simp add: alive_def)
  show "good X mk (view (w_store w'))" using rely_good [OF r(2) g] .
  show "x = None \<Longrightarrow> synced st" using r(6) by simp
qed

lemma lives_settled:
  assumes "lives u db w" and "settled (view (w_store w)) (view (w_store w')) (w_uuid w')" and "invar (w_store w')"
    and "handle_ok X gen mk (view (w_store w')) st" and "linked (st_manifest st) (st_etag st)"
  shows "lives u (db\<lparr>db_st := st\<rparr>) w'"
  using assms by (auto simp: alive_def settled_def intro: evolves_trans)

lemma lives_Update:
  assumes l: "lives u db w" and room: "room mk (view (w_store w))" and auto: "autoCompactAfter (db_opts db) \<le> 0"
    and fn: "recordable X fn" "no_wedge X ctx fn db w" and up: "Update X ctx fn db w = Done (r, db', w')"
  shows "lives u db' w'"
proof -
  have c: "db_cfg db = cfg" using l by (simp add: alive_def)
  obtain x st1 w1 where r: "refreshManifest X cfg ctx (db_localPath db) (db_st db) w = (x, st1, w1)" by (metis prod_cases3)
  note R = lives_refresh [OF l room r]
  show ?thesis
  proof (cases x)
    case (Some e)
    with up r c R(1) show ?thesis by (simp add: Update_def Let_def)
  next
    case None
    obtain y st2 w2 where d: "doUpdate X cfg ctx (db_localPath db) fn st1 w1 = (y, st2, w2)" by (metis prod_cases3)
    have nr: "\<not> rolls_back_rebase X cfg ctx (db_localPath db) fn (nat (maxRetries cfg)) 0 initLoop st1 w1"
      "\<not> interrupted_release X cfg ctx (db_localPath db) fn (nat (maxRetries cfg)) 0 initLoop st1 w1"
      using fn(2) r None c by (simp_all add: no_wedge_def)
    have "invar (w_store w1)" "fresh (view (w_store w1)) (w_uuid w1)" "handle_ok X gen mk (view (w_store w1)) st1"
      "linked (st_manifest st1) (st_etag st1)" using R(1) by (simp_all add: alive_def)
    from doUpdate_spec [OF this(1) R(2) this(2,3) R(3) [OF None] this(4) fn(1) d nr(1)]
    have "lives u (db\<lparr>db_st := st2\<rparr>) w2" using lives_settled [OF R(1)] nr(2) by simp
    moreover have "db' = db\<lparr>db_st := st2\<rparr> \<and> w' = w2"
      using up r None d c auto
      by (auto simp: Update_def Let_def withInterrupt_def split: if_splits conn.splits option.splits)
    ultimately show ?thesis by simp
  qed
qed

lemma lives_Compact:
  assumes l: "lives u db w" and room: "room mk (view (w_store w))" and c: "db_Compact X ctx db w = (x, db', w')"
  shows "lives u db' w'"
proof -
  have g: "good X mk (view (w_store w))" using l room by (simp add: alive_def good_def)
  from c l obtain st' where st': "compactLocked X cfg ctx (db_localPath db) (db_st db) w = (x, st', w')"
    "db' = db\<lparr>db_st := st'\<rparr>" by (auto simp: db_Compact_def alive_def split: prod.splits)
  have "invar (w_store w)" "fresh (view (w_store w)) (w_uuid w)" "handle_ok X gen mk (view (w_store w)) (db_st db)"
    "linked (st_manifest (db_st db)) (st_etag (db_st db))" using l by (simp_all add: alive_def)
  from compactLocked_spec [OF this(1) g this(2-4) st'(1)] show ?thesis unfolding st'(2) by (intro lives_settled [OF l]) simp_all
qed

lemma lifetime_lives:
  assumes "lifetime X view invar env s0 s" and "case s0 of (db, w) \<Rightarrow> lives u db w"
  shows "case s of (db, w) \<Rightarrow> lives u db w"
  using assms
proof (induction rule: lifetime.induct)
  case (others_act db w w')
  then have "lives u db w" "db_cfg db = cfg" by (simp_all add: alive_def)
  with lives_env [OF this(1) _ others_act(3-5)] others_act(2) show ?case by simp
next
  case (updates db w fn ctx r db' w')
  then have "lives u db w" "db_cfg db = cfg" by (simp_all add: alive_def)
  with lives_Update [OF this(1) _ updates(3-6)] updates(2) show ?case by simp
next
  case (compacts db w ctx x db' w')
  then have "lives u db w" "db_cfg db = cfg" by (simp_all add: alive_def)
  with lives_Compact [OF this(1) _ compacts(3)] compacts(2) show ?case by simp
qed

end

text \<open>An update of a client that has the store to itself runs into none of the mishaps.\<close>

context sole_client
begin

lemma no_wedge_alone:
  assumes a: "start db w m d" and n: "0 < maxRetries cfg"
    and fn: "fn d = (None, d', delta)" "sq_changeset X d d' \<noteq> []" "recordable X fn"
  shows "no_wedge X None fn db w"
proof -
  obtain st t f where r: "refreshManifest X cfg None (db_localPath db) (db_st db) w =
      (None, st, w\<lparr>w_store := t, w_disk := f\<rparr>)"
    and t: "invar t" "view t = view (w_store w)" "current mk (view t) st" "st_conn st = OpenConn d"
    "st_manifest st = m" "localSeq st = Seq m" "snapshotKey st = bKey (Snapshot m)"
    by (rule refreshed [OF a]) blast
  let ?w = "w\<lparr>w_store := t, w_disk := f\<rparr>" and ?st = "st\<lparr>st_conn := OpenConn d'\<rparr>"
  have io: "w_io ?w = []" using a by (simp add: start_def)
  have "invar (w_store ?w)" "good X mk (view (w_store ?w))" "fresh (view (w_store ?w)) (w_uuid ?w)"
    "current mk (view (w_store ?w)) st" "localSeq st = Seq (st_manifest st)"
    "snapshotKey st = bKey (Snapshot (st_manifest st))" "replay X (view (w_store ?w)) (st_manifest st) = Some d"
    using a t by (auto simp: start_def)
  from cas_update_alone [OF this(1-3) calm_empty [OF io] t(4) this(4-7) fn(1) refl fn(2,3) refl refl] io
  obtain ls w1 w2 e nm where u: "beginAttempt X cfg None fn 0 initLoop st ?w = (Again, ls, ?st, w1)"
    "casManifest cfg None ls ?st w1 = ((Inr e, nm), w2)" "w_io w2 = []" by fastforce
  obtain n' where "nat (maxRetries cfg) = Suc n'" using n by (metis gr0_conv_Suc zero_less_nat_eq)
  with a r u show ?thesis
    by (simp add: no_wedge_def updateAttempt_def phaseCommit_def release_fails_def releaseSave_def initLoop_def)
qed

end

section \<open>Properties\<close>

text \<open>
  C2: the invariant of a handle's life, under the conditions of the step relation: automatic
  compaction is off, the closures change only what sessions record, no update rolls back after a
  clean rebase or has its \<^verbatim>\<open>RELEASE\<close> interrupted after the compare-and-swap, other clients keep to
  the protocol, and the sequence number has room to grow.  Then, in whatever order the updates, the
  compactions and the acts of other clients come and whether they return errors or not, the database
  in the store can be replayed, has changed only in the way other clients expect, and the connection
  of the handle, if it is open, holds the content at its sequence number.
\<close>

theorem lifetime_safe:
  assumes "client (db_cfg db) view invar env X gen others"
    and "invar (w_store w)" and "coherent X (manifestKey (db_cfg db)) (view (w_store w))"
    and "fresh_keys X (db_cfg db) gen (view (w_store w)) (w_uuid w)"
    and "handle_ok X gen (manifestKey (db_cfg db)) (view (w_store w)) (db_st db)"
    and "linked_to (manifestKey (db_cfg db)) view invar (st_manifest (db_st db)) (st_etag (db_st db))"
    and "lifetime X view invar env (db, w) (db', w')"
  shows "coherent X (manifestKey (db_cfg db)) (view (w_store w')) \<and>
    evolves gen (manifestKey (db_cfg db)) others (view (w_store w)) (view (w_store w')) \<and>
    handle_ok X gen (manifestKey (db_cfg db)) (view (w_store w')) (db_st db') \<and> db_cfg db' = db_cfg db"
  using client.lifetime_lives [OF assms(1,7), of "view (w_store w)"] assms(2-6)
  by (simp add: alive_def evolves_refl)

text \<open>The sample client, with the store to itself, is a client whose environment does nothing.\<close>

lemma sample_client: "client mem_cfg mem_view (mem_invar sample_md5) (=) rows_ext sample_gen (\<lambda>ep. {})"
proof (rule client.intro)
  show "cas_store (cfg_store mem_cfg) mem_view (mem_invar sample_md5) (=)"
    using exclusive_store.axioms(1) [OF sample.mem_exclusive] by (simp add: sample_cfg_defs)
  show "client_axioms mem_cfg (=) rows_ext sample_gen (\<lambda>ep. {})"
    using rows_laws sample_gen_law sample_wf by unfold_locales (auto simp: rely_refl)
qed

theorem lifetime_safe_witness:
  "\<exists>db1 w1 x db' w'. Update rows_ext None (set_a CHR ''1'') (sample_db mem_cfg) (mem_world next_store) =
       Done ((None, None), db1, w1) \<and> db_Compact rows_ext None db1 w1 = (x, db', w') \<and>
     lifetime rows_ext mem_view (mem_invar sample_md5) (=) (sample_db mem_cfg, mem_world next_store) (db', w') \<and>
     coherent rows_ext ''p/manifest.json'' (mem_view (w_store w')) \<and>
     handle_ok rows_ext sample_gen ''p/manifest.json'' (mem_view (w_store w')) (db_st db')"
proof -
  let ?db = "sample_db mem_cfg" and ?w = "mem_world next_store" and ?fn = "set_a CHR ''1''"
  let ?life = "lifetime rows_ext mem_view (mem_invar sample_md5) (=) (?db, ?w)"
  have c: "db_cfg ?db = mem_cfg" "manifestKey mem_cfg = ''p/manifest.json''" "maxRetries mem_cfg = 10" "w_store ?w = next_store"
    "autoCompactAfter (db_opts ?db) = 0" "Seq next_manifest = 1" "max_int64 > 2"
    by (simp_all add: sample_db_def sample_cfg_defs mem_world_def defaultOptions_def next_manifest_def max_int64_def)
  have fn: "?fn (CHR ''0'', CHR ''5'') = (None, (CHR ''1'', CHR ''5''), 1)"
    "sq_changeset rows_ext (CHR ''0'', CHR ''5'') (CHR ''1'', CHR ''5'') \<noteq> []" "recordable rows_ext ?fn"
    using rows_recordable by (simp_all add: set_a_def rows_ext_def rows_changeset_def)
  have nw: "no_wedge rows_ext None ?fn ?db ?w"
    using alone.no_wedge_alone [OF _ _ fn, of ?db ?w next_manifest] sample_opened c by simp
  from alone.Update_alone [OF _ _ _ fn, of ?db ?w next_manifest] sample_opened c obtain db1 w1 m1 where
    u: "Update rows_ext None ?fn ?db ?w = Done ((None, None), db1, w1)"
      "man ''p/manifest.json'' (mem_view (w_store w1)) = Some m1" "Seq m1 = 2" by auto
  obtain x db' w' where k: "db_Compact rows_ext None db1 w1 = (x, db', w')" by (metis prod_cases3)
  have "room ''p/manifest.json'' (mem_view next_store)" using sample_good(2) by (simp add: good_def)
  with u(1) c fn(3) nw have l1: "?life (db1, w1)" by (intro updates [OF born]) simp_all
  have "linked_to ''p/manifest.json'' mem_view (mem_invar sample_md5) base_manifest
      (Compute sample_md5 (encode_manifest base_manifest))"
    using base_invar(1) base_wire decode_encode_manifest unfolding linked_to_def
    by (intro exI [of _ base_store]) (simp add: base_view)
  then have safe: "coherent rows_ext (manifestKey (db_cfg ?db)) (mem_view (w_store w2)) \<and>
    evolves sample_gen (manifestKey (db_cfg ?db)) (\<lambda>ep. {}) (mem_view (w_store ?w)) (mem_view (w_store w2)) \<and>
    handle_ok rows_ext sample_gen (manifestKey (db_cfg ?db)) (mem_view (w_store w2)) (db_st db2) \<and> db_cfg db2 = db_cfg ?db"
    if "?life (db2, w2)" for db2 w2
    using sample_opened sample_client c
    by (intro lifetime_safe [OF _ _ _ _ _ _ that])
      (simp_all add: opened_def staged_def good_def sample_db_def base_handle_def)
  have l: "?life (db', w')"
    using safe [OF l1] k u c by (intro compacts [OF l1]) (simp_all add: room_def)
  show ?thesis using safe [OF l] l c u(1) k by auto
qed

end
