(* ===== verification/Spec2Isabelle.thy ===== *)
theory Spec2Isabelle
  imports Runs Exchange Fs_Alone Tool Reopen Lifetime
begin

text \<open>
  \<^bold>\<open>s3db\<close> is a SQLite database kept in an object store: a snapshot (a SQLite file), a log of changesets
  recorded by SQLite sessions, and one JSON object, the manifest, that names them.  Clients hold a
  local copy; a write captures a changeset, uploads it and appends it to the log by a
  compare-and-swap on the ETag of the manifest; a loser rebases its changeset over those of the
  winners or runs its closure again.  Compaction replaces snapshot and log by a new snapshot, garbage
  collection removes what no manifest names, migrations run schema changes and install a snapshot.
  Stores are in memory, in a directory, or in S3; a command line tool moves whole databases.

  \<^bold>\<open>Theories and sources\<close> (file names below \<^verbatim>\<open>src/\<close>)

  \<^item> \<^verbatim>\<open>Prelude\<close>, \<^verbatim>\<open>Strconv\<close>: 64-bit integers with their wrap-around, the errors of \<^verbatim>\<open>errors.go\<close> with
    \<^verbatim>\<open>errors.Is\<close>, and what is used of Go's \<^verbatim>\<open>strings\<close>, \<^verbatim>\<open>path\<close>, \<^verbatim>\<open>time\<close>, \<^verbatim>\<open>strconv\<close>.
  \<^item> \<^verbatim>\<open>Etag\<close>: \<^verbatim>\<open>internal/etag/etag.go\<close>.  \<^verbatim>\<open>Blob\<close>: the interface of \<^verbatim>\<open>blob.go\<close> as a record of
    operations, and its contract as the locales \<open>cas_store\<close> (other clients and failures) and
    \<open>exclusive_store\<close> (one client, no failures).
  \<^item> \<^verbatim>\<open>Blob_Mem\<close>: \<^verbatim>\<open>blob_mem.go\<close>.  \<^verbatim>\<open>Fs_Tree\<close>, \<^verbatim>\<open>Blob_Fs\<close>, \<^verbatim>\<open>Fs_Contract\<close>, \<^verbatim>\<open>Fs_Alone\<close>: \<^verbatim>\<open>blob_fs.go\<close> over a model
    of \<^verbatim>\<open>os.Root\<close>, its contract, and its equivalence with the in-memory store.  \<^verbatim>\<open>Blob_S3\<close>: \<^verbatim>\<open>blob_s3.go\<close>
    over a record of the AWS client calls.  Each store interprets the locales of \<^verbatim>\<open>Blob\<close>.
    \<^verbatim>\<open>Blob_Shared\<close>, which stands for no code, puts a store behind a network with other clients, as an
    instance of the contract for concrete runs.
  \<^item> \<^verbatim>\<open>Json\<close>, \<^verbatim>\<open>Manifest\<close>: \<^verbatim>\<open>encoding/json\<close> as far as it is used, and \<^verbatim>\<open>manifest.go\<close>.
  \<^item> \<^verbatim>\<open>Runtime\<close>: SQLite and UUIDs as parameters, the local files and the outcomes of local calls.
    \<^verbatim>\<open>Apply\<close>: \<^verbatim>\<open>apply.go\<close>.  \<^verbatim>\<open>Session\<close>: \<^verbatim>\<open>session.go\<close>.  \<^verbatim>\<open>Sync\<close>: \<^verbatim>\<open>sync.go\<close>.
  \<^item> \<^verbatim>\<open>Commit\<close>: \<^verbatim>\<open>commit.go\<close>.  \<^verbatim>\<open>Compact\<close>: \<^verbatim>\<open>compact.go\<close>.  \<^verbatim>\<open>Gc\<close>: \<^verbatim>\<open>gc.go\<close>.  \<^verbatim>\<open>Migrate\<close>: \<^verbatim>\<open>migrate.go\<close>.
    \<^verbatim>\<open>Database\<close>: \<^verbatim>\<open>options.go\<close> and \<^verbatim>\<open>s3db.go\<close>.  \<^verbatim>\<open>Pullpush\<close>: \<^verbatim>\<open>pullpush.go\<close>.  \<^verbatim>\<open>Cli\<close>: \<^verbatim>\<open>cmd/s3db/main.go\<close>.
  \<^item> \<^verbatim>\<open>Coherence\<close>: the abstract specification, a replayable database and how others may change it.
    \<^verbatim>\<open>Handle\<close>, \<^verbatim>\<open>Commit_Safety\<close>, \<^verbatim>\<open>Compact_Safety\<close>, \<^verbatim>\<open>Gc_Safety\<close>: the operations among other clients
    (locale \<open>client\<close>).  \<^verbatim>\<open>Alone\<close>, \<^verbatim>\<open>Operations\<close>, \<^verbatim>\<open>Migrate_Alone\<close>, \<^verbatim>\<open>Exchange\<close>: the operations of one
    client (locale \<open>sole_client\<close>).  \<^verbatim>\<open>Sample\<close>, \<^verbatim>\<open>Runs\<close>: a small database, its clients as
    interpretations, and concrete runs.  \<^verbatim>\<open>Lifetime\<close>: the life of a handle as a step relation.  \<^verbatim>\<open>Reopen\<close>: handles after a failed reopening
    and after an interrupted \<^verbatim>\<open>RELEASE\<close>.  \<^verbatim>\<open>Tool\<close>: the
    tool's pull, edit and push workflow.

  \<^bold>\<open>How state and operations correspond.\<close>  A struct is a record with the source's field names
  (prefixed where two structs share one), a method is a function of the same name with the state as
  its last arguments and in its result, an error is a value of \<open>err + 'a\<close> or \<open>err option\<close>, with the
  wrapping of \<^verbatim>\<open>%w\<close> kept.  A panic is the value \<open>Panic\<close>.  \<^verbatim>\<open>int64\<close> is an integer in its range, with
  the wrap-around written out.  The state of a program is a \<open>world\<close>: the store, the local files, the
  list of the outcomes of the coming local calls, and the number of UUIDs drawn; interference enters
  between any two store calls through the relation \<open>env\<close> of the contract.

  \<^bold>\<open>What is shown.\<close>  Among other clients and failing calls: the commit loop, compaction and refresh
  keep the database replayable and the handle on the content of its sequence number.  For the commit
  loop this is conditional: it excludes a rollback after a clean rebase, and a run shows that such a
  rollback leaves a log nobody can replay; and for the handle it excludes a \<^verbatim>\<open>RELEASE\<close> that is
  interrupted after the compare-and-swap, and a theorem shows that the handle then reads old content
  for good.  A run of garbage collection beside a compaction and a commit removes live changesets.
  Under the same two conditions, with automatic compaction off and closures whose changes sessions
  record, these add up to an invariant of every state a handle reaches by updates and compactions
  with others in between.  For one client: every public operation does what its comment says, on success and on
  error, migrations end, a database that is initialised from a file is pulled back byte for byte.
  For the stores: each keeps the contract, and the one on files equals the one in memory.  For the
  manifest: round trip, ranges, validity and its preservation.  For the tool: its flags and
  targets, and that a push after a pull is refused exactly when the database has advanced.

  \<^bold>\<open>Bounds and fuel.\<close>  The JSON reader recurses on a fuel that is a function of the length of the input
  (\<open>json_fuel\<close>), which the round trip shows to be enough for what is written; the walk of a directory
  has the depth of the longest path the kernel accepts (4096); temporary names are tried ten times, as
  in the source; the retries of the commit and the compaction loop are their number of attempts;
  the loop of the migrations is a partial function whose value is shown to exist.

  \<^bold>\<open>Parameters.\<close>  SQLite (opening a file, recording and applying a changeset, \<^verbatim>\<open>VACUUM\<close>,
  \<^verbatim>\<open>quick_check\<close>, \<^verbatim>\<open>total_changes\<close>) with its documented laws as named predicates, MD5 with the
  idealisation that different bodies have different digests (the locale \<open>digest\<close>; without it no
  compare-and-swap on ETags is sound), \<^verbatim>\<open>uuid.NewString\<close>, \<^verbatim>\<open>flock\<close>, the AWS client, the environment,
  \<^verbatim>\<open>time.ParseDuration\<close> and the clock.

  \<^bold>\<open>Not modelled.\<close>  The programs below \<^verbatim>\<open>examples/\<close>, which only call the library and print; the texts
  inside error values beyond a fixed message, and what the flag package prints; the mutex of a handle,
  since every public method holds it from start to end; the goroutines of a parallel download, which
  write disjoint ranges and are run in order; the use of a handle after \<^verbatim>\<open>Close\<close>; a \<^verbatim>\<open>ROLLBACK\<close> that
  fails, on which \<^verbatim>\<open>sqlitex.Save\<close> panics.  The context of a call is cancelled before it or not at all;
  a cancellation in between is the failure of the store and local calls after it, which the lists of
  outcomes and the contract allow at every point.

  \<^bold>\<open>Small deviations.\<close>  The name of a new snapshot is drawn before the connection is closed, not after;
  the decoder has no nesting limit, decodes a repeated \<^verbatim>\<open>log\<close> key into a fresh slice, and wants the body
  read to its end; while a process holds the lock of the filesystem store, the directories and
  temporary files that others make outside the lock appear only before and after, which touches no
  object.
\<close>

section \<open>Clients that share a database\<close>

text \<open>
  C1: conditional safety of the commit loop under interference.  Take a run of \<^verbatim>\<open>doUpdate\<close> on a
  synchronised handle, with a closure whose changes the session records, that does not roll back to
  its savepoint after a clean rebase: once an attempt has rebased cleanly, every later attempt
  commits or rebases cleanly again (a run that does not is shown unsafe below).  Then, whatever other
  clients do within the rules of the protocol and however the store and the local calls fail, the
  run leaves a database that can be replayed and that has only extended the log or moved to a
  younger snapshot as far as others can tell.  If moreover the \<^verbatim>\<open>RELEASE\<close> after the compare-and-swap
  is not interrupted (shown unsafe in theory \<^verbatim>\<open>Reopen\<close>), the handle's connection holds the content at its sequence
  number.
\<close>

theorem update_safe:
  assumes "client cfg view invar env X gen others"
    and "invar (w_store w)" and "good X (manifestKey cfg) (view (w_store w))"
    and "fresh_keys X cfg gen (view (w_store w)) (w_uuid w)"
    and "handle_ok X gen (manifestKey cfg) (view (w_store w)) st" and "synced st"
    and "linked_to (manifestKey cfg) view invar (st_manifest st) (st_etag st)"
    and "recordable X fn"
    and "\<not> rolls_back_rebase X cfg ctx path fn (nat (maxRetries cfg)) 0 initLoop st w"
    and "doUpdate X cfg ctx path fn st w = (x, st', w')"
  shows "coherent X (manifestKey cfg) (view (w_store w')) \<and>
    evolves gen (manifestKey cfg) others (view (w_store w)) (view (w_store w')) \<and>
    linked_to (manifestKey cfg) view invar (st_manifest st') (st_etag st') \<and>
    (\<not> interrupted_release X cfg ctx path fn (nat (maxRetries cfg)) 0 initLoop st w \<longrightarrow>
       handle_ok X gen (manifestKey cfg) (view (w_store w')) st')"
  using client.doUpdate_spec [OF assms(1-8,10,9)] client.settled_def [OF assms(1)] by simp

theorem update_safe_witness:
  "\<exists>x st' w'. doUpdate rows_ext sample_cfg None ''db'' (set_a CHR ''1'') base_handle (sample_world [join]) =
     (x, st', w') \<and> x = None \<and>
   coherent rows_ext ''p/manifest.json'' (mem_view (sh_base (w_store w'))) \<and>
   evolves sample_gen ''p/manifest.json'' (\<lambda>ep. {}) (mem_view base_store) (mem_view (sh_base (w_store w'))) \<and>
   handle_ok rows_ext sample_gen ''p/manifest.json'' (mem_view (sh_base (w_store w'))) st'"
proof -
  obtain st' w' where r: "doUpdate rows_ext sample_cfg None ''db'' (set_a CHR ''1'') base_handle
      (sample_world [join]) = (None, st', w')" using rebase_run(3) by blast
  have "coherent rows_ext (manifestKey sample_cfg) (shared_view mem_view (w_store w')) \<and>
    evolves sample_gen (manifestKey sample_cfg) (\<lambda>ep. {}) (shared_view mem_view (w_store (sample_world [join])))
      (shared_view mem_view (w_store w')) \<and>
    linked_to (manifestKey sample_cfg) (shared_view mem_view)
      (shared_invar mem_view (mem_invar sample_md5) sample_env) (st_manifest st') (st_etag st') \<and>
    (\<not> interrupted_release rows_ext sample_cfg None ''db'' (set_a CHR ''1'') (nat (maxRetries sample_cfg)) 0
        initLoop base_handle (sample_world [join]) \<longrightarrow>
       handle_ok rows_ext sample_gen (manifestKey sample_cfg) (shared_view mem_view (w_store w')) st')"
  proof (rule update_safe [OF together.client_axioms join_invar _ _ _ _ _ rows_recordable _ r])
    show "\<not> rolls_back_rebase rows_ext sample_cfg None ''db'' (set_a CHR ''1'') (nat (maxRetries sample_cfg)) 0
        initLoop base_handle (sample_world [join])" using rebase_run(1) by simp
  qed (simp_all add: sample_start)
  with r show ?thesis using sample_start(1) rebase_run(2) by (simp add: shared_view_def)
qed

text \<open>
  C3: an update by a client that has the store to itself commits, whatever the handle had seen
  before: \<^verbatim>\<open>Update\<close> returns no error, the log grows by one entry, and the database in the store is
  what the closure made of its content.
\<close>

theorem update_commits:
  assumes "sole_client (db_cfg db) view invar X gen" and "opened X gen view invar db w m d"
    and "0 < maxRetries (db_cfg db)" and "autoCompactAfter (db_opts db) \<le> 0"
    and "fn d = (None, d', delta)" and "sq_changeset X d d' \<noteq> []" and "recordable X fn"
  shows "\<exists>db' w' m'. Update X None fn db w = Done ((None, None), db', w') \<and>
    man (manifestKey (db_cfg db)) (view (w_store w')) = Some m' \<and>
    coherent X (manifestKey (db_cfg db)) (view (w_store w')) \<and>
    Seq m' = Seq m + 1 \<and> Log m' = Log m @ [last (Log m')] \<and>
    replay X (view (w_store w')) m' = Some d' \<and> st_conn (db_st db') = OpenConn d'"
  using sole_client.Update_alone [OF assms(1) _ assms(3-7)] assms(2) by blast

theorem update_commits_witness:
  "\<exists>db' w' m'. Update rows_ext None (set_a CHR ''1'') (sample_db mem_cfg) (mem_world next_store) =
       Done ((None, None), db', w') \<and>
     man ''p/manifest.json'' (mem_view (w_store w')) = Some m' \<and> Seq m' = 2 \<and>
     replay rows_ext (mem_view (w_store w')) m' = Some (CHR ''1'', CHR ''5'')"
proof -
  have c: "db_cfg (sample_db mem_cfg) = mem_cfg" "manifestKey mem_cfg = ''p/manifest.json''"
    "maxRetries mem_cfg = 10" "autoCompactAfter (db_opts (sample_db mem_cfg)) = 0" "Seq next_manifest = 1"
    by (simp_all add: sample_db_def sample_cfg_defs defaultOptions_def next_manifest_def)
  have "sq_changeset rows_ext (CHR ''0'', CHR ''5'') (CHR ''1'', CHR ''5'') \<noteq> []"
    by (simp add: rows_ext_def rows_changeset_def)
  from update_commits [of "sample_db mem_cfg", OF _ sample_opened _ _ _ this rows_recordable, of "set_a CHR ''1''" 1]
    alone.sole_client_axioms c show ?thesis by (auto simp: set_a_def)
qed

text \<open>
  C4: the commit loop is not safe in general.  After a clean rebase \<^verbatim>\<open>localSeq\<close> is advanced but the
  savepoint is not moved; a later attempt that rolls back to it has lost the entries in between.
  In this run another client commits twice, \<^verbatim>\<open>Update\<close> returns success, and the manifest it leaves
  cannot be replayed: no client can open the database any more.
\<close>

theorem rebase_rollback_wedges:
  "good rows_ext ''p/manifest.json'' (mem_view base_store) \<and>
   coherent rows_ext ''p/manifest.json'' (mem_view (commit_c (commit_b base_store))) \<and>
   recordable rows_ext flip \<and>
   (\<exists>st' w' m'. doUpdate rows_ext sample_cfg None ''db'' flip base_handle
        (sample_world [id, commit_b, id, id, commit_c]) = (None, st', w') \<and>
      man ''p/manifest.json'' (mem_view (sh_base (w_store w'))) = Some m' \<and>
      replay rows_ext (mem_view (sh_base (w_store w'))) m' = None)"
proof (intro conjI exI)
  show "doUpdate rows_ext sample_cfg None ''db'' flip base_handle
      (sample_world [id, commit_b, id, id, commit_c]) = (None, wedge_st CHR ''2'' CHR ''7'' man_d,
      wedge_world (sample_put ''p/manifest.json'' (encode_manifest man_d) store_aa) [] 3)" by (rule wedge_run)
  show "man ''p/manifest.json'' (mem_view (sh_base (w_store
      (wedge_world (sample_put ''p/manifest.json'' (encode_manifest man_d) store_aa) [] 3)))) = Some man_d"
    by (simp add: wedge_world_def man_put wedge_wire wedge_valid)
  show "replay rows_ext (mem_view (sh_base (w_store
      (wedge_world (sample_put ''p/manifest.json'' (encode_manifest man_d) store_aa) [] 3)))) man_d = None"
    unfolding wedge_world_def using wedge_replay by simp
qed (rule sample_good wedge_others rows_recordable)+

text \<open>
  C6: compaction under interference keeps the database, whatever its result: the store can be
  replayed, others see the log extended or a younger snapshot, the handle knows where it is, and
  after a success its log is empty.
\<close>

theorem compact_safe:
  assumes "client cfg view invar env X gen others"
    and "invar (w_store w)" and "good X (manifestKey cfg) (view (w_store w))"
    and "fresh_keys X cfg gen (view (w_store w)) (w_uuid w)"
    and "handle_ok X gen (manifestKey cfg) (view (w_store w)) st"
    and "linked_to (manifestKey cfg) view invar (st_manifest st) (st_etag st)"
    and "compactLocked X cfg ctx path st w = (x, st', w')"
  shows "coherent X (manifestKey cfg) (view (w_store w')) \<and>
    evolves gen (manifestKey cfg) others (view (w_store w)) (view (w_store w')) \<and>
    handle_ok X gen (manifestKey cfg) (view (w_store w')) st' \<and>
    (x = None \<longrightarrow> Log (st_manifest st') = [] \<and> synced st')"
  using client.compactLocked_spec [OF assms] client.settled_def [OF assms(1)] by simp

theorem compact_safe_witness:
  "\<exists>x st' w'. compactLocked rows_ext sample_cfg None ''db'' base_handle (sample_world [join]) = (x, st', w') \<and>
     coherent rows_ext ''p/manifest.json'' (mem_view (sh_base (w_store w')))"
proof -
  obtain x st' w' where r: "compactLocked rows_ext sample_cfg None ''db'' base_handle (sample_world [join]) =
      (x, st', w')" by (metis prod_cases3)
  have "coherent rows_ext (manifestKey sample_cfg) (shared_view mem_view (w_store w')) \<and>
    evolves sample_gen (manifestKey sample_cfg) (\<lambda>ep. {}) (shared_view mem_view (w_store (sample_world [join])))
      (shared_view mem_view (w_store w')) \<and>
    handle_ok rows_ext sample_gen (manifestKey sample_cfg) (shared_view mem_view (w_store w')) st' \<and>
    (x = None \<longrightarrow> Log (st_manifest st') = [] \<and> synced st')"
    by (rule compact_safe [OF together.client_axioms join_invar _ _ _ _ r]) (simp_all add: sample_start)
  with r show ?thesis by (simp add: shared_view_def)
qed

text \<open>
  C7: a refresh under interference, complete or interrupted at any point, leaves a handle whose
  connection holds the content at its sequence number; after a success that is the end of the log
  and the schema version is the expected one.
\<close>

theorem refresh_safe:
  assumes "client cfg view invar env X gen others"
    and "invar (w_store w)" and "good X (manifestKey cfg) (view (w_store w))"
    and "handle_ok X gen (manifestKey cfg) (view (w_store w)) st"
    and "linked_to (manifestKey cfg) view invar (st_manifest st) (st_etag st)"
    and "refreshManifest X cfg ctx path st w = (x, st', w')"
  shows "env (view (w_store w)) (view (w_store w')) \<and>
    handle_ok X gen (manifestKey cfg) (view (w_store w')) st' \<and>
    (x = None \<longrightarrow> synced st' \<and> SchemaVersion (st_manifest st') = schemaVer cfg)"
  using client.refresh_spec [OF assms] by simp

theorem refresh_safe_witness:
  "\<exists>x st' w'. refreshManifest rows_ext sample_cfg None ''db'' base_handle (sample_world [join]) = (x, st', w') \<and>
     handle_ok rows_ext sample_gen ''p/manifest.json'' (mem_view (sh_base (w_store w'))) st'"
proof -
  obtain x st' w' where r: "refreshManifest rows_ext sample_cfg None ''db'' base_handle (sample_world [join]) =
      (x, st', w')" by (metis prod_cases3)
  have "sample_env (shared_view mem_view (w_store (sample_world [join]))) (shared_view mem_view (w_store w')) \<and>
    handle_ok rows_ext sample_gen (manifestKey sample_cfg) (shared_view mem_view (w_store w')) st' \<and>
    (x = None \<longrightarrow> synced st' \<and> SchemaVersion (st_manifest st') = schemaVer sample_cfg)"
    by (rule refresh_safe [OF together.client_axioms join_invar _ _ _ r]) (simp_all add: sample_start)
  with r show ?thesis by (simp add: shared_view_def)
qed

section \<open>A client that has the store to itself\<close>

text \<open>
  C8: a closure that returns an error leaves no trace: \<^verbatim>\<open>Update\<close> returns that error, no object of
  the store changes, and the connection is rolled back to the content before.
\<close>

theorem update_rolls_back:
  assumes "sole_client (db_cfg db) view invar X gen" and "opened X gen view invar db w m d"
    and "0 < maxRetries (db_cfg db)" and "fn d = (Some e, d', delta)"
  shows "\<exists>db' w'. Update X None fn db w = Done ((Some e, None), db', w') \<and>
    view (w_store w') = view (w_store w) \<and> st_conn (db_st db') = OpenConn d"
  using sole_client.Update_failed [of "db_cfg db" view invar X gen db w m d fn e d' delta] assms by blast

theorem update_rolls_back_witness:
  "\<exists>db' w'. Update rows_ext None (\<lambda>d. (Some (OtherErr ''no''), (CHR ''9'', CHR ''9''), 2)) (sample_db mem_cfg)
       (mem_world next_store) = Done ((Some (OtherErr ''no''), None), db', w') \<and>
     mem_view (w_store w') = mem_view next_store \<and> st_conn (db_st db') = OpenConn (CHR ''0'', CHR ''5'')"
  using update_rolls_back [of "sample_db mem_cfg", OF _ sample_opened,
      of "\<lambda>d. (Some (OtherErr ''no''), (CHR ''9'', CHR ''9''), 2)" "OtherErr ''no''" "(CHR ''9'', CHR ''9'')" 2]
    alone.sole_client_axioms
  by (simp add: sample_db_def sample_cfg_defs mem_world_def)

text \<open>
  C9: \<^verbatim>\<open>View\<close> shows the closure the content of the store at its current sequence number and keeps
  nothing of what the closure does: neither the store nor the connection changes.
\<close>

theorem view_reads:
  assumes "sole_client (db_cfg db) view invar X gen" and "opened X gen view invar db w m d"
    and "fn d = (x, d', delta)"
  shows "\<exists>db' w'. View X None fn db w = Done (x, db', w') \<and> view (w_store w') = view (w_store w) \<and>
    st_conn (db_st db') = OpenConn d \<and> db_Seq db' = Seq m"
  using sole_client.View_alone [of "db_cfg db" view invar X gen db w m d fn x d' delta] assms
  unfolding db_Seq_def by blast

theorem view_reads_witness:
  "\<exists>db' w'. View rows_ext None (set_a CHR ''9'') (sample_db mem_cfg) (mem_world next_store) =
       Done (None, db', w') \<and> mem_view (w_store w') = mem_view next_store \<and>
     st_conn (db_st db') = OpenConn (CHR ''0'', CHR ''5'') \<and> db_Seq db' = 1"
  using view_reads [of "sample_db mem_cfg", OF _ sample_opened, of "set_a CHR ''9''"] alone.sole_client_axioms
  by (simp add: sample_db_def sample_cfg_defs mem_world_def set_a_def next_manifest_def)

text \<open>
  C10: \<^verbatim>\<open>Compact\<close> keeps the content, the sequence number and the schema version, and leaves a
  manifest without log entries.
\<close>

theorem compact_keeps:
  assumes "sole_client (db_cfg db) view invar X gen" and "opened X gen view invar db w m d"
    and "0 < maxRetries (db_cfg db)" and "sq_vacuum X d = Inr d'"
  shows "\<exists>db' w' m'. db_Compact X None db w = (None, db', w') \<and>
    man (manifestKey (db_cfg db)) (view (w_store w')) = Some m' \<and>
    Seq m' = Seq m \<and> SchemaVersion m' = SchemaVersion m \<and> Log m' = [] \<and>
    replay X (view (w_store w')) m' = Some d"
  using sole_client.compact_alone [OF assms(1) _ assms(3,4)] assms(2) by blast

theorem compact_keeps_witness:
  "\<exists>db' w' m'. db_Compact rows_ext None (sample_db mem_cfg) (mem_world next_store) = (None, db', w') \<and>
     man ''p/manifest.json'' (mem_view (w_store w')) = Some m' \<and> Seq m' = 1 \<and> Log m' = [] \<and>
     replay rows_ext (mem_view (w_store w')) m' = Some (CHR ''0'', CHR ''5'')"
proof -
  have c: "db_cfg (sample_db mem_cfg) = mem_cfg" "manifestKey mem_cfg = ''p/manifest.json''"
    "maxRetries mem_cfg = 10" "Seq next_manifest = 1"
    by (simp_all add: sample_db_def sample_cfg_defs next_manifest_def)
  have "sq_vacuum rows_ext (CHR ''0'', CHR ''5'') = Inr (CHR ''0'', CHR ''5'')" by (simp add: rows_ext_def)
  from compact_keeps [of "sample_db mem_cfg", OF _ sample_opened _ this] alone.sole_client_axioms c
  show ?thesis by auto
qed

text \<open>
  C11: \<^verbatim>\<open>GC\<close> by a client that has the store to itself removes garbage only (snapshots that are not
  the current one, changesets of other epochs without an entry in the log), all of it if there is
  no grace period, in whatever order Go ranges over the epochs; the database stays as it is.
\<close>

theorem gc_keeps:
  assumes "sole_client (db_cfg db) view invar X gen" and "opened X gen view invar db w m d"
    and "\<And>g. set (ord g) = set g" and "layout_ok (db_cfg db) m"
  shows "\<exists>db' w'. db_GC X None now ord db w = (None, db', w') \<and>
    (\<forall>k. view (w_store w') k = view (w_store w) k \<or>
       (garbage (db_cfg db) m k \<and> view (w_store w') k = None)) \<and>
    (gcGracePeriod (db_opts db) \<le> 0 \<longrightarrow> (\<forall>k. garbage (db_cfg db) m k \<longrightarrow> view (w_store w') k = None)) \<and>
    man (manifestKey (db_cfg db)) (view (w_store w')) = Some m \<and>
    replay X (view (w_store w')) m = Some d"
  using sole_client.GC_alone [OF assms(1) _ _ assms(4)] assms(2,3) by blast

theorem gc_keeps_witness:
  "\<exists>db' w'. db_GC rows_ext None 0 rev (sample_db mem_cfg) (mem_world next_store) = (None, db', w') \<and>
     man ''p/manifest.json'' (mem_view (w_store w')) = Some next_manifest \<and>
     replay rows_ext (mem_view (w_store w')) next_manifest = Some (CHR ''0'', CHR ''5'')"
proof -
  have c: "db_cfg (sample_db mem_cfg) = mem_cfg" "manifestKey mem_cfg = ''p/manifest.json''"
    by (simp_all add: sample_db_def sample_cfg_defs)
  have "layout_ok mem_cfg next_manifest"
    by (simp add: layout_ok_def sample_cfg_defs next_manifest_def HasPrefix_def)
  with gc_keeps [of "sample_db mem_cfg", OF _ sample_opened, of rev 0] alone.sole_client_axioms c
  show ?thesis by auto
qed

text \<open>
  C12: \<^verbatim>\<open>GC\<close> is not safe beside other clients.  It sweeps by the manifest it loaded; if another
  client compacts and commits before the changesets are listed, the new epoch holds no entry of the
  old log and is removed, although the grace period is the default one: it is measured on the old
  snapshot.  \<^verbatim>\<open>GC\<close> returns success and the manifest then in the store cannot be replayed.
\<close>

theorem stale_gc_wedges:
  "good rows_ext ''p/manifest.json'' (mem_view next_store) \<and>
   coherent rows_ext ''p/manifest.json'' (mem_view (compact_commit next_store)) \<and>
   (\<exists>st' w'. GC rows_ext sample_cfg None ''db'' (gcGracePeriod (defaultOptions :: rows options)) ten_minutes id
        base_handle (wedge_world next_store [id, id, id, compact_commit] 1) = (None, st', w') \<and>
      man ''p/manifest.json'' (mem_view (sh_base (w_store w'))) = Some man_t \<and>
      replay rows_ext (mem_view (sh_base (w_store w'))) man_t = None)"
  using sample_good(2) compact_commit_coherent stale_gc by blast

text \<open>
  C13: migrations finish.  For a client that has the store to itself \<^verbatim>\<open>runMigrations\<close> returns without
  error, with every migration above the version of the database applied once, in the order of the
  versions, the schema version at the last one and the sequence number unchanged.
\<close>

theorem migrations_finish:
  assumes "sole_client cfg view invar X gen" and "staged X cfg gen view invar st w m d"
    and "checkOrder 0 migs = None" and "migrations_run X migs" and "SchemaVersion m \<le> maxVersion migs"
  shows "\<exists>st' w' m'. runMigrations X cfg None path migs st w = Some (None, st', w') \<and>
    man (manifestKey cfg) (view (w_store w')) = Some m' \<and>
    SchemaVersion m' = maxVersion migs \<and> Seq m' = Seq m \<and>
    replay X (view (w_store w')) m' = Some (migrate_content (pending (SchemaVersion m) migs) d) \<and>
    st_conn st' = OpenConn (migrate_content (pending (SchemaVersion m) migs) d)"
proof -
  from sole_client.runMigrations_alone [OF assms(1,3,4,2,5), of path] obtain st' w' m' where
    "runMigrations X cfg None path migs st w = Some (None, st', w')"
    "staged X cfg gen view invar st' w' m' (migrate_content (pending (SchemaVersion m) migs) d)"
    "SchemaVersion m' = maxVersion migs" "Seq m' = Seq m"
    "st_conn st' = OpenConn (migrate_content (pending (SchemaVersion m) migs) d)" by blast
  then show ?thesis by (auto simp: staged_def)
qed

theorem migrations_finish_witness:
  "\<exists>st' w' m'. runMigrations rows_ext mem_cfg None ''db'' sample_migrations base_handle (mem_world next_store) =
       Some (None, st', w') \<and> man ''p/manifest.json'' (mem_view (w_store w')) = Some m' \<and> SchemaVersion m' = 2 \<and>
     replay rows_ext (mem_view (w_store w')) m' = Some (CHR ''1'', CHR ''2'')"
proof -
  have v: "SchemaVersion next_manifest = 0" "maxVersion sample_migrations = 2" "manifestKey mem_cfg = ''p/manifest.json''"
    "migrate_content (pending 0 sample_migrations) (CHR ''0'', CHR ''5'') = (CHR ''1'', CHR ''2'')"
    by (simp_all add: next_manifest_def sample_migrations_def maxVersion_def sample_cfg_defs migrate_content_def
        pending_def set_a_def set_b_def)
  have "staged rows_ext mem_cfg sample_gen mem_view (mem_invar sample_md5) base_handle (mem_world next_store)
      next_manifest (CHR ''0'', CHR ''5'')"
    using sample_opened by (simp add: opened_def sample_db_def)
  from migrations_finish [OF alone.sole_client_axioms this sample_migrations_ok, of "''db''"] v show ?thesis by auto
qed

text \<open>
  C14: \<^verbatim>\<open>Open\<close> of an existing database by a client that has the store to itself returns a handle
  whose connection is open on the content of the database after the pending migrations, snapshot and
  log applied, at the sequence number of the manifest in the store, which is the old one, and which
  is ready for the operations of the theorems above.
\<close>

theorem open_database:
  assumes "o' = fold (\<lambda>f x. f x) opts defaultOptions" and "HasSuffix pre ''/''"
    and "cfg = \<lparr>cfg_store = sto, cfg_prefix = pre, manifestKey = pre @ ''manifest.json'',
        maxRetries = opt_maxRetries o', schemaVer = expectedSchema o' m\<rparr>"
    and "sole_client cfg view invar X gen"
    and "invar (w_store w)" and "good X (manifestKey cfg) (view (w_store w))"
    and "fresh_keys X cfg gen (view (w_store w)) (w_uuid w)" and "w_io w = []"
    and "man (manifestKey cfg) (view (w_store w)) = Some m" and "replay X (view (w_store w)) m = Some d"
    and "\<not> schemaUnchecked o'" and "checkOrder 0 (opt_migrations o') = None"
    and "migrations_run X (opt_migrations o')" and "SchemaVersion m \<le> maxVersion (opt_migrations o')"
  shows "\<exists>db w' m'. Open X sto None emptyName tmpName pre opts w = Some (Inr db, w') \<and> db_cfg db = cfg \<and>
    opened X gen view invar db w' m' (migrate_content (pending (SchemaVersion m) (opt_migrations o')) d) \<and>
    SchemaVersion m' = maxVersion (opt_migrations o') \<and> Seq m' = Seq m \<and>
    st_conn (db_st db) = OpenConn (migrate_content (pending (SchemaVersion m) (opt_migrations o')) d) \<and>
    localSeq (db_st db) = Seq m' \<and> st_manifest (db_st db) = m'"
  by (rule sole_client.Open_alone [OF assms(4,1-3,5-)])

theorem open_database_witness:
  "\<exists>db w' m'. Open rows_ext (mem_store sample_md5) None ''e'' ''t'' ''p/'' [] (mem_world next_store) = Some (Inr db, w') \<and>
     opened rows_ext sample_gen mem_view (mem_invar sample_md5) db w' m' (CHR ''0'', CHR ''5'') \<and> Seq m' = 1 \<and>
     st_conn (db_st db) = OpenConn (CHR ''0'', CHR ''5'') \<and> localSeq (db_st db) = 1"
proof -
  have c: "mem_cfg = \<lparr>cfg_store = mem_store sample_md5, cfg_prefix = ''p/'', manifestKey = ''p/'' @ ''manifest.json'',
      maxRetries = opt_maxRetries (defaultOptions :: rows options),
      schemaVer = expectedSchema (defaultOptions :: rows options) next_manifest\<rparr>"
    by (simp add: sample_cfg_defs defaultOptions_def expectedSchema_def)
  have k: "manifestKey mem_cfg = ''p/manifest.json''" by (simp add: sample_cfg_defs)
  have v: "SchemaVersion next_manifest = 0" by (simp add: next_manifest_def)
  have p:
    "HasSuffix ''p/'' ''/''" by (simp add: HasSuffix_def)
  have o: "(defaultOptions :: rows options) = fold (\<lambda>f x. f x) [] defaultOptions" by simp
  have "\<exists>db w' m'. Open rows_ext (mem_store sample_md5) None ''e'' ''t'' ''p/'' [] (mem_world next_store) =
      Some (Inr db, w') \<and> db_cfg db = mem_cfg \<and>
    opened rows_ext sample_gen mem_view (mem_invar sample_md5) db w' m' (migrate_content
      (pending (SchemaVersion next_manifest) (opt_migrations (defaultOptions :: rows options))) (CHR ''0'', CHR ''5'')) \<and>
    SchemaVersion m' = maxVersion (opt_migrations (defaultOptions :: rows options)) \<and> Seq m' = Seq next_manifest \<and>
    st_conn (db_st db) = OpenConn (migrate_content
      (pending (SchemaVersion next_manifest) (opt_migrations (defaultOptions :: rows options))) (CHR ''0'', CHR ''5'')) \<and>
    localSeq (db_st db) = Seq m' \<and> st_manifest (db_st db) = m'"
    by (rule open_database [OF o p c alone.sole_client_axioms])
      (simp_all add: mem_world_def base_invar k sample_good sample_fresh next_man next_replay defaultOptions_def
        migrations_run_def maxVersion_def v)
  then show ?thesis by (auto simp: defaultOptions_def pending_def migrate_content_def next_manifest_def)
qed

section \<open>Whole databases\<close>

text \<open>
  C15: \<^verbatim>\<open>Init\<close> from a valid file, where there is no database yet, makes one at sequence number 0
  with the content of the file, and \<^verbatim>\<open>Pull\<close> then gives back the file byte for byte.
\<close>

theorem init_pull_roundtrip:
  assumes "exclusive_store store view invar" and "invar (w_store w)" and "w_io w = []"
    and "HasSuffix pre ''/''" and "list_all is_ascii pre" and "uuid_law X" and "file_law X"
    and "view (w_store w) (pre @ ''manifest.json'') = None"
    and "src \<noteq> ''''" and "w_disk w src = Some b" and "is_db_file X b d"
  shows "\<exists>w1 m w2. Init X store None tmp pre src w = (None, w1) \<and>
    man (pre @ ''manifest.json'') (view (w_store w1)) = Some m \<and> replay X (view (w_store w1)) m = Some d \<and>
    Pull X store None pre dest w1 = (Inr \<lparr>pull_Seq = 0, pull_SchemaVersion = 0,
      pull_SnapshotSize = int (length b), pull_LogEntries = 0\<rparr>, w2) \<and> w_disk w2 dest = Some b"
proof -
  from exclusive_store.Init_alone [OF assms(1-6,8-), of tmp] obtain w1 m where i:
    "Init X store None tmp pre src w = (None, w1)" "invar (w_store w1)" "w_io w1 = []"
    "man (pre @ ''manifest.json'') (view (w_store w1)) = Some m" "Seq m = 0" "Log m = []" "SchemaVersion m = 0"
    "bSize (Snapshot m) = int (length b)" "coherent X (pre @ ''manifest.json'') (view (w_store w1))"
    "body_at (view (w_store w1)) (bKey (Snapshot m)) = Some b" "replay X (view (w_store w1)) m = Some d" by blast
  from exclusive_store.Pull_alone [OF assms(1) i(2,3) assms(4,7) i(9,4,11), of dest] i show ?thesis by auto
qed

theorem init_pull_roundtrip_witness:
  "\<exists>w1 m w2. Init rows_ext (mem_store sample_md5) None ''t'' ''p/'' ''f'' (file_world (NewMemBlobStore 0)) = (None, w1) \<and>
     man ''p/manifest.json'' (mem_view (w_store w1)) = Some m \<and>
     Pull rows_ext (mem_store sample_md5) None ''p/'' ''g'' w1 = (Inr \<lparr>pull_Seq = 0, pull_SchemaVersion = 0,
       pull_SnapshotSize = 2, pull_LogEntries = 0\<rparr>, w2) \<and> w_disk w2 ''g'' = Some ''34''"
proof -
  have f: "is_db_file rows_ext ''34'' (CHR ''3'', CHR ''4'')"
    by (simp add: is_db_file_def rows_ext_def max_int64_def)
  have "\<exists>w1 m w2. Init rows_ext (mem_store sample_md5) None ''t'' ''p/'' ''f'' (file_world (NewMemBlobStore 0)) = (None, w1) \<and>
    man (''p/'' @ ''manifest.json'') (mem_view (w_store w1)) = Some m \<and>
    replay rows_ext (mem_view (w_store w1)) m = Some (CHR ''3'', CHR ''4'') \<and>
    Pull rows_ext (mem_store sample_md5) None ''p/'' ''g'' w1 = (Inr \<lparr>pull_Seq = 0, pull_SchemaVersion = 0,
      pull_SnapshotSize = int (length ''34''), pull_LogEntries = 0\<rparr>, w2) \<and> w_disk w2 ''g'' = Some ''34''"
    by (rule init_pull_roundtrip [OF sample.mem_exclusive _ _ _ _ rows_uuid_law rows_file_law _ _ _ f])
      (simp_all add: file_world_def mem_world_def mem_invar_new HasSuffix_def is_ascii_def)
  then show ?thesis by auto
qed

text \<open>
  C16: \<^verbatim>\<open>Init\<close> never takes over an existing database.  As long as nobody deletes the manifest while it
  runs, whatever else other clients do and however calls fail, \<^verbatim>\<open>Init\<close> returns an error where there
  is a manifest.
\<close>

theorem init_existing:
  assumes "cas_store store view invar env" and "invar (w_store w)"
    and "view (w_store w) (pre @ ''manifest.json'') \<noteq> None"
    and "\<And>u v. env u v \<Longrightarrow> u (pre @ ''manifest.json'') \<noteq> None \<Longrightarrow> v (pre @ ''manifest.json'') \<noteq> None"
  shows "fst (Init X store ctx tmp pre src w) \<noteq> None"
  using cas_store.Init_existing [OF assms(1-3), of X ctx tmp src "fst (Init X store ctx tmp pre src w)"
      "snd (Init X store ctx tmp pre src w)"] assms(4) by simp

theorem init_existing_witness:
  "fst (Init rows_ext (mem_store sample_md5) None ''t'' ''p/'' ''f'' (file_world base_store)) \<noteq> None"
proof (rule init_existing [where view = mem_view and invar = "mem_invar sample_md5" and env = "(=)"])
  show "cas_store (mem_store sample_md5) mem_view (mem_invar sample_md5) (=)"
    using sample.mem_exclusive by (rule exclusive_store.axioms)
qed (simp_all add: file_world_def mem_world_def base_invar base_view)

text \<open>
  C17: \<^verbatim>\<open>downloadParallel\<close> gives the bytes that \<^verbatim>\<open>downloadSingle\<close> gives, for every object that is not empty
  and every number of parts, also when there are more parts than bytes.
\<close>

theorem parallel_equals_single:
  assumes "exclusive_store store view invar" and "invar s" and "view s k = Some (b, e)" and "b \<noteq> []" and "0 < p"
  shows "fst (downloadParallel store None k (int (length b)) p s) = fst (downloadSingle store None k s)"
  using exclusive_store.parallel_alone [OF assms(1-3) refl, of p] exclusive_store.single_alone [OF assms(1-3)] assms(4,5)
  by auto

theorem parallel_equals_single_witness:
  "fst (downloadParallel (mem_store sample_md5) None ''p/snapshots/s.sqlite'' 2 4 base_store) =
     fst (downloadSingle (mem_store sample_md5) None ''p/snapshots/s.sqlite'' base_store)"
  using parallel_equals_single [OF sample.mem_exclusive base_invar(1), of "''p/snapshots/s.sqlite''" "''00''" _ 4]
  by (simp add: base_view)

end
